(* ===== verification/Prelude.thy ===== *)
theory Prelude
  imports Complex_Main "HOL-Library.Char_ord" "HOL-Library.List_Lexorder" "HOL-Library.Sublist"
begin

text \<open>
  Shared ground of the development: the collections the component theories feed
  (\<open>prog_simps\<close> for the combinators of effectful programs, \<open>store_simps\<close> for the
  database, \<open>wp_rules\<close> for reasoning about awaits), the text operations of Python that the
  gateway relies on (lower-casing, decimal printing, \<open>int(text)\<close>, the two address patterns),
  and a few list lemmas.

  A Python string is a HOL \<open>string\<close> holding its UTF-8 bytes; a lone surrogate, which Python
  strings may contain, is the three-byte sequence it would have. Lower-casing and digits are
  those of ASCII: every string the gateway compares after lower-casing is an address, a hash or
  an alias, and the patterns these must match are ASCII only.
\<close>

named_theorems prog_simps \<open>definitions of the program combinators\<close>
named_theorems store_simps \<open>what a query returns after an update of the database\<close>
named_theorems wp_rules \<open>weakest preconditions of the program combinators\<close>
named_theorems row_simps \<open>definitions of pure tests on session rows and policies\<close>

type_synonym time = rat

section \<open>Text\<close>

definition is_digit :: "char \<Rightarrow> bool" where
  "is_digit c = (CHR ''0'' \<le> c \<and> c \<le> CHR ''9'')"

definition is_hex :: "char \<Rightarrow> bool" where
  "is_hex c = (is_digit c \<or> CHR ''a'' \<le> c \<and> c \<le> CHR ''f'' \<or> CHR ''A'' \<le> c \<and> c \<le> CHR ''F'')"

definition is_space :: "char \<Rightarrow> bool" where
  "is_space c = (c = CHR '' '' \<or> c \<in> {CHR 0x09, CHR 0x0A, CHR 0x0B, CHR 0x0C, CHR 0x0D} \<or>
     c \<in> {CHR 0x1C, CHR 0x1D, CHR 0x1E, CHR 0x1F})"

definition lower_char :: "char \<Rightarrow> char" where
  "lower_char c = (if CHR ''A'' \<le> c \<and> c \<le> CHR ''Z'' then char_of (of_char c + 32 :: nat) else c)"

definition lower :: "string \<Rightarrow> string" where
  "lower s = map lower_char s"

definition strip :: "string \<Rightarrow> string" where
  "strip s = rev (dropWhile is_space (rev (dropWhile is_space s)))"

definition digit_val :: "int \<Rightarrow> char \<Rightarrow> int option" where
  "digit_val b c =
    (let v = (if is_digit c then of_char c - 48
              else if CHR ''a'' \<le> c \<and> c \<le> CHR ''z'' then of_char c - 87
              else if CHR ''A'' \<le> c \<and> c \<le> CHR ''Z'' then of_char c - 55
              else b)
     in if v < b then Some v else None)"

text \<open>
  Digits of \<open>int(text, base)\<close>: single underscores are allowed between digits. The flag says
  that a digit is required next.
\<close>

fun scan_digits :: "int \<Rightarrow> int \<Rightarrow> bool \<Rightarrow> string \<Rightarrow> int option" where
  "scan_digits b acc need [] = (if need then None else Some acc)"
| "scan_digits b acc need (c # cs) =
    (if c = CHR ''_'' then (if need then None else scan_digits b acc True cs)
     else (case digit_val b c of
             None \<Rightarrow> None
           | Some d \<Rightarrow> scan_digits b (b * acc + d) False cs))"

definition split_sign :: "string \<Rightarrow> bool \<times> string" where
  "split_sign s = (case s of
     [] \<Rightarrow> (False, [])
   | c # cs \<Rightarrow> if c = CHR ''-'' then (True, cs) else if c = CHR ''+'' then (False, cs) else (False, s))"

definition signed :: "bool \<Rightarrow> int \<Rightarrow> int" where
  "signed neg n = (if neg then - n else n)"

text \<open>\<open>int(s)\<close>: None is the \<open>ValueError\<close>; Python refuses more than 4300 decimal digits.\<close>

definition max_str_digits :: nat where
  "max_str_digits = 4300"

definition int_of_text :: "string \<Rightarrow> int option" where
  "int_of_text s =
    (case split_sign (strip s) of (neg, body) \<Rightarrow>
       if length (filter is_digit body) > max_str_digits then None
       else map_option (signed neg) (scan_digits 10 0 True body))"

text \<open>\<open>int(s, 16)\<close>: an optional \<open>0x\<close> prefix, which one underscore may follow.\<close>

definition hex_body :: "string \<Rightarrow> string" where
  "hex_body s =
    (if prefix ''0x'' s \<or> prefix ''0X'' s
     then (case drop 2 s of [] \<Rightarrow> [] | c # cs \<Rightarrow> if c = CHR ''_'' then cs else c # cs)
     else s)"

definition hex_of_text :: "string \<Rightarrow> int option" where
  "hex_of_text s =
    (case split_sign (strip s) of (neg, body) \<Rightarrow>
       map_option (signed neg) (scan_digits 16 0 True (hex_body body)))"

definition digit_char :: "nat \<Rightarrow> char" where
  "digit_char d = char_of (48 + d)"

fun dec_nat :: "nat \<Rightarrow> string" where
  "dec_nat n = (if n < 10 then [digit_char n] else dec_nat (n div 10) @ [digit_char (n mod 10)])"

declare dec_nat.simps [simp del]

definition dec :: "int \<Rightarrow> string" where
  "dec i = (if i < 0 then CHR ''-'' # dec_nat (nat (- i)) else dec_nat (nat i))"

section \<open>The two identifier patterns of the gateway\<close>

text \<open>
  \<open>HASH\<close> and \<open>ADDRESS\<close> of gateway/models.py, always used through \<open>fullmatch\<close>: the text
  \<open>0x\<close> followed by exactly 64 (or 40) hexadecimal digits and nothing else.
\<close>

definition HASH :: "string \<Rightarrow> bool" where
  "HASH s = (length s = 66 \<and> prefix ''0x'' s \<and> list_all is_hex (drop 2 s))"

definition ADDRESS :: "string \<Rightarrow> bool" where
  "ADDRESS s = (length s = 42 \<and> prefix ''0x'' s \<and> list_all is_hex (drop 2 s))"

text \<open>\<open>HASH.fullmatch(s) and int(s, 16) != 0\<close>.\<close>

definition nonzero_hash :: "string \<Rightarrow> bool" where
  "nonzero_hash s = (HASH s \<and> hex_of_text s \<noteq> Some 0)"

section \<open>Evaluation\<close>

text \<open>Equations that let characters and decimal text be evaluated over binary numbers.\<close>

lemma less_eq_char_code [code]: "c \<le> d = ((of_char c :: int) \<le> of_char d)"
  by (metis less_eq_char_def of_nat_le_iff of_nat_of_char)

function dec_pos :: "int \<Rightarrow> string" where
  "dec_pos n = (if n < 10 then [digit_char (nat n)] else dec_pos (n div 10) @ [digit_char (nat (n mod 10))])"
  by auto
termination by (relation "measure nat") auto

declare dec_pos.simps [simp del]

lemma dec_pos_nat: "dec_pos (int n) = dec_nat n"
proof (induction n rule: dec_nat.induct)
  case (1 n)
  then show ?case unfolding dec_pos.simps [of "int n"] dec_nat.simps [of n]
    by (auto simp: zdiv_int nat_mod_distrib)
qed

lemma dec_code [code]: "dec i = (if i < 0 then CHR ''-'' # dec_pos (- i) else dec_pos i)"
  using dec_pos_nat [of "nat i"] dec_pos_nat [of "nat (- i)"] by (simp add: dec_def split: if_splits)

lemma length_max_code [code_unfold]: "length xs > max_str_digits \<longleftrightarrow> 4300 < int (length xs)"
  by (simp add: max_str_digits_def)

section \<open>Lemmas\<close>

lemma lower_lower_char [simp]: "lower_char (lower_char c) = lower_char c"
proof (cases "CHR ''A'' \<le> c \<and> c \<le> CHR ''Z''")
  case True
  define n where "n = (of_char c :: nat)"
  have c: "c = char_of n" by (simp add: n_def)
  from True have n: "65 \<le> n" "n \<le> 90"
    by (simp_all add: n_def less_eq_char_def)
  have o: "of_char (char_of (n + 32) :: char) = n + 32" using n by simp
  then show ?thesis using True n
    by (auto simp: lower_char_def less_eq_char_def n_def [symmetric])
next
  case False
  then show ?thesis by (auto simp add: lower_char_def)
qed

lemma lower_lower [simp]: "lower (lower s) = lower s"
  by (simp add: lower_def comp_def)

lemma length_lower [simp]: "length (lower s) = length s"
  by (simp add: lower_def)

lemma lower_Nil [simp]: "lower [] = []"
  by (simp add: lower_def)

lemma lower_append: "lower (s @ t) = lower s @ lower t"
  by (simp add: lower_def)

lemma filter_rev_subset: "set (filter p xs) \<subseteq> set xs"
  by auto

lemma map_of_filter_snd: "distinct (map fst xs) \<Longrightarrow>
    map_of (filter (\<lambda>(k, v). p v) xs) k = (case map_of xs k of None \<Rightarrow> None | Some v \<Rightarrow> if p v then Some v else None)"
  by (induction xs) (auto split: option.splits simp: map_of_eq_None_iff)

subsection \<open>Decimal text: printing and reading back\<close>

lemma of_char_digit_char: "d < 10 \<Longrightarrow> of_char (digit_char d) = (48 + d :: nat)"
  by (simp add: digit_char_def)

lemma of_char_digit_char_int: "d < 10 \<Longrightarrow> of_char (digit_char d) = (48 + int d)"
  using of_nat_of_char [where 'a = int, of "digit_char d"] by (simp add: of_char_digit_char)

lemma is_digit_digit_char [simp]: "d < 10 \<Longrightarrow> is_digit (digit_char d)"
  by (simp add: is_digit_def less_eq_char_def of_char_digit_char)

lemma digit_val_digit_char [simp]: "d < 10 \<Longrightarrow> digit_val 10 (digit_char d) = Some (int d)"
  by (simp add: digit_val_def of_char_digit_char_int)

lemma is_digit_not_special:
  assumes "is_digit c"
  shows "c \<noteq> CHR ''_''" "\<not> is_space c" "c \<noteq> CHR ''-''" "c \<noteq> CHR ''+''"
  using assms by (auto simp: is_digit_def is_space_def less_eq_char_def)

lemma dec_nat_digits: "list_all is_digit (dec_nat n)"
proof (induction n rule: dec_nat.induct)
  case (1 n)
  then show ?case by (subst dec_nat.simps) simp
qed

lemma dec_nat_nonempty [simp]: "dec_nat n \<noteq> []"
  by (subst dec_nat.simps) simp

lemma scan_digits_snoc:
  "scan_digits 10 acc need xs = Some v \<Longrightarrow> d < 10 \<Longrightarrow>
   scan_digits 10 acc need (xs @ [digit_char d]) = Some (10 * v + int d)"
  by (induction "10::int" acc need xs rule: scan_digits.induct)
    (auto split: if_splits option.splits dest: is_digit_not_special(1)[OF is_digit_digit_char])

lemma scan_dec_nat: "scan_digits 10 0 True (dec_nat n) = Some (int n)"
proof (induction n rule: dec_nat.induct)
  case (1 n)
  show ?case
  proof (cases "n < 10")
    case True
    then show ?thesis
      by (subst dec_nat.simps) (simp add: is_digit_not_special(1)[OF is_digit_digit_char])
  next
    case False
    with "1.IH" have "scan_digits 10 0 True (dec_nat (n div 10)) = Some (int (n div 10))" by simp
    moreover have "10 * int (n div 10) + int (n mod 10) = int n" by presburger
    ultimately show ?thesis using False by (subst dec_nat.simps) (simp add: scan_digits_snoc)
  qed
qed

lemma length_dec_nat: "n < 10 ^ Suc k \<Longrightarrow> length (dec_nat n) \<le> Suc k"
proof (induction k arbitrary: n)
  case 0
  then show ?case by (subst dec_nat.simps) simp
next
  case (Suc k)
  show ?case
  proof (cases "n < 10")
    case True
    then show ?thesis by (subst dec_nat.simps) simp
  next
    case False
    from Suc.prems have "n div 10 < 10 ^ Suc k" by (simp add: less_mult_imp_div_less)
    from Suc.IH [OF this] False show ?thesis by (subst dec_nat.simps) simp
  qed
qed

lemma strip_no_space: "list_all (\<lambda>c. \<not> is_space c) s \<Longrightarrow> strip s = s"
proof -
  assume a: "list_all (\<lambda>c. \<not> is_space c) s"
  then have "dropWhile is_space s = s"
    by (cases s) auto
  moreover from a have "dropWhile is_space (rev s) = rev s"
    by (cases s rule: rev_cases) auto
  ultimately show ?thesis by (simp add: strip_def)
qed

lemma split_sign_digits: "list_all is_digit s \<Longrightarrow> split_sign s = (False, s)"
  by (cases s) (auto simp: split_sign_def dest: is_digit_not_special)

lemma digit_val_nonneg: "digit_val b c = Some d \<Longrightarrow> 0 \<le> d"
  using of_nat_of_char [where 'a = int, of c, symmetric]
  by (auto simp: digit_val_def is_digit_def less_eq_char_def Let_def split: if_splits)

lemma scan_digits_nonneg: "scan_digits b acc need s = Some n \<Longrightarrow> 0 \<le> b \<Longrightarrow> 0 \<le> acc \<Longrightarrow> 0 \<le> n"
  by (induction b acc need s rule: scan_digits.induct)
    (auto split: if_splits option.splits dest: digit_val_nonneg)

lemma int_of_text_digits_nonneg:
  assumes "list_all is_digit s" and "int_of_text s = Some n"
  shows "0 \<le> n"
proof -
  have "strip s = s" using assms(1)
    by (intro strip_no_space) (auto simp: list_all_iff dest: is_digit_not_special)
  then show ?thesis using assms split_sign_digits [OF assms(1)] scan_digits_nonneg
    by (auto simp: int_of_text_def signed_def split: if_splits)
qed

text \<open>Amounts are stored as \<open>str(n)\<close> and read back with \<open>int(...)\<close>.\<close>

lemma int_of_text_dec:
  assumes "0 \<le> i" and "i < 10 ^ max_str_digits"
  shows "int_of_text (dec i) = Some i"
proof -
  let ?s = "dec_nat (nat i)"
  obtain k where k: "max_str_digits = Suc k"
    by (metis max_str_digits_def zero_neq_numeral not0_implies_Suc)
  have dig: "list_all is_digit ?s" by (rule dec_nat_digits)
  then have "list_all (\<lambda>c. \<not> is_space c) ?s"
    by (auto simp: list_all_iff dest: is_digit_not_special)
  then have st: "strip ?s = ?s" by (rule strip_no_space)
  have "nat i < 10 ^ Suc k" using assms k by (simp add: nat_less_iff)
  then have "length ?s \<le> max_str_digits" unfolding k by (rule length_dec_nat)
  then have "length (filter is_digit ?s) \<le> max_str_digits"
    using le_trans length_filter_le by blast
  then show ?thesis
    using assms(1) split_sign_digits [OF dig]
    by (simp add: int_of_text_def dec_def st scan_dec_nat signed_def)
qed

text \<open>The bound covers every amount the gateway accepts: 78 decimal digits.\<close>

lemma amount_below_max_str: "i < 10 ^ 78 \<Longrightarrow> (i::int) < 10 ^ max_str_digits"
proof -
  assume "i < 10 ^ 78"
  also have "(10::int) ^ 78 \<le> 10 ^ max_str_digits"
    by (rule power_increasing) (simp_all add: max_str_digits_def)
  finally show ?thesis .
qed

end
