(* ===== verification/PyData.thy ===== *)
theory PyData
  imports Prelude
begin

text \<open>
  Python values as the gateway receives them from JSON, the conversions \<open>str(...)\<close>,
  \<open>int(...)\<close> and truth testing on them, and the errors of the program: \<open>GatewayError\<close> of
  gateway/node.py, the Python exceptions its handlers name, and task cancellation.
\<close>

section \<open>JSON values\<close>

text \<open>A finite IEEE double is a rational number; arithmetic on doubles is not needed here.\<close>

datatype pyfloat = Finite rat | PosInf | NegInf | NaN

datatype json =
    JNull
  | JBool bool
  | JInt int
  | JFloat pyfloat
  | JStr string
  | JArr "json list"
  | JObj "(string \<times> json) list"

fun is_dict :: "json \<Rightarrow> bool" where
  "is_dict (JObj m) = True"
| "is_dict _ = False"

fun is_str :: "json \<Rightarrow> bool" where
  "is_str (JStr s) = True"
| "is_str _ = False"

fun is_list :: "json \<Rightarrow> bool" where
  "is_list (JArr xs) = True"
| "is_list _ = False"

text \<open>\<open>type(x) is int\<close>, and \<open>isinstance(x, bool)\<close>.\<close>

fun is_int :: "json \<Rightarrow> bool" where
  "is_int (JInt i) = True"
| "is_int _ = False"

fun is_bool :: "json \<Rightarrow> bool" where
  "is_bool (JBool b) = True"
| "is_bool _ = False"

text \<open>\<open>d.get(k)\<close>: a missing member is None of the option type, a JSON null is \<open>Some JNull\<close>.\<close>

fun jget :: "string \<Rightarrow> json \<Rightarrow> json option" where
  "jget k (JObj m) = map_of m k"
| "jget k _ = None"

definition jget_or :: "string \<Rightarrow> json \<Rightarrow> json \<Rightarrow> json" where
  "jget_or k d j = (case jget k j of None \<Rightarrow> d | Some v \<Rightarrow> v)"

abbreviation jget_null :: "string \<Rightarrow> json \<Rightarrow> json" where
  "jget_null k j \<equiv> jget_or k JNull j"

fun truthy :: "json \<Rightarrow> bool" where
  "truthy JNull = False"
| "truthy (JBool b) = b"
| "truthy (JInt i) = (i \<noteq> 0)"
| "truthy (JFloat f) = (f \<noteq> Finite 0)"
| "truthy (JStr s) = (s \<noteq> [])"
| "truthy (JArr xs) = (xs \<noteq> [])"
| "truthy (JObj m) = (m \<noteq> [])"

text \<open>
  \<open>str(x)\<close>. The texts of floats, lists and dicts are stand-ins: the gateway only tests such
  texts for being an address, a hash, a digit string or one of its own identifiers, and the real
  texts (\<open>1.5\<close>, \<open>[...]\<close>, \<open>{...}\<close>) are none of these, like the stand-ins.
\<close>

fun py_str :: "json \<Rightarrow> string" where
  "py_str JNull = ''None''"
| "py_str (JBool b) = (if b then ''True'' else ''False'')"
| "py_str (JInt i) = dec i"
| "py_str (JFloat f) = ''<float>''"
| "py_str (JStr s) = s"
| "py_str (JArr xs) = ''[...]''"
| "py_str (JObj m) = ''{...}''"

section \<open>Errors\<close>

datatype pyexc = KeyError | TypeError | ValueError | OverflowError | AttributeError | HTTPError | TimeoutError
  | RuntimeError | OSError | DatabaseError

text \<open>
  \<open>GatewayError\<close>: its code, HTTP status, what is known of a wallet submission, and the
  transactions it carries. The human-readable message is determined by the place that raises
  the error and is not modelled; where the gateway stores a message, the model stores the code.
\<close>

datatype outcome = Unknown | Not_submitted

record gerror =
  code :: string
  status :: int
  outcome :: outcome
  txs :: json

datatype exn = Gateway gerror | Python pyexc | Cancelled

text \<open>The constructor's defaults: status 503, outcome \<open>"unknown"\<close>, no transactions.\<close>

definition gateway_error :: "string \<Rightarrow> int \<Rightarrow> outcome \<Rightarrow> json \<Rightarrow> gerror" where
  "gateway_error c st out t =
     \<lparr>code = c, status = st, outcome = out, txs = (if truthy t then t else JArr [])\<rparr>"

definition err :: "string \<Rightarrow> exn" where
  "err c = Gateway (gateway_error c 503 Unknown JNull)"

definition err_status :: "string \<Rightarrow> int \<Rightarrow> exn" where
  "err_status c st = Gateway (gateway_error c st Unknown JNull)"

definition err_not_submitted :: "string \<Rightarrow> exn" where
  "err_not_submitted c = Gateway (gateway_error c 503 Not_submitted JNull)"

text \<open>\<open>getattr(exc, "code", default)\<close>.\<close>

fun exn_code :: "string \<Rightarrow> exn \<Rightarrow> string" where
  "exn_code d (Gateway g) = code g"
| "exn_code d _ = d"

section \<open>Numbers from JSON\<close>

text \<open>\<open>int(x)\<close>: text is parsed, a float is truncated towards zero.\<close>

fun to_int :: "json \<Rightarrow> pyexc + int" where
  "to_int JNull = Inl TypeError"
| "to_int (JBool b) = Inr (if b then 1 else 0)"
| "to_int (JInt i) = Inr i"
| "to_int (JFloat (Finite q)) = Inr (if 0 \<le> q then \<lfloor>q\<rfloor> else \<lceil>q\<rceil>)"
| "to_int (JFloat NaN) = Inl ValueError"
| "to_int (JFloat _) = Inl OverflowError"
| "to_int (JStr s) = (case int_of_text s of None \<Rightarrow> Inl ValueError | Some i \<Rightarrow> Inr i)"
| "to_int (JArr xs) = Inl TypeError"
| "to_int (JObj m) = Inl TypeError"

text \<open>\<open>int(d[k])\<close>.\<close>

definition int_member :: "string \<Rightarrow> json \<Rightarrow> pyexc + int" where
  "int_member k j = (case jget k j of None \<Rightarrow> Inl KeyError | Some v \<Rightarrow> to_int v)"

text \<open>\<open>int(x, 16)\<close>.\<close>

fun to_int16 :: "json \<Rightarrow> pyexc + int" where
  "to_int16 (JStr s) = (case hex_of_text s of None \<Rightarrow> Inl ValueError | Some i \<Rightarrow> Inr i)"
| "to_int16 _ = Inl TypeError"

text \<open>Iterating over a value: \<open>for x in v\<close>.\<close>

fun json_iter :: "json \<Rightarrow> pyexc + json list" where
  "json_iter (JArr xs) = Inr xs"
| "json_iter (JStr s) = Inr (map (\<lambda>c. JStr [c]) s)"
| "json_iter (JObj m) = Inr (map (\<lambda>kv. JStr (fst kv)) m)"
| "json_iter _ = Inl TypeError"

lemma jget_or_simps [simp]:
  "jget_or k d (JObj m) = (case map_of m k of None \<Rightarrow> d | Some v \<Rightarrow> v)"
  by (simp add: jget_or_def)

lemma is_dictE: "is_dict j \<Longrightarrow> (\<And>m. j = JObj m \<Longrightarrow> P) \<Longrightarrow> P"
  by (cases j) auto

lemma is_listE: "is_list j \<Longrightarrow> (\<And>xs. j = JArr xs \<Longrightarrow> P) \<Longrightarrow> P"
  by (cases j) auto

lemma is_strE: "is_str j \<Longrightarrow> (\<And>s. j = JStr s \<Longrightarrow> P) \<Longrightarrow> P"
  by (cases j) auto

lemma err_eq [simp]:
  "err c = err c' \<longleftrightarrow> c = c'"
  "Gateway g = err c \<longleftrightarrow> g = gateway_error c 503 Unknown JNull"
  by (auto simp: err_def gateway_error_def)

lemma exn_code_err [simp]:
  "exn_code d (err c) = c"
  "exn_code d (err_status c st) = c"
  "exn_code d (err_not_submitted c) = c"
  by (simp_all add: err_def err_status_def err_not_submitted_def gateway_error_def)

end
