(* ===== verification/Doubles.thy ===== *)
theory Doubles
  imports Prelude "HOL-Library.Log_Nat"
begin

text \<open>
  Finite IEEE doubles and the Python functions on them that gateway/models.py uses: addition,
  multiplication, \<open>sum\<close>, \<open>math.isclose\<close> and \<open>math.nextafter\<close>. Every finite double is a whole
  multiple of the least subnormal number, so the double \<open>x\<close> is represented by the integer
  \<open>x * 2 ^ 1074\<close>; an integer represents a double iff it has at most 53 significant binary digits.
  An operation computes the exact result and rounds it to the nearest double, ties to the even one.
  Overflow does not occur: the numbers of this program are at most five.
\<close>

section \<open>Rounding\<close>

text \<open>The distance of two neighbouring doubles at \<open>n\<close>.\<close>

definition ulp :: "int \<Rightarrow> int" where
  "ulp n = 2 ^ nat (bitlen \<bar>n\<bar> - 53)"

definition double :: "int \<Rightarrow> bool" where
  "double n = (ulp n dvd n)"

definition round_to :: "int \<Rightarrow> int \<Rightarrow> int" where
  "round_to u n = (let q = n div u; r = n mod u
     in (if 2 * r < u \<or> 2 * r = u \<and> even q then q else q + 1) * u)"

definition rnd :: "int \<Rightarrow> int" where
  "rnd n = round_to (ulp n) n"

definition one :: int where
  "one = 2 ^ 1074"

text \<open>The distance of neighbouring doubles just below one: \<open>2 ^ -53\<close>.\<close>

definition spacing :: int where
  "spacing = 2 ^ 1021"

definition fadd :: "int \<Rightarrow> int \<Rightarrow> int" where
  "fadd x y = rnd (x + y)"

definition fsub :: "int \<Rightarrow> int \<Rightarrow> int" where
  "fsub x y = rnd (x - y)"

text \<open>The exact product has up to 2148 binary places; those below the unit are rounded off as well.\<close>

definition fmul :: "int \<Rightarrow> int \<Rightarrow> int" where
  "fmul x y = round_to (max one (ulp (x * y))) (x * y) div one"

text \<open>
  \<open>sum(values)\<close> on floats, since Python 3.12 with the compensation of Neumaier; \<open>math.isclose\<close>
  and \<open>math.nextafter\<close> towards the infinities.
\<close>

fun sum_from :: "int \<Rightarrow> int \<Rightarrow> int list \<Rightarrow> int" where
  "sum_from f c [] = (if c = 0 then f else fadd f c)"
| "sum_from f c (x # xs) =
    (let t = fadd f x;
         e = (if \<bar>x\<bar> \<le> \<bar>f\<bar> then fadd (fsub f t) x else fadd (fsub x t) f)
     in sum_from t (fadd c e) xs)"

fun py_sum :: "int list \<Rightarrow> int" where
  "py_sum [] = 0"
| "py_sum (x # xs) = sum_from x 0 xs"

definition isclose :: "int \<Rightarrow> int \<Rightarrow> int \<Rightarrow> int \<Rightarrow> bool" where
  "isclose rel_tol abs_tol a b =
    (a = b \<or>
     (let diff = \<bar>fsub b a\<bar> in
        diff \<le> \<bar>fmul rel_tol b\<bar> \<or> diff \<le> \<bar>fmul rel_tol a\<bar> \<or> diff \<le> abs_tol))"

text \<open>The double \<open>1e-9\<close>, which is also the default relative tolerance.\<close>

definition tolerance :: int where
  "tolerance = 4835703278458517 * 2 ^ 992"

definition succ_double :: "int \<Rightarrow> int" where
  "succ_double n = n + ulp n"

definition pred_double :: "int \<Rightarrow> int" where
  "pred_double n = n - ulp (n - 1)"

text \<open>The neighbours of a negative double mirror those of its absolute value.\<close>

definition nextafter_up :: "int \<Rightarrow> int" where
  "nextafter_up n = (if 0 \<le> n then succ_double n else - pred_double (- n))"

definition nextafter_down :: "int \<Rightarrow> int" where
  "nextafter_down n = (if 0 < n then pred_double n else - succ_double (- n))"

section \<open>Facts\<close>

lemma ulp_pos [simp]: "0 < ulp n"
  by (simp add: ulp_def)

lemma ulp_minus [simp]: "ulp (- n) = ulp n"
  by (simp add: ulp_def)

lemma ulp_abs [simp]: "ulp \<bar>n\<bar> = ulp n"
  by (simp add: ulp_def)

lemma double_zero [simp]: "double 0"
  by (simp add: double_def)

lemma double_minus [simp]: "double (- n) = double n"
  by (simp add: double_def)

lemma abs_less_bits: "\<bar>n\<bar> < 2 ^ nat (bitlen \<bar>n\<bar>)"
  using bitlen_bounds [of "\<bar>n\<bar>"] by (cases "n = 0") auto

text \<open>A double has at most 53 significant digits.\<close>

lemma less_significand: "\<bar>n\<bar> < 2 ^ 53 * ulp n"
proof -
  have "nat (bitlen \<bar>n\<bar>) \<le> 53 + nat (bitlen \<bar>n\<bar> - 53)" by linarith
  then have "(2::int) ^ nat (bitlen \<bar>n\<bar>) \<le> 2 ^ (53 + nat (bitlen \<bar>n\<bar> - 53))" by (rule power_increasing) simp
  with abs_less_bits [of n] show ?thesis unfolding ulp_def power_add by linarith
qed

lemma ulp_le:
  assumes "\<bar>n\<bar> < 2 ^ 53 * 2 ^ k"
  shows "ulp n \<le> 2 ^ k" and "ulp n dvd 2 ^ k"
proof -
  have "bitlen \<bar>n\<bar> \<le> int (53 + k)"
    using assms unfolding bitlen_le_iff_power nat_int power_add by simp
  then have "nat (bitlen \<bar>n\<bar> - 53) \<le> k" by simp
  then show "ulp n \<le> 2 ^ k" "ulp n dvd 2 ^ k"
    unfolding ulp_def by (simp_all add: power_increasing le_imp_power_dvd)
qed

lemma doubleI_less:
  assumes "2 ^ k dvd n" and "\<bar>n\<bar> < 2 ^ 53 * 2 ^ k"
  shows "double n"
  unfolding double_def using ulp_le(2) [OF assms(2)] assms(1) by (rule dvd_trans)

lemma doubleI:
  assumes "2 ^ k dvd n" and "\<bar>n\<bar> \<le> 2 ^ 53 * 2 ^ k"
  shows "double n"
proof (cases "\<bar>n\<bar> < 2 ^ 53 * 2 ^ k")
  case False
  with assms(2) have n: "\<bar>n\<bar> = 2 ^ 52 * 2 ^ Suc k" by simp
  then have "2 ^ Suc k dvd \<bar>n\<bar>" "\<bar>n\<bar> < 2 ^ 53 * 2 ^ Suc k" by simp_all
  then show ?thesis by (intro doubleI_less [of "Suc k"]) simp_all
qed (use assms in \<open>auto intro: doubleI_less\<close>)

lemma ulp_power: obtains k where "ulp n = 2 ^ k"
  by (simp add: ulp_def)

lemma ulp_dvd: "\<bar>m\<bar> \<le> \<bar>n\<bar> \<Longrightarrow> ulp m dvd ulp n"
  using less_significand [of n] by (metis (full_types) ulp_power ulp_le(2) le_less_trans)

lemma doubleD: "double m \<Longrightarrow> \<bar>n\<bar> \<le> \<bar>m\<bar> \<Longrightarrow> ulp n dvd m"
  unfolding double_def by (rule dvd_trans [OF ulp_dvd])

subsection \<open>Rounding is monotone, exact on doubles and to the nearest\<close>

lemma round_to_dvd [simp]: "u dvd round_to u n"
  by (simp add: round_to_def Let_def)

lemma round_to_exact: "0 < u \<Longrightarrow> u dvd n \<Longrightarrow> round_to u n = n"
  by (auto simp: round_to_def Let_def)

lemma round_to_mono:
  assumes "0 < u" and "m \<le> n"
  shows "round_to u m \<le> round_to u n"
proof -
  have q: "m div u \<le> n div u" using assms by (simp add: zdiv_mono1)
  show ?thesis
  proof (cases "m div u = n div u")
    case True
    then have "m mod u \<le> n mod u" using assms(2) by (metis add_le_cancel_left mult_div_mod_eq)
    then show ?thesis using True assms(1) by (auto simp: round_to_def Let_def)
  next
    case False
    with q have "m div u + 1 \<le> n div u" by simp
    then show ?thesis using assms(1) by (auto simp: round_to_def Let_def)
  qed
qed

lemma rnd_exact [simp]: "double n \<Longrightarrow> rnd n = n"
  by (simp add: rnd_def double_def round_to_exact)

lemma round_to_between:
  assumes "0 < u" and "u dvd l" and "u dvd h" and "l \<le> n" and "n \<le> h"
  shows "l \<le> round_to u n" and "round_to u n \<le> h"
  using round_to_mono [OF assms(1,4)] round_to_mono [OF assms(1,5)]
  by (simp_all only: round_to_exact [OF assms(1,2)] round_to_exact [OF assms(1,3)])

lemma abs_rnd_le: "\<bar>rnd n\<bar> \<le> 2 ^ 53 * ulp n"
proof -
  have "ulp n dvd 2 ^ 53 * ulp n" "ulp n dvd - (2 ^ 53 * ulp n)" by simp_all
  moreover have "- (2 ^ 53 * ulp n) \<le> n" "n \<le> 2 ^ 53 * ulp n" using less_significand [of n] by linarith+
  ultimately have "- (2 ^ 53 * ulp n) \<le> rnd n" "rnd n \<le> 2 ^ 53 * ulp n"
    unfolding rnd_def by (blast intro: round_to_between ulp_pos)+
  then show ?thesis by linarith
qed

lemma double_rnd [simp]: "double (rnd n)"
proof -
  obtain k where k: "ulp n = 2 ^ k" by (rule ulp_power)
  show ?thesis
  proof (rule doubleI [of k])
    show "2 ^ k dvd rnd n" unfolding rnd_def k [symmetric] by (rule round_to_dvd)
    show "\<bar>rnd n\<bar> \<le> 2 ^ 53 * 2 ^ k" using abs_rnd_le [of n] by (simp only: k)
  qed
qed

lemma dvd_ulp:
  assumes "2 ^ 52 * 2 ^ k \<le> \<bar>d\<bar>"
  shows "2 ^ k dvd ulp d"
proof -
  have "int (53 + k) \<le> bitlen \<bar>d\<bar>"
    unfolding bitlen_ge_iff_power nat_int using assms by (simp add: power_add)
  then have "k \<le> nat (bitlen \<bar>d\<bar> - 53)" by linarith
  then show ?thesis unfolding ulp_def by (rule le_imp_power_dvd)
qed

lemma significand_ge:
  assumes "ulp n = 2 ^ Suc k"
  shows "2 ^ 52 * 2 ^ Suc k \<le> \<bar>n\<bar>"
proof -
  have "nat (bitlen \<bar>n\<bar> - 53) = Suc k" using assms unfolding ulp_def by (rule power_inject_exp [THEN iffD1, rotated]) simp
  then have "int (53 + Suc k) \<le> bitlen \<bar>n\<bar>" by linarith
  then show ?thesis unfolding bitlen_ge_iff_power nat_int by (simp add: power_add)
qed

text \<open>Between a number and a double on either side of it lies a multiple of the number's ulp.\<close>

lemma double_separates:
  assumes "n \<le> d" and "double d"
  obtains h where "ulp n dvd h" and "n \<le> h" and "h \<le> d"
proof -
  obtain k where k: "ulp n = 2 ^ k" by (rule ulp_power)
  show ?thesis
  proof (cases "2 ^ k dvd d")
    case True
    then show ?thesis using that [of d] assms(1) k by simp
  next
    case False
    then obtain j where j: "k = Suc j" by (cases k) auto
    have "\<not> 2 ^ k dvd ulp d" using False assms(2) unfolding double_def by (blast intro: dvd_trans)
    then have d: "\<bar>d\<bar> < 2 ^ 52 * 2 ^ k" using dvd_ulp [of k d] by linarith
    have n: "2 ^ 52 * 2 ^ k \<le> \<bar>n\<bar>" using significand_ge [of n j] k j by simp
    show ?thesis by (rule that [of "- (2 ^ 52 * 2 ^ k)"]) (use d n assms(1) k in auto)
  qed
qed

lemma round_to_nearest:
  assumes "0 < u" and "u dvd l"
  shows "\<bar>round_to u n - n\<bar> \<le> \<bar>l - n\<bar>"
proof -
  define q r where "q = n div u" and "r = n mod u"
  have n: "n = q * u + r" and r: "0 \<le> r" "r < u" using assms(1) by (simp_all add: q_def r_def)
  obtain j where j: "l = j * u" using assms(2) by (metis dvd_def mult.commute)
  have "r \<le> \<bar>l - n\<bar> \<and> j \<le> q \<or> u - r \<le> \<bar>l - n\<bar> \<and> q + 1 \<le> j"
  proof (cases "j \<le> q")
    case True
    then have "j * u \<le> q * u" using assms(1) by (simp add: mult_right_mono)
    then show ?thesis using True n j r by linarith
  next
    case False
    then have le: "q + 1 \<le> j" by simp
    then have "(q + 1) * u \<le> j * u" using assms(1) by (simp add: mult_right_mono)
    then have "q * u + u \<le> j * u" by (simp add: algebra_simps)
    then show ?thesis using le n j r by linarith
  qed
  then have "min r (u - r) \<le> \<bar>l - n\<bar>" by auto
  moreover have "\<bar>round_to u n - n\<bar> = min r (u - r)"
  proof -
    have "round_to u n - n = (if 2 * r < u \<or> 2 * r = u \<and> even q then - r else u - r)"
      unfolding round_to_def Let_def q_def [symmetric] r_def [symmetric] by (subst n) (simp add: algebra_simps)
    then show ?thesis using r by (auto split: if_splits)
  qed
  ultimately show ?thesis by simp
qed

lemma rnd_nearest:
  assumes "double d"
  shows "\<bar>rnd n - n\<bar> \<le> \<bar>d - n\<bar>"
proof (cases "n \<le> d")
  case True
  obtain h where "ulp n dvd h" "n \<le> h" "h \<le> d" using double_separates [OF True assms] .
  then show ?thesis using round_to_nearest [of "ulp n" h n] unfolding rnd_def by simp
next
  case False
  then have "- n \<le> - d" "double (- d)" using assms by simp_all
  then obtain h where "ulp (- n) dvd h" "- n \<le> h" "h \<le> - d" by (rule double_separates)
  then show ?thesis using round_to_nearest [of "ulp n" "- h" n] unfolding rnd_def by simp
qed

text \<open>Rounding never passes a double, so it is monotone.\<close>

lemma rnd_le_double:
  assumes "n \<le> d" and "double d"
  shows "rnd n \<le> d"
proof -
  obtain h where h: "ulp n dvd h" "n \<le> h" "h \<le> d" using double_separates [OF assms] .
  then have "round_to (ulp n) n \<le> round_to (ulp n) h" by (intro round_to_mono) simp_all
  then show ?thesis using h by (simp add: rnd_def round_to_exact)
qed

lemma rnd_ge_double:
  assumes "d \<le> n" and "double d"
  shows "d \<le> rnd n"
proof -
  have "- n \<le> - d" "double (- d)" using assms by simp_all
  then obtain h where h: "ulp (- n) dvd h" "- n \<le> h" "h \<le> - d" by (rule double_separates)
  then have "round_to (ulp n) (- h) \<le> round_to (ulp n) n" by (intro round_to_mono) simp_all
  then show ?thesis using h by (simp add: rnd_def round_to_exact)
qed

lemma rnd_mono:
  assumes "m \<le> n"
  shows "rnd m \<le> rnd n"
proof (cases "m \<le> rnd n \<or> rnd m \<le> n")
  case True
  then show ?thesis by (auto intro: rnd_le_double rnd_ge_double)
next
  case False
  have "\<bar>rnd n - n\<bar> \<le> \<bar>rnd m - n\<bar>" "\<bar>rnd m - m\<bar> \<le> \<bar>rnd n - m\<bar>"
    by (simp_all add: rnd_nearest)
  with False assms have "m = n" by linarith
  then show ?thesis by simp
qed

subsection \<open>The compensated sum\<close>

text \<open>
  Adding a smaller double to a larger one: the subtraction \<open>f - t\<close> is exact, and so is the addition
  of \<open>x\<close> to it. The step of the sum therefore records exactly the error it has made.
\<close>

lemma fast_two_sum:
  assumes "double f" and "double x" and "0 \<le> x" and "x \<le> f"
  shows "fadd (fsub f (fadd f x)) x = f + x - fadd f x"
proof -
  define t where "t = fadd f x"
  have t: "double t" "f \<le> t" using assms by (simp_all add: t_def fadd_def rnd_ge_double)
  have "double (2 * f)"
  proof -
    obtain k where k: "ulp f = 2 ^ k" by (rule ulp_power)
    have "2 ^ k dvd f" "\<bar>f\<bar> < 2 ^ 53 * 2 ^ k"
      using assms(1) less_significand [of f] unfolding double_def k by simp_all
    then show ?thesis by (intro doubleI_less [of "Suc k"]) simp_all
  qed
  then have t2: "t \<le> 2 * f" using assms unfolding t_def fadd_def by (intro rnd_le_double) simp_all
  have "double (f - t)"
  proof -
    obtain k where k: "ulp f = 2 ^ k" by (rule ulp_power)
    have "2 ^ k dvd f" "2 ^ k dvd t" using assms t unfolding k [symmetric] by (auto intro: doubleD)
    then show ?thesis using less_significand [of f] t t2 by (intro doubleI_less [of k]) (auto simp flip: k)
  qed
  moreover have "double (f - t + x)"
  proof -
    obtain k where k: "ulp x = 2 ^ k" by (rule ulp_power)
    have "2 ^ k dvd f" "2 ^ k dvd t" "2 ^ k dvd x"
      using assms t unfolding k [symmetric] by (auto intro: doubleD)
    moreover have "\<bar>f - t + x\<bar> \<le> x"
      using rnd_nearest [OF assms(1), of "f + x"] assms(3) unfolding t_def fadd_def by simp
    ultimately show ?thesis using less_significand [of x] assms(3) by (intro doubleI_less [of k]) (auto simp flip: k)
  qed
  ultimately show ?thesis unfolding t_def [symmetric] by (simp add: fadd_def fsub_def)
qed

lemma fadd_commute: "fadd x y = fadd y x"
  by (simp add: fadd_def ac_simps)

definition step_error :: "int \<Rightarrow> int \<Rightarrow> int" where
  "step_error f x = (if \<bar>x\<bar> \<le> \<bar>f\<bar> then fadd (fsub f (fadd f x)) x else fadd (fsub x (fadd f x)) f)"

lemma sum_from_step: "sum_from f c (x # xs) = sum_from (fadd f x) (fadd c (step_error f x)) xs"
  by (simp add: step_error_def Let_def)

lemma step_error_exact:
  assumes "double f" and "double x" and "0 \<le> x" and "0 \<le> f"
  shows "step_error f x = f + x - fadd f x"
  using assms fast_two_sum [of f x] fast_two_sum [of x f] by (simp add: step_error_def fadd_commute)

lemma double_one [simp]: "double one"
  by (rule doubleI_less [of 1074]) (simp_all add: one_def)

lemma one_pos [simp]: "0 < one"
  by (simp add: one_def)

lemma spacing_pos [simp]: "0 < spacing"
  by (simp add: spacing_def)

text \<open>No partial sum of doubles between zero and one falls below a bound, zero or one.\<close>

lemma double_diff_one:
  assumes "double t" and "one \<le> t" and "t \<le> 2 ^ 52 * one"
  shows "double (t - one)"
proof -
  obtain k where k: "ulp t = 2 ^ k" by (rule ulp_power)
  have "\<bar>t\<bar> < 2 ^ 53 * 2 ^ 1074" using assms(2,3) unfolding one_def by simp
  then have "ulp t \<le> 2 ^ 1074" by (rule ulp_le)
  then have "k \<le> 1074" unfolding k by (rule power_le_imp_le_exp [rotated]) simp
  then have "2 ^ k dvd one" unfolding one_def by (rule le_imp_power_dvd)
  moreover have "2 ^ k dvd t" using assms(1) by (simp add: double_def k)
  moreover have "\<bar>t - one\<bar> < 2 ^ 53 * 2 ^ k"
    using less_significand [of t] assms(2) one_pos unfolding k by linarith
  ultimately show ?thesis by (intro doubleI_less [of k]) simp_all
qed

text \<open>
  A lower bound of the partial sums, zero or one, is kept: the correction is added to a partial sum
  with at most the rounding of a double.
\<close>

definition low_bound :: "int \<Rightarrow> bool" where
  "low_bound m = (m = 0 \<or> m = one)"

lemma low_bound_diff: "low_bound m \<Longrightarrow> double t \<Longrightarrow> m \<le> t \<Longrightarrow> t \<le> 2 ^ 52 * one \<Longrightarrow> double (t - m)"
  by (auto simp: low_bound_def intro: double_diff_one)

lemma low_bound_double: "low_bound m \<Longrightarrow> double m \<and> 0 \<le> m"
  by (auto simp: low_bound_def less_imp_le)

definition unit_doubles :: "int list \<Rightarrow> bool" where
  "unit_doubles xs = (\<forall>x \<in> set xs. double x \<and> 0 \<le> x \<and> x \<le> one)"

lemma unit_doubles_simps [simp]:
  "unit_doubles []"
  "unit_doubles (x # xs) = (double x \<and> 0 \<le> x \<and> x \<le> one \<and> unit_doubles xs)"
  by (auto simp: unit_doubles_def)

lemma double_multiple_one: "0 \<le> k \<Longrightarrow> k \<le> 2 ^ 53 \<Longrightarrow> double (k * one)"
  by (rule doubleI [of 1074]) (auto simp: one_def abs_mult)

lemma sum_step:
  assumes "low_bound m" and "double f" and "double x" and "0 \<le> f" and "0 \<le> x" and "x \<le> one"
    and "f \<le> k * one" and "0 \<le> k" and "k < 2 ^ 52" and "m \<le> f + x" and "m \<le> f + x + c"
  shows "m \<le> fadd f x" and "m \<le> fadd f x + fadd c (step_error f x)" and "fadd f x \<le> (k + 1) * one"
proof -
  let ?t = "fadd f x"
  show t: "m \<le> ?t" using assms(1,10) by (simp add: fadd_def rnd_ge_double low_bound_double)
  have "f + x \<le> (k + 1) * one" using assms(6,7) by (simp add: algebra_simps)
  then show "?t \<le> (k + 1) * one"
    unfolding fadd_def using assms(8,9) by (intro rnd_le_double double_multiple_one) simp_all
  also have "\<dots> \<le> 2 ^ 52 * one" by (rule mult_right_mono) (use assms(9) in \<open>simp_all add: less_imp_le\<close>)
  finally have "double (?t - m)" using assms(1) t by (intro low_bound_diff) (simp_all add: fadd_def)
  then have "double (m - ?t)" by (metis double_minus minus_diff_eq)
  moreover have "m - ?t \<le> c + step_error f x"
    using assms(11) by (simp add: step_error_exact assms(2-5))
  ultimately have "m - ?t \<le> fadd c (step_error f x)" unfolding fadd_def by (rule rnd_ge_double [rotated])
  then show "m \<le> ?t + fadd c (step_error f x)" by simp
qed

lemma sum_from_ge:
  assumes "low_bound m" and "unit_doubles xs" and "double f" and "m \<le> f" and "m \<le> f + c"
    and "f \<le> k * one" and "0 \<le> k" and "k + int (length xs) \<le> 2 ^ 52"
  shows "m \<le> sum_from f c xs"
  using assms
proof (induction xs arbitrary: f c k)
  case Nil
  then show ?case by (simp add: fadd_def rnd_ge_double low_bound_double)
next
  case (Cons x xs)
  have f: "0 \<le> f" using Cons.prems(1,4) low_bound_double by fastforce
  have x: "double x" "0 \<le> x" "x \<le> one" "unit_doubles xs" using Cons.prems(2) by simp_all
  have "k < 2 ^ 52" "m \<le> f + x" "m \<le> f + x + c" using x Cons.prems(4,5,8) by simp_all
  note step = sum_step [OF Cons.prems(1,3) x(1) f x(2,3) Cons.prems(6,7) this]
  show ?case unfolding sum_from_step
    by (rule Cons.IH [of _ _ "k + 1"]) (use Cons.prems x step in \<open>simp_all add: fadd_def\<close>)
qed

text \<open>The sum of doubles between zero and one, one of which is one, is at least one.\<close>

lemma sum_from_one:
  assumes "unit_doubles xs" and "one \<in> set xs" and "double f" and "0 \<le> f" and "0 \<le> f + c"
    and "f \<le> k * one" and "0 \<le> k" and "k + int (length xs) \<le> 2 ^ 52"
  shows "one \<le> sum_from f c xs"
  using assms
proof (induction xs arbitrary: f c k)
  case (Cons x xs)
  have x: "double x" "0 \<le> x" "x \<le> one" "unit_doubles xs" using Cons.prems(1) by simp_all
  have k: "k < 2 ^ 52" "k + 1 + int (length xs) \<le> 2 ^ 52" using Cons.prems(8) by simp_all
  show ?case
  proof (cases "x = one")
    case True
    have "one \<le> f + x" "one \<le> f + x + c" using True Cons.prems(4,5) by simp_all
    note step = sum_step [OF _ Cons.prems(3) x(1) Cons.prems(4) x(2,3) Cons.prems(6,7) k(1) this]
    show ?thesis unfolding sum_from_step
      by (rule sum_from_ge [of _ _ _ _ "k + 1"]) (use x k Cons.prems step in \<open>simp_all add: fadd_def low_bound_def\<close>)
  next
    case False
    have "0 \<le> f + x" "0 \<le> f + x + c" using x Cons.prems(4,5) by simp_all
    note step = sum_step [OF _ Cons.prems(3) x(1) Cons.prems(4) x(2,3) Cons.prems(6,7) k(1) this]
    show ?thesis unfolding sum_from_step
      by (rule Cons.IH [of _ _ "k + 1"]) (use False x k Cons.prems step in \<open>simp_all add: fadd_def low_bound_def\<close>)
  qed
qed simp

lemma py_sum_one:
  assumes "unit_doubles xs" and "one \<in> set xs" and "length xs < 2 ^ 52"
  shows "one \<le> py_sum xs"
proof (cases xs)
  case (Cons x ys)
  then have x: "double x" "0 \<le> x" "x \<le> one" "unit_doubles ys" using assms(1) by simp_all
  have l: "1 + int (length ys) \<le> 2 ^ 52" using assms(3) Cons by simp
  show ?thesis
  proof (cases "x = one")
    case True
    have "one \<le> sum_from x 0 ys"
      by (rule sum_from_ge [of _ _ _ _ 1]) (use True x l in \<open>simp_all add: low_bound_def\<close>)
    then show ?thesis using Cons by simp
  next
    case False
    have "one \<le> sum_from x 0 ys"
      by (rule sum_from_one [of _ _ _ 1]) (use False x l assms(2) Cons in simp_all)
    then show ?thesis using Cons by simp
  qed
qed (use assms in simp)

lemma sum_from_zeros: "set xs \<subseteq> {0} \<Longrightarrow> sum_from 0 0 xs = 0"
  by (induction xs) (simp_all add: fadd_def fsub_def)

lemma py_sum_zeros: "set xs \<subseteq> {0} \<Longrightarrow> py_sum xs = 0"
  by (cases xs) (auto simp: sum_from_zeros)

subsection \<open>Neighbours\<close>

lemma succ_double_double:
  assumes "double n" and "0 \<le> n"
  shows "double (succ_double n)"
proof -
  obtain k where k: "ulp n = 2 ^ k" by (rule ulp_power)
  have "2 ^ k dvd n" "\<bar>n\<bar> < 2 ^ 53 * 2 ^ k"
    using assms(1) less_significand [of n] unfolding double_def k by simp_all
  moreover from this have "n + 2 ^ k \<le> 2 ^ 53 * 2 ^ k"
  proof -
    obtain j where j: "n = 2 ^ k * j" using \<open>2 ^ k dvd n\<close> by (auto simp: dvd_def)
    with \<open>\<bar>n\<bar> < 2 ^ 53 * 2 ^ k\<close> assms(2) have "j < 2 ^ 53" by (simp add: abs_mult zero_le_mult_iff)
    then have "2 ^ k * (j + 1) \<le> 2 ^ k * 2 ^ 53" by (intro mult_left_mono) simp_all
    then show ?thesis using j by (simp add: algebra_simps)
  qed
  ultimately show ?thesis using assms(2) unfolding succ_double_def k by (intro doubleI [of k]) simp_all
qed

lemma pred_double_double:
  assumes "double n" and "0 < n"
  shows "double (pred_double n)" and "0 \<le> pred_double n"
proof -
  obtain k where k: "ulp (n - 1) = 2 ^ k" by (rule ulp_power)
  have d: "ulp (n - 1) dvd n" using assms by (intro doubleD) simp_all
  then have le: "ulp (n - 1) \<le> n" using assms(2) by (rule zdvd_imp_le)
  have "n - 1 < 2 ^ 53 * 2 ^ k" using less_significand [of "n - 1"] assms(2) unfolding k by simp
  moreover have "0 < (2::int) ^ k" by simp
  ultimately have "\<bar>n - 2 ^ k\<bar> < 2 ^ 53 * 2 ^ k" using le unfolding k by linarith
  then show "double (pred_double n)" "0 \<le> pred_double n" unfolding pred_double_def
    using d le unfolding k by (simp_all add: doubleI_less [of k])
qed

lemma ulp_below_one: "\<bar>n\<bar> < one \<Longrightarrow> ulp n \<le> spacing"
  unfolding spacing_def by (rule ulp_le) (simp add: one_def)

lemma succ_double_le:
  assumes "double n" and "double m" and "0 \<le> n" and "n < m"
  shows "succ_double n \<le> m"
proof -
  have "ulp n dvd m" using assms by (intro doubleD) simp_all
  then have "ulp n dvd m - n" using assms(1) by (simp add: double_def)
  then have "ulp n \<le> m - n" using assms(4) by (intro zdvd_imp_le) simp_all
  then show ?thesis by (simp add: succ_double_def)
qed

subsection \<open>Scaling\<close>

text \<open>
  The arithmetic does not depend on the unit, so a witness can evaluate it on small integers.
\<close>

lemma round_to_scale: "0 < c \<Longrightarrow> round_to (u * c) (n * c) = round_to u n * c"
  by (simp add: round_to_def Let_def mult_less_cancel_right flip: mult.assoc)

lemma double_scaled:
  assumes "\<bar>n\<bar> < 2 ^ 53"
  shows "double (n * 2 ^ j)"
proof (rule doubleI_less [of j])
  have "\<bar>n\<bar> * 2 ^ j < 2 ^ 53 * 2 ^ j" using assms by (intro mult_strict_right_mono) simp_all
  then show "\<bar>n * 2 ^ j\<bar> < 2 ^ 53 * 2 ^ j" by (simp add: abs_mult)
qed simp

lemma ulp_scale:
  assumes "2 ^ 52 \<le> \<bar>n\<bar>"
  shows "ulp (n * 2 ^ j) = ulp n * 2 ^ j"
proof -
  have "53 \<le> bitlen \<bar>n\<bar>" unfolding bitlen_ge_iff_power using assms by simp
  moreover have "bitlen \<bar>n * 2 ^ j\<bar> = bitlen \<bar>n\<bar> + int j" using assms by (simp add: abs_mult)
  ultimately have "nat (bitlen \<bar>n * 2 ^ j\<bar> - 53) = nat (bitlen \<bar>n\<bar> - 53) + j" by linarith
  then show ?thesis unfolding ulp_def by (simp add: power_add)
qed

lemma nextafter_up_scale: "2 ^ 52 \<le> n \<Longrightarrow> nextafter_up (n * 2 ^ j) = nextafter_up n * 2 ^ j"
  by (simp add: nextafter_up_def succ_double_def ulp_scale distrib_right)

lemma rnd_scale: "rnd (n * 2 ^ j) = rnd n * 2 ^ j"
proof (cases "bitlen \<bar>n\<bar> \<le> 53")
  case True
  then have u: "ulp n = 1" by (simp add: ulp_def)
  then have "double n" by (simp add: double_def)
  moreover have "double (n * 2 ^ j)" using less_significand [of n] u by (intro double_scaled) simp
  ultimately show ?thesis by simp
next
  case False
  then have "2 ^ 52 \<le> \<bar>n\<bar>" using bitlen_ge_iff_power [of 53 "\<bar>n\<bar>"] by simp
  then have "ulp (n * 2 ^ j) = ulp n * 2 ^ j" by (rule ulp_scale)
  then show ?thesis unfolding rnd_def by (simp add: round_to_scale)
qed

lemma fadd_scale: "fadd (x * 2 ^ j) (y * 2 ^ j) = fadd x y * 2 ^ j"
  by (simp add: fadd_def rnd_scale flip: distrib_right)

lemma fsub_scale: "fsub (x * 2 ^ j) (y * 2 ^ j) = fsub x y * 2 ^ j"
  by (simp add: fsub_def rnd_scale flip: left_diff_distrib)

lemma sum_from_scale:
  "sum_from (f * 2 ^ j) (c * 2 ^ j) (map (\<lambda>x. x * 2 ^ j) xs) = sum_from f c xs * 2 ^ j"
  by (induction xs arbitrary: f c) (simp_all add: Let_def fadd_scale fsub_scale abs_mult)

lemma py_sum_scale: "py_sum (map (\<lambda>x. x * 2 ^ j) xs) = py_sum xs * 2 ^ j"
  by (cases xs) (use sum_from_scale [of _ j 0] in simp_all)

end
