(* ===== verification/Weights.thy ===== *)
theory Weights
  imports Doubles
begin

text \<open>
  \<open>Weights\<close> of gateway/models.py: five doubles between zero and one. The validator corrects the
  rounding of their sum: it moves the greatest weight to its neighbour, at most eight times, until
  the sum computed by Python is exactly one.
\<close>

record weights =
  tps :: int
  ttft :: int
  duration :: int
  success :: int
  stake :: int

text \<open>The doubles 0.24, 0.08, 0.24, 0.32 and 0.12.\<close>

definition default_weights :: weights where
  "default_weights = \<lparr>tps = 1080863910568919 * 2 ^ 1022, ttft = 5764607523034235 * 2 ^ 1018,
     duration = 1080863910568919 * 2 ^ 1022, success = 5764607523034235 * 2 ^ 1020,
     stake = 1080863910568919 * 2 ^ 1021\<rparr>"

text \<open>\<open>list(self.model_dump().values())\<close>, and the fields set from such a list.\<close>

definition weight_values :: "weights \<Rightarrow> int list" where
  "weight_values w = [tps w, ttft w, duration w, success w, stake w]"

definition set_values :: "int list \<Rightarrow> weights" where
  "set_values vs = \<lparr>tps = vs ! 0, ttft = vs ! 1, duration = vs ! 2, success = vs ! 3, stake = vs ! 4\<rparr>"

text \<open>\<open>max(range(len(values)), key=values.__getitem__)\<close>: the first index of a greatest value.\<close>

fun max_index :: "int list \<Rightarrow> nat" where
  "max_index [] = 0"
| "max_index (x # xs) = (if list_all (\<lambda>y. y \<le> x) xs then 0 else Suc (max_index xs))"

definition corrected :: "int list \<Rightarrow> int list" where
  "corrected vs = (let i = max_index vs
     in vs[i := if py_sum vs < one then nextafter_up (vs ! i) else nextafter_down (vs ! i)])"

fun normalise :: "nat \<Rightarrow> int list \<Rightarrow> int list" where
  "normalise 0 vs = vs"
| "normalise (Suc n) vs = (if py_sum vs = one then vs else normalise n (corrected vs))"

definition sum_to_one :: "weights \<Rightarrow> weights option" where
  "sum_to_one w =
    (if \<not> isclose tolerance tolerance (py_sum (weight_values w)) one then None
     else (let vs = normalise 8 (weight_values w)
           in if py_sum vs \<noteq> one then None else Some (set_values vs)))"

definition validate_weights :: "weights \<Rightarrow> weights option" where
  "validate_weights w =
    (if list_all (\<lambda>v. 0 \<le> v \<and> v \<le> one) (weight_values w) then sum_to_one w else None)"

text \<open>The fields are doubles: this is what pydantic's \<open>float\<close> makes of any number.\<close>

definition double_weights :: "weights \<Rightarrow> bool" where
  "double_weights w = list_all double (weight_values w)"

section \<open>Facts\<close>

lemma set_weight_values [simp]: "set_values (weight_values w) = w"
  by (simp add: set_values_def weight_values_def)

lemma weight_set_values [simp]: "length vs = 5 \<Longrightarrow> weight_values (set_values vs) = vs"
  by (auto simp: set_values_def weight_values_def numeral_eq_Suc length_Suc_conv)

lemma length_weight_values [simp]: "length (weight_values w) = 5"
  by (simp add: weight_values_def)

lemma max_index_less: "vs \<noteq> [] \<Longrightarrow> max_index vs < length vs"
proof (induction vs)
  case (Cons v vs)
  then show ?case by (cases "vs = []") simp_all
qed simp

lemma max_index_ge: "x \<in> set vs \<Longrightarrow> x \<le> vs ! max_index vs"
proof (induction vs arbitrary: x)
  case (Cons v vs)
  show ?case
  proof (cases "list_all (\<lambda>y. y \<le> v) vs")
    case False
    then obtain y where "y \<in> set vs" "v < y" by (auto simp: list_all_iff not_le)
    then have "v \<le> vs ! max_index vs" using Cons.IH [of y] by simp
    then show ?thesis using Cons False by auto
  qed (use Cons in \<open>auto simp: list_all_iff\<close>)
qed simp

definition total_drift :: "int list \<Rightarrow> int list \<Rightarrow> int" where
  "total_drift vs ws = (\<Sum>i < length vs. \<bar>ws ! i - vs ! i\<bar>)"

lemma total_drift_refl [simp]: "total_drift vs vs = 0"
  by (simp add: total_drift_def)

lemma total_drift_trans:
  assumes "length vs = length us"
  shows "total_drift us ws \<le> total_drift us vs + total_drift vs ws"
  unfolding total_drift_def assms sum.distrib [symmetric] by (rule sum_mono) simp

lemma total_drift_update: "i < length vs \<Longrightarrow> total_drift vs (vs[i := x]) = \<bar>x - vs ! i\<bar>"
proof -
  assume i: "i < length vs"
  have "total_drift vs (vs[i := x]) = (\<Sum>j < length vs. if j = i then \<bar>x - vs ! i\<bar> else 0)"
    unfolding total_drift_def by (rule sum.cong) (auto simp: nth_list_update)
  then show ?thesis using i by simp
qed

text \<open>One correction keeps the weights doubles between zero and one and moves one of them slightly.\<close>

lemma corrected_facts:
  assumes "unit_doubles vs" and "vs \<noteq> []" and "length vs < 2 ^ 52" and "py_sum vs \<noteq> one"
  shows "unit_doubles (corrected vs)" and "total_drift vs (corrected vs) \<le> spacing"
proof -
  define i v where "i = max_index vs" and "v = vs ! i"
  have i: "i < length vs" using assms(2) by (simp add: i_def max_index_less)
  then have "v \<in> set vs" by (simp add: v_def)
  then have v: "double v" "0 \<le> v" "v \<le> one" using assms(1) by (auto simp: unit_doubles_def)
  have max: "x \<le> v" if "x \<in> set vs" for x using max_index_ge [OF that] by (simp add: v_def i_def)
  define x where "x = (if py_sum vs < one then nextafter_up v else nextafter_down v)"
  have x: "double x \<and> 0 \<le> x \<and> x \<le> one \<and> \<bar>x - v\<bar> \<le> spacing"
  proof (cases "py_sum vs < one")
    case True
    then have "v \<noteq> one" using py_sum_one [OF assms(1) _ assms(3)] \<open>v \<in> set vs\<close> by auto
    then have "v < one" using v by simp
    then have "succ_double v \<le> one" "ulp v \<le> spacing" using v by (simp_all add: succ_double_le ulp_below_one)
    moreover have "double (succ_double v)" using v(1,2) by (rule succ_double_double)
    moreover have "x = succ_double v" "succ_double v - v = ulp v" "\<bar>ulp v\<bar> = ulp v" "v \<le> succ_double v"
      using True v by (simp_all add: x_def nextafter_up_def succ_double_def less_imp_le)
    ultimately show ?thesis using v(2) by simp
  next
    case False
    have "0 < v"
    proof (rule ccontr)
      assume "\<not> 0 < v"
      then have "set vs \<subseteq> {0}" using max assms(1) by (fastforce simp: unit_doubles_def)
      then show False using py_sum_zeros False assms(4) one_pos by fastforce
    qed
    moreover from this have "ulp (v - 1) \<le> spacing" using v by (intro ulp_below_one) simp
    moreover have "x = pred_double v" "v - pred_double v = ulp (v - 1)" "\<bar>ulp (v - 1)\<bar> = ulp (v - 1)"
      "pred_double v \<le> v"
      using False \<open>0 < v\<close> by (simp_all add: x_def nextafter_down_def pred_double_def less_imp_le)
    ultimately show ?thesis using v pred_double_double [of v] by (simp add: abs_minus_commute)
  qed
  have c: "corrected vs = vs[i := x]" by (simp add: corrected_def Let_def i_def v_def x_def)
  show "unit_doubles (corrected vs)"
    using x assms(1) set_update_subset_insert [of vs i x] unfolding c unit_doubles_def by blast
  show "total_drift vs (corrected vs) \<le> spacing" unfolding c using total_drift_update [OF i, of x] x by (simp add: v_def)
qed

lemma length_corrected [simp]: "length (corrected vs) = length vs"
  by (simp add: corrected_def Let_def)

lemma length_normalise [simp]: "length (normalise n vs) = length vs"
  by (induction n vs rule: normalise.induct) simp_all

lemma normalise_facts:
  assumes "unit_doubles vs" and "vs \<noteq> []" and "length vs < 2 ^ 52"
  shows "unit_doubles (normalise n vs) \<and> total_drift vs (normalise n vs) \<le> int n * spacing"
  using assms
proof (induction n vs rule: normalise.induct)
  case (2 n vs)
  show ?case
  proof (cases "py_sum vs = one")
    case False
    note step = corrected_facts [OF 2(2-4) False]
    have "corrected vs \<noteq> []" using 2(3) by (metis length_corrected length_0_conv)
    with 2(1) [OF False step(1)] 2(4)
    have "unit_doubles (normalise n (corrected vs))"
      and "total_drift (corrected vs) (normalise n (corrected vs)) \<le> int n * spacing" by simp_all
    then show ?thesis using False step(2) total_drift_trans [of "corrected vs" vs "normalise n (corrected vs)"]
      by (simp add: algebra_simps)
  qed (use 2 spacing_pos in \<open>simp add: less_imp_le\<close>)
qed simp

lemma normalise_done: "py_sum vs = one \<Longrightarrow> normalise n vs = vs"
  by (cases n) simp_all

lemma isclose_refl [simp]: "isclose r a x x"
  by (simp add: isclose_def)

lemma sum_to_one_fixed: "py_sum (weight_values w) = one \<Longrightarrow> sum_to_one w = Some w"
  by (simp add: sum_to_one_def normalise_done)

lemma validate_weights_facts:
  assumes "validate_weights w = Some w'" and "double_weights w"
  shows "py_sum (weight_values w') = one" and "unit_doubles (weight_values w')"
    and "total_drift (weight_values w) (weight_values w') \<le> 8 * spacing"
proof -
  let ?vs = "normalise 8 (weight_values w)"
  have vs: "py_sum ?vs = one" "w' = set_values ?vs"
    using assms(1) by (auto simp: validate_weights_def sum_to_one_def Let_def split: if_splits)
  have u: "unit_doubles (weight_values w)"
    using assms by (auto simp: validate_weights_def double_weights_def unit_doubles_def list_all_iff split: if_splits)
  have l: "weight_values w \<noteq> []" "length (weight_values w) < 2 ^ 52" by (simp_all add: weight_values_def)
  show "py_sum (weight_values w') = one" "unit_doubles (weight_values w')"
    "total_drift (weight_values w) (weight_values w') \<le> 8 * spacing"
    using normalise_facts [OF u l, of 8] vs by simp_all
qed

lemma validate_weights_fixed:
  assumes "validate_weights w = Some w'" and "double_weights w"
  shows "validate_weights w' = Some w'"
proof -
  have "list_all (\<lambda>v. 0 \<le> v \<and> v \<le> one) (weight_values w')"
    using validate_weights_facts(2) [OF assms] by (simp add: unit_doubles_def list_all_iff)
  then show ?thesis
    using sum_to_one_fixed validate_weights_facts(1) [OF assms] by (simp add: validate_weights_def)
qed

text \<open>Concrete weights as multiples of a unit that suits them.\<close>

definition weights_at :: "nat \<Rightarrow> int list \<Rightarrow> weights" where
  "weights_at j ns = set_values (map (\<lambda>n. n * 2 ^ j) ns)"

lemma weight_values_at:
  "length ns = 5 \<Longrightarrow> weight_values (weights_at j ns) = map (\<lambda>n. n * 2 ^ j) ns"
  by (simp add: weights_at_def)

lemma default_weights_at:
  "default_weights = weights_at 1018 [17293822569102704, 5764607523034235, 17293822569102704,
     23058430092136940, 8646911284551352]"
  by (simp add: default_weights_def weights_at_def set_values_def)

lemma py_sum_at: "length ns = 5 \<Longrightarrow> py_sum (weight_values (weights_at j ns)) = py_sum ns * 2 ^ j"
  by (simp only: weight_values_at py_sum_scale)

lemma one_at: "i + j = 1074 \<Longrightarrow> one = 2 ^ i * 2 ^ j"
  by (simp only: one_def flip: power_add)

lemma one_splits: "one = 2 ^ 56 * 2 ^ 1018" "one = 2 ^ 54 * 2 ^ 1020"
  by (rule one_at, simp)+

lemma default_weights_sum: "py_sum (weight_values default_weights) = one"
proof -
  have "py_sum [17293822569102704, 5764607523034235, 17293822569102704, 23058430092136940,
      8646911284551352] = 2 ^ 56"
    by code_simp
  then show ?thesis unfolding default_weights_at one_splits(1) by (subst py_sum_at) simp_all
qed

lemma default_weights_valid: "validate_weights default_weights = Some default_weights"
  using sum_to_one_fixed [OF default_weights_sum]
  by (simp add: validate_weights_def weight_values_def default_weights_def one_def)

lemma default_weights_double: "double_weights default_weights"
  unfolding double_weights_def weight_values_def default_weights_def weights.select_convs list.pred_inject
  by (intro conjI TrueI double_scaled) simp_all

text \<open>One half less the spacing, one quarter and one quarter: one correction is needed.\<close>

definition example_values :: "int \<Rightarrow> int list" where
  "example_values v = [v, 2 ^ 52, 2 ^ 52, 0, 0]"

definition example_at :: "int \<Rightarrow> weights" where
  "example_at v = weights_at 1020 (example_values v)"

lemma example_values_at:
  "weight_values (example_at v) = map (\<lambda>n. n * 2 ^ 1020) (example_values v)"
  unfolding example_at_def by (rule weight_values_at) (simp add: example_values_def)

lemma example_sums:
  "py_sum (weight_values (example_at (2 ^ 53 - 2))) = (2 ^ 54 - 2) * 2 ^ 1020"
  "py_sum (weight_values (example_at (2 ^ 53 - 1))) = one"
proof -
  have "py_sum (example_values (2 ^ 53 - 2)) = 2 ^ 54 - 2" "py_sum (example_values (2 ^ 53 - 1)) = 2 ^ 54"
    by code_simp+
  then show "py_sum (weight_values (example_at (2 ^ 53 - 2))) = (2 ^ 54 - 2) * 2 ^ 1020"
    "py_sum (weight_values (example_at (2 ^ 53 - 1))) = one"
    by (simp_all only: example_values_at py_sum_scale one_splits(2))
qed

lemma example_corrected:
  "corrected (weight_values (example_at (2 ^ 53 - 2))) = weight_values (example_at (2 ^ 53 - 1))"
proof -
  have c: "(0::int) < 2 ^ 1020" by (rule zero_less_power) simp
  have max: "max_index (weight_values (example_at (2 ^ 53 - 2))) = 0"
    unfolding example_values_at example_values_def using c by (simp add: mult_le_cancel_right)
  have less: "py_sum (weight_values (example_at (2 ^ 53 - 2))) < one"
    unfolding example_sums one_splits(2) by (rule mult_strict_right_mono [OF _ c]) simp
  have "nextafter_up (2 ^ 53 - 2) = 2 ^ 53 - 1" by code_simp
  then have up: "nextafter_up ((2 ^ 53 - 2) * 2 ^ 1020) = (2 ^ 53 - 1) * 2 ^ 1020"
    by (subst nextafter_up_scale) simp_all
  show ?thesis
    unfolding corrected_def Let_def max if_P [OF less] unfolding example_values_at example_values_def
    by (simp only: list.map nth_Cons_0 list_update_code up)
qed

lemma example_close:
  "isclose tolerance tolerance (py_sum (weight_values (example_at (2 ^ 53 - 2)))) one"
proof -
  have "rnd 2 = 2" by code_simp
  then have "\<bar>fsub one ((2 ^ 54 - 2) * 2 ^ 1020)\<bar> = 2 * 2 ^ 1020"
    unfolding fsub_def one_splits(2) left_diff_distrib [symmetric] rnd_scale by simp
  also have "\<dots> = 2 ^ 29 * 2 ^ 992" by (simp flip: power_add power_Suc)
  also have "\<dots> \<le> tolerance" unfolding tolerance_def by (rule mult_right_mono) simp_all
  finally show ?thesis unfolding isclose_def Let_def example_sums by blast
qed

lemma normalise_eight: "normalise 8 vs = (if py_sum vs = one then vs else normalise 7 (corrected vs))"
  by (simp add: eval_nat_numeral)

lemma example_valid: "validate_weights (example_at (2 ^ 53 - 2)) = Some (example_at (2 ^ 53 - 1))"
proof -
  have n: "normalise 8 (weight_values (example_at (2 ^ 53 - 2))) = weight_values (example_at (2 ^ 53 - 1))"
  proof -
    have "py_sum (weight_values (example_at (2 ^ 53 - 2))) \<noteq> one"
      unfolding example_sums one_splits(2) by simp
    then show ?thesis by (simp only: normalise_eight if_False example_corrected normalise_done [OF example_sums(2)])
  qed
  have "list_all (\<lambda>v. 0 \<le> v \<and> v \<le> one) (weight_values (example_at (2 ^ 53 - 2)))"
    unfolding example_values_at example_values_def one_splits(2) by simp
  then show ?thesis
    by (simp only: validate_weights_def if_True sum_to_one_def example_close n Let_def example_sums(2) not_True_eq_False
        if_False not_not set_weight_values simp_thms)
qed

section \<open>Properties\<close>

text \<open>
  C31. Weights that pass validation are doubles between zero and one whose sum, as Python computes it,
  is exactly one; validating them again changes nothing; and they differ from the weights that were
  given by at most eight steps of \<open>2 ^ -53\<close> in all, so the requested proportions are kept.
\<close>

theorem weights_normalised:
  assumes "validate_weights w = Some w'" and "double_weights w"
  shows "py_sum (weight_values w') = one \<and> validate_weights w' = Some w' \<and>
    list_all (\<lambda>v. double v \<and> 0 \<le> v \<and> v \<le> one) (weight_values w') \<and>
    total_drift (weight_values w) (weight_values w') \<le> 8 * spacing"
  using validate_weights_facts [OF assms] validate_weights_fixed [OF assms]
  by (simp add: unit_doubles_def list_all_iff)


theorem weights_normalised_witness:
  "validate_weights (example_at (2 ^ 53 - 1)) = Some (example_at (2 ^ 53 - 1))"
proof -
  have "double_weights (example_at (2 ^ 53 - 2))"
    unfolding double_weights_def example_values_at example_values_def by (auto intro!: double_scaled simp only: list.map list.pred_inject) simp_all
  then show ?thesis using weights_normalised [OF example_valid] by blast
qed

text \<open>Witnesses that evaluate a policy leave the default weights as they are.\<close>

declare default_weights_def [code del]

end
