(* ===== verification/Models.thy ===== *)
theory Models
  imports PyData Weights
begin

text \<open>
  gateway/models.py: provider lists, per-model settings, recovery and budget limits, and the
  policy document that holds them, with the validators pydantic runs on every save and load.
  A validator is a function to option: None is the \<open>ValidationError\<close>, Some the normalised
  value. Wei amounts, which the file keeps as digit strings, are the integers they denote. The
  rating weights have a theory of their own.
\<close>

section \<open>Providers\<close>

datatype mode = All | Allowlist

record providers =
  mode :: mode
  allow :: "string list"
  deny :: "string list"

definition addresses :: "string list \<Rightarrow> string list option" where
  "addresses values =
    (if \<exists>v \<in> set values. \<not> ADDRESS v then None
     else Some (sort (remdups (map lower values))))"

definition validate_providers :: "providers \<Rightarrow> providers option" where
  "validate_providers p =
    (if length (allow p) > 1000 \<or> length (deny p) > 1000 then None
     else case addresses (allow p) of
       None \<Rightarrow> None
     | Some a \<Rightarrow> (case addresses (deny p) of
           None \<Rightarrow> None
         | Some d \<Rightarrow> Some (p\<lparr>allow := a, deny := d\<rparr>)))"

definition permits :: "providers \<Rightarrow> string \<Rightarrow> bool" where
  "permits p provider =
    (let value = lower provider
     in ADDRESS value \<and> value \<notin> set (deny p) \<and> (mode p = All \<or> value \<in> set (allow p)))"

section \<open>Models\<close>

datatype retention = On_demand | Until_expiry | Maintain

record model_policy =
  model_id :: string
  model_alias :: string
  enabled :: bool
  duration_seconds :: int
  retention :: retention
  idle_seconds :: int
  model_max_sessions :: int
  warm_until :: "int option"

text \<open>\<open>^[a-zA-Z0-9][a-zA-Z0-9._:/-]*$\<close>, one to a hundred characters.\<close>

definition alnum :: "char \<Rightarrow> bool" where
  "alnum c = (CHR ''A'' \<le> c \<and> c \<le> CHR ''Z'' \<or> is_digit c \<or> CHR ''a'' \<le> c \<and> c \<le> CHR ''z'')"

definition alias_ok :: "string \<Rightarrow> bool" where
  "alias_ok s = (s \<noteq> [] \<and> length s \<le> 100 \<and> alnum (hd s) \<and>
     list_all (\<lambda>c. alnum c \<or> c \<in> set ''._:/-'') (tl s))"

definition validate_model :: "model_policy \<Rightarrow> model_policy option" where
  "validate_model m =
    (if nonzero_hash (model_id m) \<and> alias_ok (model_alias m) \<and>
        300 \<le> duration_seconds m \<and> duration_seconds m \<le> 86400 \<and>
        0 \<le> idle_seconds m \<and> idle_seconds m \<le> 86400 \<and>
        1 \<le> model_max_sessions m \<and> model_max_sessions m \<le> 8 \<and>
        (case warm_until m of None \<Rightarrow> True | Some w \<Rightarrow> 0 < w)
     then Some (m\<lparr>model_id := lower (model_id m)\<rparr>) else None)"

section \<open>Recovery and budget\<close>

record recovery_policy =
  recovery_enabled :: bool
  auto_withdraw :: bool
  cleanup_untracked_expired :: bool
  cleanup_untracked_live :: bool
  orphan_grace_seconds :: int
  withdrawal_min_wei :: int
  withdrawal_interval_seconds :: int
  provider_cooldown_seconds :: int

definition default_recovery :: recovery_policy where
  "default_recovery = \<lparr>recovery_enabled = True, auto_withdraw = True,
     cleanup_untracked_expired = True, cleanup_untracked_live = False,
     orphan_grace_seconds = 600, withdrawal_min_wei = 1000000000000000,
     withdrawal_interval_seconds = 300, provider_cooldown_seconds = 120\<rparr>"

definition recovery_ok :: "recovery_policy \<Rightarrow> bool" where
  "recovery_ok r =
    (120 \<le> orphan_grace_seconds r \<and> orphan_grace_seconds r \<le> 86400 \<and>
     0 \<le> withdrawal_min_wei r \<and> withdrawal_min_wei r < 10 ^ 78 \<and>
     30 \<le> withdrawal_interval_seconds r \<and> withdrawal_interval_seconds r \<le> 86400 \<and>
     1 \<le> provider_cooldown_seconds r \<and> provider_cooldown_seconds r \<le> 3600)"

record budget =
  max_session_stake_wei :: int
  max_total_stake_wei :: int
  max_price_per_second_wei :: int
  min_liquid_mor_wei :: int
  min_eth_wei :: int

definition default_budget :: budget where
  "default_budget = \<lparr>max_session_stake_wei = 100000000000000000000,
     max_total_stake_wei = 400000000000000000000,
     max_price_per_second_wei = 1000000000000000000,
     min_liquid_mor_wei = 0, min_eth_wei = 100000000000000\<rparr>"

definition budget_ok :: "budget \<Rightarrow> bool" where
  "budget_ok b =
    (1 \<le> max_session_stake_wei b \<and> max_session_stake_wei b < 10 ^ 78 \<and>
     1 \<le> max_total_stake_wei b \<and> max_total_stake_wei b < 10 ^ 78 \<and>
     1 \<le> max_price_per_second_wei b \<and> max_price_per_second_wei b < 10 ^ 78 \<and>
     0 \<le> min_liquid_mor_wei b \<and> min_liquid_mor_wei b < 10 ^ 78 \<and>
     0 \<le> min_eth_wei b \<and> min_eth_wei b < 10 ^ 78)"

section \<open>The policy document\<close>

record policy =
  revision :: int
  models :: "model_policy list"
  providers :: providers
  weights :: weights
  max_sessions :: int
  queue_seconds :: int
  paused :: bool
  recovery :: recovery_policy
  budget :: budget

definition default_policy :: policy where
  "default_policy = \<lparr>revision = 0, models = [],
     providers = \<lparr>mode = All, allow = [], deny = []\<rparr>,
     weights = default_weights, max_sessions = 4, queue_seconds = 30, paused = False,
     recovery = default_recovery, budget = default_budget\<rparr>"

definition unique_models :: "policy \<Rightarrow> bool" where
  "unique_models p =
    (distinct (map model_id (models p)) \<and>
     distinct (map (lower \<circ> model_alias) (models p)) \<and>
     (\<forall>m \<in> set (models p). \<not> HASH (model_alias m)))"

fun map_valid :: "('a \<Rightarrow> 'a option) \<Rightarrow> 'a list \<Rightarrow> 'a list option" where
  "map_valid f [] = Some []"
| "map_valid f (x # xs) =
    (case f x of None \<Rightarrow> None
     | Some y \<Rightarrow> (case map_valid f xs of None \<Rightarrow> None | Some ys \<Rightarrow> Some (y # ys)))"

definition validate_policy :: "policy \<Rightarrow> policy option" where
  "validate_policy p =
    (case map_valid validate_model (models p) of
       None \<Rightarrow> None
     | Some ms \<Rightarrow> (case validate_providers (providers p) of
         None \<Rightarrow> None
       | Some ps \<Rightarrow> (case validate_weights (weights p) of
           None \<Rightarrow> None
         | Some ws \<Rightarrow>
           (let q = p\<lparr>models := ms, providers := ps, weights := ws\<rparr>
            in if 0 \<le> revision q \<and> length ms \<le> 100 \<and>
                  1 \<le> max_sessions q \<and> max_sessions q \<le> 32 \<and>
                  1 \<le> queue_seconds q \<and> queue_seconds q \<le> 300 \<and>
                  recovery_ok (recovery q) \<and> budget_ok (budget q) \<and> unique_models q
               then Some q else None))))"

definition resolve :: "policy \<Rightarrow> string \<Rightarrow> model_policy option" where
  "resolve p name =
    find (\<lambda>m. enabled m \<and> (lower name = model_id m \<or> lower name = lower (model_alias m))) (models p)"

record rating =
  algorithm :: string
  providerAllowlist :: "string list"
  providerDenylist :: "string list"
  params_weights :: weights

definition rating_of :: "policy \<Rightarrow> rating" where
  "rating_of p = \<lparr>algorithm = ''default'',
     providerAllowlist = (if mode (providers p) = Allowlist then allow (providers p) else []),
     providerDenylist = deny (providers p),
     params_weights = weights p\<rparr>"

section \<open>Facts\<close>

lemma is_hex_lower [simp]: "is_hex (lower_char c) = is_hex c"
proof (cases "CHR ''A'' \<le> c \<and> c \<le> CHR ''Z''")
  case True
  define n where "n = (of_char c :: nat)"
  from True have n: "65 \<le> n" "n \<le> 90" by (simp_all add: n_def less_eq_char_def)
  have o: "of_char (char_of (n + 32) :: char) = n + 32" using n by simp
  show ?thesis using True n o
    by (auto simp: lower_char_def is_hex_def is_digit_def less_eq_char_def n_def [symmetric])
next
  case False
  then show ?thesis by (auto simp add: lower_char_def)
qed

lemma lower_char_0x [simp]:
  "lower_char c = CHR ''0'' \<longleftrightarrow> c = CHR ''0''"
proof -
  have "c = CHR ''0''" if "CHR ''A'' \<le> c" "c \<le> CHR ''Z''" "char_of (of_char c + 32 :: nat) = CHR ''0''"
  proof -
    define n where "n = (of_char c :: nat)"
    from that(1,2) have n: "65 \<le> n" "n \<le> 90" by (simp_all add: n_def less_eq_char_def)
    from that(3) have "of_char (char_of (n + 32) :: char) = (48::nat)" by (simp add: n_def)
    with n show ?thesis by simp
  qed
  then show ?thesis by (auto simp: lower_char_def)
qed

text \<open>
  The patterns ignore the letter case of the digits. The \<open>x\<close> of the prefix must be lower
  case, so only the direction from the text to its lower-case form holds in general.
\<close>

lemma prefix_0x_iff: "prefix ''0x'' s \<longleftrightarrow> (\<exists>t. s = CHR ''0'' # CHR ''x'' # t)"
  by (auto simp: prefix_def)

lemma lower_0x: "lower (CHR ''0'' # CHR ''x'' # t) = CHR ''0'' # CHR ''x'' # lower t"
  by (simp add: lower_def lower_char_def less_eq_char_def)

lemma list_all_is_hex_lower [simp]: "list_all is_hex (lower s) = list_all is_hex s"
  by (simp add: lower_def list_all_iff)

lemma HASH_lower: "HASH s \<Longrightarrow> HASH (lower s)"
  by (auto simp: HASH_def prefix_0x_iff lower_0x)

lemma ADDRESS_lower: "ADDRESS s \<Longrightarrow> ADDRESS (lower s)"
  by (auto simp: ADDRESS_def prefix_0x_iff lower_0x)

lemma map_valid_set:
  "map_valid f xs = Some ys \<Longrightarrow> y \<in> set ys \<Longrightarrow> \<exists>x \<in> set xs. f x = Some y"
  by (induction xs arbitrary: ys) (fastforce split: option.splits)+

lemma validate_policy_models:
  assumes "validate_policy p = Some q" and "m \<in> set (models q)"
  shows "\<exists>m0. validate_model m0 = Some m"
  using assms by (auto simp: validate_policy_def Let_def split: option.splits if_splits dest: map_valid_set)

lemma validate_model_id:
  assumes "validate_model m0 = Some m"
  shows "HASH (model_id m)" "lower (model_id m) = model_id m" "alias_ok (model_alias m)"
  using assms by (auto simp: validate_model_def nonzero_hash_def HASH_lower split: if_splits)

lemma validate_policy_unique: "validate_policy p = Some q \<Longrightarrow> unique_models q"
  by (simp add: validate_policy_def Let_def split: option.splits if_splits)

lemma find_unique:
  assumes "m \<in> set ms" and "P m" and "\<And>m'. m' \<in> set ms \<Longrightarrow> P m' \<Longrightarrow> m' = m"
  shows "find P ms = Some m"
proof (cases "find P ms")
  case None
  then show ?thesis using assms(1,2) by (auto simp: find_None_iff)
next
  case (Some m')
  then have "m' \<in> set ms" "P m'" by (auto simp: find_Some_iff)
  then have "m' = m" by (rule assms(3))
  with Some show ?thesis by simp
qed

lemma permits_lower [simp]: "permits p (lower a) = permits p a"
  by (simp add: permits_def)

subsection \<open>A validated policy is a fixed point of the validation\<close>

lemma digit_val_lower [simp]: "digit_val b (lower_char c) = digit_val b c"
proof (cases "CHR ''A'' \<le> c \<and> c \<le> CHR ''Z''")
  case True
  define n where "n = (of_char c :: nat)"
  from True have n: "65 \<le> n" "n \<le> 90" by (simp_all add: n_def less_eq_char_def)
  have o: "of_char (char_of (n + 32) :: char) = n + 32" using n by simp
  have "(of_char (char_of (n + 32) :: char) :: int) = of_char c + 32"
    using o by (metis n_def of_nat_of_char of_nat_add of_nat_numeral)
  then show ?thesis using True n o
    by (auto simp: lower_char_def digit_val_def is_digit_def less_eq_char_def Let_def simp flip: n_def)
next
  case False
  then show ?thesis by (auto simp add: lower_char_def)
qed

lemma is_hex_plain: "is_hex c \<Longrightarrow> c \<noteq> CHR ''_'' \<and> \<not> is_space c"
  by (auto simp: is_hex_def is_digit_def is_space_def less_eq_char_def)

lemma scan_digits_lower:
  "list_all is_hex s \<Longrightarrow> scan_digits b acc d (lower s) = scan_digits b acc d s"
proof (induction s arbitrary: acc d)
  case (Cons c s)
  have "lower_char c \<noteq> CHR ''_''" "c \<noteq> CHR ''_''" using Cons.prems is_hex_plain is_hex_lower by fastforce+
  then show ?case using Cons by (simp add: lower_def split: option.splits)
qed (simp add: lower_def)

lemma strip_hash: "HASH s \<Longrightarrow> strip s = s"
proof -
  assume "HASH s"
  then obtain t where s: "s = CHR ''0'' # CHR ''x'' # t" and t: "list_all is_hex t" and l: "length t = 64"
    by (auto simp: HASH_def prefix_0x_iff)
  then have "t \<noteq> []" by auto
  then have "\<not> is_space (last t)" using t is_hex_plain by (simp add: list_all_iff)
  then have "dropWhile is_space (rev t @ [CHR ''x'', CHR ''0'']) = rev t @ [CHR ''x'', CHR ''0'']"
    using \<open>t \<noteq> []\<close> by (cases t rule: rev_cases) simp_all
  moreover have "\<not> is_space (CHR ''0'')" by (simp add: is_space_def)
  ultimately show ?thesis by (simp add: strip_def s)
qed

lemma hex_of_hash:
  assumes "HASH s"
  shows "hex_of_text s = map_option (signed False) (scan_digits 16 0 True (drop 2 s))"
proof -
  obtain t where s: "s = CHR ''0'' # CHR ''x'' # t" and t: "list_all is_hex t"
    using assms by (auto simp: HASH_def prefix_0x_iff)
  have "(case t of [] \<Rightarrow> [] | c # cs \<Rightarrow> if c = CHR ''_'' then cs else c # cs) = t"
    using t is_hex_plain by (cases t) auto
  moreover have "prefix ''0x'' s" by (simp add: s)
  ultimately show ?thesis unfolding hex_of_text_def strip_hash [OF assms] by (simp add: s split_sign_def hex_body_def)
qed

lemma nonzero_hash_lower: "nonzero_hash s \<Longrightarrow> nonzero_hash (lower s)"
proof -
  assume n: "nonzero_hash s"
  then have h: "HASH s" "HASH (lower s)" by (simp_all add: nonzero_hash_def HASH_lower)
  have "drop 2 (lower s) = lower (drop 2 s)" by (simp add: lower_def drop_map)
  then have "scan_digits 16 0 True (drop 2 (lower s)) = scan_digits 16 0 True (drop 2 s)"
    using h(1) by (simp add: scan_digits_lower HASH_def)
  then show ?thesis using n h by (simp add: nonzero_hash_def hex_of_hash)
qed

lemma validate_model_fixed: "validate_model m = Some m' \<Longrightarrow> validate_model m' = Some m'"
  by (auto simp: validate_model_def nonzero_hash_lower split: if_splits)

lemma map_valid_fixed:
  assumes "\<And>x y. f x = Some y \<Longrightarrow> f y = Some y"
  shows "map_valid f xs = Some ys \<Longrightarrow> map_valid f ys = Some ys \<and> length ys = length xs"
  by (induction xs arbitrary: ys) (auto split: option.splits dest: assms)

lemma addresses_fixed:
  assumes "addresses vs = Some ws"
  shows "addresses ws = Some ws" and "length ws \<le> length vs"
proof -
  have ws: "ws = sort (remdups (map lower vs))" and vs: "\<forall>v \<in> set vs. ADDRESS v"
    using assms by (auto simp: addresses_def split: if_splits)
  have "map lower ws = ws" by (rule map_idI) (auto simp: ws)
  moreover have "\<forall>w \<in> set ws. ADDRESS w" using vs by (auto simp: ws intro: ADDRESS_lower)
  moreover have "sort (remdups ws) = ws" by (simp add: ws distinct_remdups_id sorted_sort_id)
  ultimately show "addresses ws = Some ws" unfolding addresses_def by auto
  show "length ws \<le> length vs" using length_remdups_leq [of "map lower vs"] by (simp add: ws)
qed

lemma validate_providers_fixed: "validate_providers p = Some q \<Longrightarrow> validate_providers q = Some q"
  by (auto simp: validate_providers_def addresses_fixed dest: addresses_fixed(2) split: if_splits option.splits)

lemma validate_policy_parts:
  assumes "validate_policy p = Some q"
  shows "map_valid validate_model (models p) = Some (models q)"
    and "validate_providers (providers p) = Some (providers q)"
    and "validate_weights (weights p) = Some (weights q)"
  using assms by (auto simp: validate_policy_def Let_def split: option.splits if_splits)

lemma validate_policy_checks:
  assumes "validate_policy p = Some q"
  shows "0 \<le> revision q \<and> length (models q) \<le> 100 \<and> 1 \<le> max_sessions q \<and> max_sessions q \<le> 32 \<and>
    1 \<le> queue_seconds q \<and> queue_seconds q \<le> 300 \<and> recovery_ok (recovery q) \<and> budget_ok (budget q) \<and>
    unique_models q"
  using assms by (auto simp: validate_policy_def Let_def unique_models_def split: option.splits if_splits)

text \<open>Policies for witnesses.\<close>

abbreviation hash_of :: "char \<Rightarrow> string" where
  "hash_of c \<equiv> ''0x'' @ replicate 64 c"

definition sample_model :: "char \<Rightarrow> string \<Rightarrow> model_policy" where
  "sample_model c a = \<lparr>model_id = hash_of c, model_alias = a, enabled = True,
     duration_seconds = 1800, retention = On_demand, idle_seconds = 300,
     model_max_sessions = 1, warm_until = None\<rparr>"

definition sample_policy :: "model_policy list \<Rightarrow> policy" where
  "sample_policy ms = default_policy\<lparr>models := ms\<rparr>"

lemma validate_sample:
  assumes "map_valid validate_model ms = Some ms'" and "length ms' \<le> 100"
    and "distinct (map model_id ms')" and "distinct (map (lower \<circ> model_alias) ms')"
    and "\<forall>m \<in> set ms'. \<not> HASH (model_alias m)"
  shows "validate_policy (sample_policy ms) = Some (sample_policy ms')"
proof -
  have "validate_providers (providers default_policy) = Some (providers default_policy)" by code_simp
  moreover have "recovery_ok default_recovery" "budget_ok default_budget" by code_simp+
  ultimately show ?thesis using assms default_weights_valid
    by (simp add: validate_policy_def sample_policy_def default_policy_def unique_models_def)
qed

section \<open>Properties\<close>

text \<open>
  C32. Validation is stable: a validated policy is validated to itself, so saving what was loaded, or
  loading what was saved, changes nothing, although validation rewrites identifiers, sorts the address
  lists and corrects the weights.
\<close>

theorem validated_policy_stable:
  assumes "validate_policy p = Some q" and "double_weights (weights p)"
  shows "validate_policy q = Some q"
proof -
  note parts = validate_policy_parts [OF assms(1)]
  have "map_valid validate_model (models q) = Some (models q)"
    using map_valid_fixed [OF validate_model_fixed parts(1)] by simp
  moreover have "validate_providers (providers q) = Some (providers q)"
    using parts(2) by (rule validate_providers_fixed)
  moreover have "validate_weights (weights q) = Some (weights q)"
    using parts(3) assms(2) by (rule validate_weights_fixed)
  ultimately show ?thesis using validate_policy_checks [OF assms(1)] by (simp add: validate_policy_def)
qed

theorem validated_policy_stable_witness:
  "validate_policy (sample_policy [sample_model (CHR ''a'') ''fast'']) =
     Some (sample_policy [sample_model (CHR ''a'') ''fast''])"
proof (rule validated_policy_stable)
  show "validate_policy (sample_policy [sample_model (CHR ''A'') ''fast'']) =
      Some (sample_policy [sample_model (CHR ''a'') ''fast''])"
    by (rule validate_sample; code_simp)
  show "double_weights (weights (sample_policy [sample_model (CHR ''A'') ''fast'']))"
    by (simp add: sample_policy_def default_policy_def default_weights_double)
qed

text \<open>
  Model resolution is exact on a validated policy: an enabled model is found under its
  on-chain identifier and under its alias, in any letter case, whatever else the policy lists.
  The hypothesis on aliases says that no alias turns into an identifier when lower-cased; the
  validator itself only refuses aliases that are identifiers as written.
\<close>

theorem resolve_finds_model:
  assumes "validate_policy p = Some q" and "m \<in> set (models q)" and "enabled m"
    and "\<forall>m' \<in> set (models q). \<not> HASH (lower (model_alias m'))"
    and "lower name = model_id m \<or> lower name = lower (model_alias m)"
  shows "resolve q name = Some m"
  unfolding resolve_def
proof (rule find_unique)
  show "m \<in> set (models q)" by fact
  show "enabled m \<and> (lower name = model_id m \<or> lower name = lower (model_alias m))"
    using assms(3,5) by blast
next
  fix m'
  assume m': "m' \<in> set (models q)"
    and hit: "enabled m' \<and> (lower name = model_id m' \<or> lower name = lower (model_alias m'))"
  have u: "unique_models q" using assms(1) by (rule validate_policy_unique)
  have h: "HASH (model_id m)" "HASH (model_id m')"
    using validate_policy_models [OF assms(1)] assms(2) m' validate_model_id(1) by blast+
  from hit assms(5) h assms(2,4) m'
  have "model_id m' = model_id m \<or> lower (model_alias m') = lower (model_alias m)"
    by metis
  then show "m' = m"
    using u m' assms(2) by (auto simp: unique_models_def distinct_map inj_on_def)
qed

theorem resolve_finds_model_witness:
  "resolve (sample_policy [sample_model (CHR ''a'') ''fast'', sample_model (CHR ''b'') ''Best'']) ''BEST'' =
     Some (sample_model (CHR ''b'') ''Best'')"
proof (rule resolve_finds_model)
  show "validate_policy (sample_policy [sample_model (CHR ''A'') ''fast'', sample_model (CHR ''b'') ''Best'']) =
     Some (sample_policy [sample_model (CHR ''a'') ''fast'', sample_model (CHR ''b'') ''Best''])"
    by (rule validate_sample; code_simp)
  show "sample_model (CHR ''b'') ''Best'' \<in>
      set (models (sample_policy [sample_model (CHR ''a'') ''fast'', sample_model (CHR ''b'') ''Best'']))"
    by code_simp
  show "enabled (sample_model (CHR ''b'') ''Best'')" by code_simp
  show "\<forall>m' \<in> set (models (sample_policy [sample_model (CHR ''a'') ''fast'', sample_model (CHR ''b'') ''Best''])).
      \<not> HASH (lower (model_alias m'))" by code_simp
  show "lower ''BEST'' = model_id (sample_model (CHR ''b'') ''Best'') \<or>
      lower ''BEST'' = lower (model_alias (sample_model (CHR ''b'') ''Best''))" by code_simp
qed

text \<open>
  The check that an alias is no identifier is made on the alias as written while resolution
  lower-cases it, so an alias spelt \<open>0X...\<close> passes validation and takes over the identifier of
  another enabled model that is listed after it.
\<close>

theorem resolve_alias_shadows_id:
  "\<exists>p q a b. validate_policy p = Some q \<and> a \<in> set (models q) \<and> enabled a \<and>
     resolve q (model_id a) = Some b \<and> model_id b \<noteq> model_id a"
proof -
  let ?a = "sample_model (CHR ''1'') ''first''"
  let ?b = "sample_model (CHR ''2'') (''0X'' @ replicate 64 (CHR ''1''))"
  let ?q = "sample_policy [?b, ?a]"
  have "validate_policy ?q = Some ?q" by (rule validate_sample; code_simp)
  moreover have "?a \<in> set (models ?q)" "enabled ?a" by code_simp+
  moreover have "resolve ?q (model_id ?a) = Some ?b" by code_simp
  moreover have "model_id ?b \<noteq> model_id ?a" by code_simp
  ultimately show ?thesis by blast
qed

text \<open>
  Provider access after validation: exactly the well-formed addresses that are not on the
  block list and, in allow-list mode, are on the allow list, all compared without regard to
  letter case. In particular the block list wins, and a strict empty allow list admits nobody.
\<close>

theorem permits_validated:
  assumes "validate_providers raw = Some p"
  shows "permits p a \<longleftrightarrow>
      ADDRESS (lower a) \<and> lower a \<notin> lower ` set (deny raw) \<and>
      (mode raw = All \<or> lower a \<in> lower ` set (allow raw))"
proof -
  from assms have "set (allow p) = lower ` set (allow raw)" "set (deny p) = lower ` set (deny raw)"
    "mode p = mode raw"
    by (auto simp: validate_providers_def addresses_def split: if_splits option.splits)
  then show ?thesis by (auto simp: permits_def Let_def)
qed

abbreviation address_of :: "char \<Rightarrow> string" where
  "address_of c \<equiv> ''0x'' @ replicate 40 c"

theorem permits_validated_witness:
  "\<not> permits \<lparr>mode = Allowlist, allow = [address_of (CHR ''a'')], deny = [address_of (CHR ''a'')]\<rparr>
       (address_of (CHR ''A''))"
proof -
  let ?raw = "\<lparr>mode = Allowlist, allow = [address_of (CHR ''a'')], deny = [address_of (CHR ''A'')]\<rparr>"
  let ?p = "\<lparr>mode = Allowlist, allow = [address_of (CHR ''a'')], deny = [address_of (CHR ''a'')]\<rparr>"
  have "validate_providers ?raw = Some ?p" by code_simp
  from permits_validated [OF this, of "address_of (CHR ''A'')"] show ?thesis by simp
qed

end
