(* ===== verification/Store.thy ===== *)
theory Store
  imports Models
begin

text \<open>
  gateway/store.py: the single SQLite table \<open>records(kind, id, data)\<close> and its queries, and the
  documents the gateway keeps in it. A table is the list of its rows in \<open>rowid\<close> order: an
  insert takes the largest rowid plus one and so goes to the end, an upsert of an existing key
  keeps its place. The \<open>data\<close> column holds a document of one of the record types below in place
  of its JSON text; a member that the code reads with \<open>row.get(k, default)\<close> is a field that holds
  the default when the member is absent, or an option.

  The queries are stated over any document type first (the interface \<open>record_store\<close> and its
  interpretation), then specialised to the gateway's documents.
\<close>

section \<open>The table\<close>

datatype kind = KSession | KOperation | KSettings | KProvider | KOpening_failure
  | KRequest | KKey | KAdmin | KEvent

type_synonym 'd records = "(kind \<times> string \<times> 'd) list"

fun db_get :: "'d records \<Rightarrow> kind \<Rightarrow> string \<Rightarrow> 'd option" where
  "db_get [] k i = None"
| "db_get ((k', i', d) # rs) k i = (if k' = k \<and> i' = i then Some d else db_get rs k i)"

fun db_put :: "kind \<Rightarrow> string \<Rightarrow> 'd \<Rightarrow> 'd records \<Rightarrow> 'd records" where
  "db_put k i d [] = [(k, i, d)]"
| "db_put k i d ((k', i', d') # rs) =
    (if k' = k \<and> i' = i then (k, i, d) # rs else (k', i', d') # db_put k i d rs)"

definition db_delete :: "kind \<Rightarrow> string \<Rightarrow> 'd records \<Rightarrow> 'd records" where
  "db_delete k i rs = filter (\<lambda>(k', i', d). \<not> (k' = k \<and> i' = i)) rs"

text \<open>\<open>SELECT data FROM records WHERE kind=? ORDER BY rowid DESC\<close>, and its \<open>LIMIT/OFFSET\<close> form.\<close>

definition db_all :: "'d records \<Rightarrow> kind \<Rightarrow> 'd list" where
  "db_all rs k = rev (map (snd \<circ> snd) (filter (\<lambda>r. fst r = k) rs))"

definition db_page :: "'d records \<Rightarrow> kind \<Rightarrow> nat \<Rightarrow> nat \<Rightarrow> 'd list" where
  "db_page rs k limit offset = take limit (drop offset (db_all rs k))"

text \<open>The primary key.\<close>

abbreviation db_key :: "kind \<times> string \<times> 'd \<Rightarrow> kind \<times> string" where
  "db_key r \<equiv> (fst r, fst (snd r))"

definition db_ok :: "'d records \<Rightarrow> bool" where
  "db_ok rs = distinct (map db_key rs)"

text \<open>
  The trimming statement of \<open>event\<close>: rows of one kind whose rowid is not among the newest
  \<open>n\<close> of that kind are deleted.
\<close>

fun drop_oldest :: "('a \<Rightarrow> bool) \<Rightarrow> nat \<Rightarrow> 'a list \<Rightarrow> 'a list" where
  "drop_oldest p 0 rs = rs"
| "drop_oldest p (Suc n) [] = []"
| "drop_oldest p (Suc n) (r # rs) = (if p r then drop_oldest p n rs else r # drop_oldest p (Suc n) rs)"

definition db_keep_newest :: "kind \<Rightarrow> nat \<Rightarrow> 'd records \<Rightarrow> 'd records" where
  "db_keep_newest k n rs =
    drop_oldest (\<lambda>r. fst r = k) (length (filter (\<lambda>r. fst r = k) rs) - n) rs"

section \<open>The interface the gateway's components rely on\<close>

text \<open>
  What every client of the table uses: reading back the last write, the frame of a write, and
  deletion. Clients reason with the derived facts of the locale.
\<close>

locale record_store =
  fixes get :: "'s \<Rightarrow> 'k \<Rightarrow> 'i \<Rightarrow> 'd option"
    and put :: "'k \<Rightarrow> 'i \<Rightarrow> 'd \<Rightarrow> 's \<Rightarrow> 's"
    and del :: "'k \<Rightarrow> 'i \<Rightarrow> 's \<Rightarrow> 's"
  assumes get_put: "get (put k i d s) k' i' = (if k' = k \<and> i' = i then Some d else get s k' i')"
    and get_del: "get (del k i s) k' i' = (if k' = k \<and> i' = i then None else get s k' i')"
begin

lemma last_write_wins: "get (put k i d' (put k i d s)) k' i' = get (put k i d' s) k' i'"
  by (simp add: get_put)

lemma writes_commute:
  assumes "(k, i) \<noteq> (k', i')"
  shows "get (put k i d (put k' i' d' s)) x y = get (put k' i' d' (put k i d s)) x y"
  using assms by (auto simp: get_put)

lemma writes_frame:
  assumes "(k, i) \<notin> set (map (\<lambda>(k', i', d). (k', i')) ws)"
  shows "get (fold (\<lambda>(k', i', d) t. put k' i' d t) ws s) k i = get s k i"
  using assms by (induction ws arbitrary: s) (auto simp: get_put)

lemma del_after_put: "get (del k i (put k i d s)) k' i' = get (del k i s) k' i'"
  by (simp add: get_put get_del)

end

lemma db_get_put [simp, store_simps]:
  "db_get (db_put k i d rs) k' i' = (if k' = k \<and> i' = i then Some d else db_get rs k' i')"
  by (induction k i d rs rule: db_put.induct) auto

lemma db_get_delete [simp, store_simps]:
  "db_get (db_delete k i rs) k' i' = (if k' = k \<and> i' = i then None else db_get rs k' i')"
  by (induction rs) (auto simp: db_delete_def)

interpretation db: record_store db_get db_put db_delete
  by unfold_locales simp_all

section \<open>Order and keys\<close>

lemma db_get_None_iff: "db_get rs k i = None \<longleftrightarrow> (k, i) \<notin> db_key ` set rs"
  by (induction rs) force+

lemma db_put_keys:
  "map db_key (db_put k i d rs) =
     (if db_get rs k i = None then map db_key rs @ [(k, i)] else map db_key rs)"
  by (induction k i d rs rule: db_put.induct) auto

lemma db_ok_put [simp]: "db_ok rs \<Longrightarrow> db_ok (db_put k i d rs)"
  unfolding db_ok_def db_put_keys by (auto simp: db_get_None_iff)

lemma db_ok_filter: "db_ok rs \<Longrightarrow> db_ok (filter p rs)"
  unfolding db_ok_def by (induction rs) (auto simp del: Product_Type.prod.inject)

lemma db_ok_delete [simp]: "db_ok rs \<Longrightarrow> db_ok (db_delete k i rs)"
  by (simp add: db_delete_def db_ok_filter)

lemma db_get_in: "db_ok rs \<Longrightarrow> db_get rs k i = Some d \<longleftrightarrow> (k, i, d) \<in> set rs"
proof (induction rs)
  case (Cons r rs)
  obtain k' i' d' where r: "r = (k', i', d')" by (cases r)
  from Cons have IH: "db_get rs k i = Some d \<longleftrightarrow> (k, i, d) \<in> set rs"
    by (auto simp: db_ok_def)
  from Cons.prems have "(k', i') \<notin> db_key ` set rs"
    by (simp add: db_ok_def r)
  then show ?case using IH by (force simp: r)
qed simp

lemma in_db_all: "d \<in> set (db_all rs k) \<longleftrightarrow> (\<exists>i. (k, i, d) \<in> set rs)"
  by (force simp: db_all_def)

lemma in_db_all_get: "db_ok rs \<Longrightarrow> d \<in> set (db_all rs k) \<longleftrightarrow> (\<exists>i. db_get rs k i = Some d)"
  by (simp add: in_db_all db_get_in)

lemma db_all_put_other [simp, store_simps]: "k \<noteq> k' \<Longrightarrow> db_all (db_put k i d rs) k' = db_all rs k'"
  by (induction k i d rs rule: db_put.induct) (auto simp: db_all_def)

lemma db_all_put_new [store_simps]:
  "db_get rs k i = None \<Longrightarrow> db_all (db_put k i d rs) k = d # db_all rs k"
  by (induction k i d rs rule: db_put.induct) (auto simp: db_all_def split: if_splits)

lemma set_db_all_put:
  assumes "db_ok rs"
  shows "set (db_all (db_put k i d rs) k) = insert d {d'. \<exists>i'. i' \<noteq> i \<and> db_get rs k i' = Some d'}"
  using assms by (auto simp: in_db_all_get split: if_splits)

lemma filter_drop_oldest_other:
  "(\<And>x. q x \<Longrightarrow> \<not> p x) \<Longrightarrow> filter q (drop_oldest p n rs) = filter q rs"
  by (induction p n rs rule: drop_oldest.induct) auto

lemma filter_drop_oldest: "filter p (drop_oldest p n rs) = drop n (filter p rs)"
  by (induction p n rs rule: drop_oldest.induct) auto

lemma set_drop_oldest: "set (drop_oldest p n rs) \<subseteq> set rs"
  by (induction p n rs rule: drop_oldest.induct) auto

lemma distinct_drop_oldest: "distinct (map f rs) \<Longrightarrow> distinct (map f (drop_oldest p n rs))"
proof (induction p n rs rule: drop_oldest.induct)
  case (3 p n r rs)
  then show ?case using set_drop_oldest [of p "Suc n" rs] by auto
qed auto

lemma db_get_keep_newest_other [simp, store_simps]:
  "k' \<noteq> k \<Longrightarrow> db_get (db_keep_newest k n rs) k' i = db_get rs k' i"
proof -
  assume "k' \<noteq> k"
  then have "db_get (drop_oldest (\<lambda>r. fst r = k) m rs) k' i = db_get rs k' i" for m
    by (induction "\<lambda>r :: kind \<times> string \<times> 'a. fst r = k" m rs rule: drop_oldest.induct) auto
  then show ?thesis by (simp add: db_keep_newest_def)
qed

lemma db_all_keep_newest_other [simp, store_simps]:
  "k' \<noteq> k \<Longrightarrow> db_all (db_keep_newest k n rs) k' = db_all rs k'"
  unfolding db_all_def db_keep_newest_def by (subst filter_drop_oldest_other) auto

lemma db_all_keep_newest: "db_all (db_keep_newest k n rs) k = take n (db_all rs k)"
  by (simp add: db_all_def db_keep_newest_def filter_drop_oldest take_rev drop_map)

lemma db_ok_keep_newest [simp]: "db_ok rs \<Longrightarrow> db_ok (db_keep_newest k n rs)"
  by (simp add: db_ok_def db_keep_newest_def distinct_drop_oldest)

section \<open>Documents\<close>

text \<open>The node's identity, as \<open>Node.identity\<close> returns it and \<open>installation\<close> stores it.\<close>

record ident =
  wallet :: string
  chain :: int
  version :: string
  capabilities :: json

text \<open>
  A session row. The states are those of \<open>LIVE\<close> plus the terminal \<open>closed\<close> and \<open>failed\<close>.
\<close>

datatype sstate = Opening | Open_unknown | Open | Quarantined | Orphaned | Draining | Closing
  | Close_pending | Closed | Failed

definition LIVE :: "sstate set" where
  "LIVE = {Opening, Open_unknown, Open, Quarantined, Orphaned, Draining, Closing, Close_pending}"

text \<open>Why a row carries an error text, and why it is being closed.\<close>

datatype error_note = Error_code string | Invalid_node_response | Journal_not_submitted | Opening_reverted

datatype reason = Pool_limit | Near_expiry | Close_requested | Retired_by_policy | Invalidated string

record srow =
  sid :: string
  chain_id :: "string option"
  row_model :: string
  row_alias :: string
  row_provider :: string
  row_bid :: string
  sstate :: sstate
  created_at :: time
  last_used :: time
  ends_at :: int
  opened_at :: int
  stake_wei :: string
  row_revision :: int
  estimated_stake_wei :: string
  transactions :: json
  row_error :: "error_note option"
  failures :: nat
  retry_at :: time
  close_reason :: "reason option"
  close_operation_id :: "string option"
  close_tx :: json
  close_transactions :: json
  closed_at :: "int option"
  estimated_daylocked_wei :: "string option"
  recovery_candidates :: "string list"
  discovered :: bool

text \<open>Operations: node restarts, rating updates and MOR withdrawals.\<close>

datatype op_kind = Restart | Apply_rating | Withdraw

datatype op_state = Queued | Op_draining | Restarting | Op_interrupted | Submitting | Pending
  | Uncertain | Succeeded | Op_failed

record operation =
  op_id :: string
  op_kind :: op_kind
  op_state :: op_state
  op_created :: time
  op_transactions :: json
  eligible_before_wei :: int
  op_note :: "string option"
  finished_at :: "time option"

record opening_failure =
  of_revision :: int
  of_failures :: nat
  of_retry_at :: time
  of_error :: gerror

datatype req_state = Started | Completed | Interrupted

record request_row =
  req_state :: req_state
  req_created :: time
  req_id :: string

record key_row =
  key_id :: string
  key_name :: string
  key_models :: "string list"
  key_concurrency :: int
  key_rpm :: int
  key_prefix :: string
  key_enabled :: bool
  key_created :: time
  key_last_used :: "time option"

record admin_row =
  admin_id :: string
  csrf :: string
  expires :: time
  epoch :: string

text \<open>The audit trail: one constructor per action name.\<close>

datatype event =
    Background_error string
  | Session_error string string
  | Session_open_started string string string
  | Session_invalidated string string string
  | Session_closed string json
  | Session_reconciled string
  | Wallet_session_discovered string bool
  | Wallet_session_invalid string
  | Mor_withdrawal string op_state
  | Recovery_error string string
  | Node_restart string op_state
  | Policy_saved int
  | Key_created string
  | Key_revoked string
  | Request_finished string bool

datatype doc =
    DSession srow
  | DOperation operation
  | DPolicy policy
  | DInstallation ident
  | DWallet_scan int time
  | DTreasury int int int int time
  | DLast_withdrawal time
  | DRecovery_status time "string list"
  | DApplied_rating int rating json
  | DAuth_generation string
  | DStorage_health string
  | DProvider time string
  | DOpening_failure opening_failure
  | DRequest request_row
  | DKey key_row
  | DAdmin admin_row
  | DEvent time event

type_synonym database = "doc records"

section \<open>Queries on documents\<close>

definition as_session :: "doc \<Rightarrow> srow option" where
  "as_session d = (case d of DSession r \<Rightarrow> Some r | _ \<Rightarrow> None)"

definition as_operation :: "doc \<Rightarrow> operation option" where
  "as_operation d = (case d of DOperation r \<Rightarrow> Some r | _ \<Rightarrow> None)"

definition get_session :: "database \<Rightarrow> string \<Rightarrow> srow option" where
  "get_session rs i = Option.bind (db_get rs KSession i) as_session"

definition put_session :: "srow \<Rightarrow> database \<Rightarrow> database" where
  "put_session r rs = db_put KSession (sid r) (DSession r) rs"

definition put_operation :: "operation \<Rightarrow> database \<Rightarrow> database" where
  "put_operation r rs = db_put KOperation (op_id r) (DOperation r) rs"

definition get_operation :: "database \<Rightarrow> string \<Rightarrow> operation option" where
  "get_operation rs i = Option.bind (db_get rs KOperation i) as_operation"

definition db_operations :: "database \<Rightarrow> operation list" where
  "db_operations rs = List.map_filter as_operation (db_all rs KOperation)"

definition db_sessions :: "database \<Rightarrow> srow list" where
  "db_sessions rs =
    filter (\<lambda>r. sstate r \<noteq> Closed \<and> sstate r \<noteq> Failed) (List.map_filter as_session (db_all rs KSession))"

text \<open>\<open>Store.policy\<close>: the constructor stores a default policy in a fresh database.\<close>

definition db_policy :: "database \<Rightarrow> policy" where
  "db_policy rs = (case db_get rs KSettings ''policy'' of Some (DPolicy p) \<Rightarrow> p | _ \<Rightarrow> default_policy)"

text \<open>The constructor, on the rows found in the file.\<close>

definition store_init :: "database \<Rightarrow> database" where
  "store_init rs =
    (if db_get rs KSettings ''policy'' = None
     then db_put KSettings ''policy'' (DPolicy default_policy) rs else rs)"

definition event_limit :: nat where
  "event_limit = 500"

definition db_event :: "string \<Rightarrow> time \<Rightarrow> event \<Rightarrow> database \<Rightarrow> database" where
  "db_event i now a rs = db_keep_newest KEvent event_limit (db_put KEvent i (DEvent (of_int \<lfloor>now\<rfloor>) a) rs)"

text \<open>The three statements of \<open>prune\<close>, on one row.\<close>

fun prunable :: "time \<Rightarrow> kind \<times> string \<times> doc \<Rightarrow> bool" where
  "prunable now (KSession, _, DSession r) =
     (sstate r \<in> {Closed, Failed} \<and> created_at r < now - 30 * 86400)"
| "prunable now (KOperation, _, DOperation r) =
     (op_state r \<in> {Succeeded, Op_failed, Op_interrupted} \<and> op_created r < now - 30 * 86400)"
| "prunable now (KRequest, _, DRequest r) =
     (req_state r \<in> {Completed, Interrupted} \<and> req_created r < now - 30 * 86400)"
| "prunable now (KAdmin, _, DAdmin r) = (expires r < now)"
| "prunable now _ = False"

definition db_prune :: "time \<Rightarrow> database \<Rightarrow> database" where
  "db_prune now rs = filter (\<lambda>r. \<not> prunable now r) rs"

text \<open>\<open>UPDATE records SET data=json_set(data,'$.state','interrupted')\<close> of \<open>Sessions.recover\<close>.\<close>

definition interrupt_requests :: "database \<Rightarrow> database" where
  "interrupt_requests rs = map (\<lambda>(k, i, d). (k, i,
     (case d of DRequest r \<Rightarrow>
        if k = KRequest \<and> req_state r = Started then DRequest (r\<lparr>req_state := Interrupted\<rparr>) else d
      | _ \<Rightarrow> d))) rs"

text \<open>
  The documents of each kind: a session, an operation and an administrator are stored under their own
  identifier, and every setting has a document type of its own.
\<close>

fun doc_ok :: "kind \<Rightarrow> string \<Rightarrow> doc \<Rightarrow> bool" where
  "doc_ok k i (DSession r) = (k = KSession \<and> sid r = i)"
| "doc_ok k i (DOperation r) = (k = KOperation \<and> op_id r = i)"
| "doc_ok k i (DPolicy _) = (k = KSettings \<and> i = ''policy'')"
| "doc_ok k i (DInstallation _) = (k = KSettings \<and> i = ''installation'')"
| "doc_ok k i (DWallet_scan _ _) = (k = KSettings \<and> i = ''wallet_scan'')"
| "doc_ok k i (DTreasury _ _ _ _ _) = (k = KSettings \<and> i = ''treasury'')"
| "doc_ok k i (DLast_withdrawal _) = (k = KSettings \<and> i = ''last_withdrawal'')"
| "doc_ok k i (DRecovery_status _ _) = (k = KSettings \<and> i = ''recovery_status'')"
| "doc_ok k i (DApplied_rating _ _ _) = (k = KSettings \<and> i = ''applied_rating'')"
| "doc_ok k i (DAuth_generation _) = (k = KSettings \<and> i = ''auth_generation'')"
| "doc_ok k i (DStorage_health _) = (k = KSettings \<and> i = ''storage_health'')"
| "doc_ok k i (DProvider _ _) = (k = KProvider)"
| "doc_ok k i (DOpening_failure _) = (k = KOpening_failure)"
| "doc_ok k i (DRequest _) = (k = KRequest)"
| "doc_ok k i (DKey _) = (k = KKey)"
| "doc_ok k i (DAdmin a) = (k = KAdmin \<and> admin_id a = i)"
| "doc_ok k i (DEvent _ _) = (k = KEvent)"

definition db_wf :: "database \<Rightarrow> bool" where
  "db_wf rs = (db_ok rs \<and> list_all (\<lambda>(k, i, d). doc_ok k i d) rs)"

section \<open>Facts about the documents\<close>

lemma get_session_put [simp, store_simps]:
  "get_session (put_session r rs) i = (if i = sid r then Some r else get_session rs i)"
  by (simp add: get_session_def put_session_def as_session_def)

lemma get_session_put_other [simp, store_simps]:
  "k \<noteq> KSession \<Longrightarrow> get_session (db_put k i d rs) j = get_session rs j"
  "k \<noteq> KSession \<Longrightarrow> get_session (db_delete k i rs) j = get_session rs j"
  "get_session (put_operation op rs) j = get_session rs j"
  "get_session (db_event i now a rs) j = get_session rs j"
  by (auto simp: get_session_def db_event_def put_operation_def)

lemma db_all_delete_other [simp, store_simps]: "k \<noteq> k' \<Longrightarrow> db_all (db_delete k i rs) k' = db_all rs k'"
  by (induction rs) (auto simp: db_all_def db_delete_def)

lemma db_sessions_put_other [simp, store_simps]:
  "k \<noteq> KSession \<Longrightarrow> db_sessions (db_put k i d rs) = db_sessions rs"
  "k \<noteq> KSession \<Longrightarrow> db_sessions (db_delete k i rs) = db_sessions rs"
  "db_sessions (put_operation op rs) = db_sessions rs"
  "db_sessions (db_event i now a rs) = db_sessions rs"
  by (simp_all add: db_sessions_def db_event_def put_operation_def)

lemma db_operations_put_other [simp, store_simps]:
  "k \<noteq> KOperation \<Longrightarrow> db_operations (db_put k i d rs) = db_operations rs"
  "k \<noteq> KOperation \<Longrightarrow> db_operations (db_delete k i rs) = db_operations rs"
  "db_operations (put_session r rs) = db_operations rs"
  "db_operations (db_event i now a rs) = db_operations rs"
  by (simp_all add: db_operations_def db_event_def put_session_def)

lemma db_policy_put_other [simp, store_simps]:
  "(k, i) \<noteq> (KSettings, ''policy'') \<Longrightarrow> db_policy (db_put k i d rs) = db_policy rs"
  "k \<noteq> KSettings \<Longrightarrow> db_policy (db_delete k i rs) = db_policy rs"
  "db_policy (put_session r rs) = db_policy rs"
  "db_policy (put_operation op rs) = db_policy rs"
  "db_policy (db_event i now a rs) = db_policy rs"
  by (auto simp: db_policy_def put_session_def put_operation_def db_event_def)

lemma db_policy_put [simp, store_simps]:
  "db_policy (db_put KSettings ''policy'' (DPolicy p) rs) = p"
  by (simp add: db_policy_def)

lemma db_get_put_session [simp, store_simps]:
  "k \<noteq> KSession \<Longrightarrow> db_get (put_session r rs) k i = db_get rs k i"
  "k \<noteq> KOperation \<Longrightarrow> db_get (put_operation op rs) k i = db_get rs k i"
  "k \<noteq> KEvent \<Longrightarrow> db_get (db_event j now a rs) k i = db_get rs k i"
  by (simp_all add: put_session_def put_operation_def db_event_def)

lemma db_get_filter: "(\<And>i d. P (k, i, d)) \<Longrightarrow> db_get (filter P rs) k i = db_get rs k i"
  by (induction rs) auto

lemma db_get_prune [simp]: "k \<in> {KSettings, KKey, KEvent, KProvider, KOpening_failure} \<Longrightarrow> db_get (db_prune now rs) k i = db_get rs k i"
  unfolding db_prune_def by (rule db_get_filter) auto

lemma db_get_interrupt [simp]: "k \<noteq> KRequest \<Longrightarrow> db_get (interrupt_requests rs) k i = db_get rs k i"
  by (induction rs) (auto simp: interrupt_requests_def split: doc.splits)

lemma db_policy_rewrites [simp]:
  "db_policy (db_prune now rs) = db_policy rs" "db_policy (interrupt_requests rs) = db_policy rs"
  by (simp_all add: db_policy_def)

subsection \<open>Well-formed tables\<close>

lemma db_put_subset: "set (db_put k i d rs) \<subseteq> insert (k, i, d) (set rs)"
  by (induction k i d rs rule: db_put.induct) auto

lemma db_wf_iff: "db_wf rs \<longleftrightarrow> db_ok rs \<and> (\<forall>k i d. (k, i, d) \<in> set rs \<longrightarrow> doc_ok k i d)"
  by (auto simp: db_wf_def list_all_iff)

lemma db_wf_ok: "db_wf rs \<Longrightarrow> db_ok rs"
  by (simp add: db_wf_def)

lemma db_wf_put [simp]: "doc_ok k i d \<Longrightarrow> db_wf rs \<Longrightarrow> db_wf (db_put k i d rs)"
  using db_put_subset [of k i d rs] by (auto simp: db_wf_iff)

lemma db_wf_put_row [simp]:
  "db_wf rs \<Longrightarrow> db_wf (put_session r rs)" "db_wf rs \<Longrightarrow> db_wf (put_operation op rs)"
  by (simp_all add: put_session_def put_operation_def)

lemma db_wf_subset: "db_wf rs \<Longrightarrow> db_ok rs' \<Longrightarrow> set rs' \<subseteq> set rs \<Longrightarrow> db_wf rs'"
  by (auto simp: db_wf_iff)

lemma db_wf_delete [simp]: "db_wf rs \<Longrightarrow> db_wf (db_delete k i rs)"
  by (rule db_wf_subset [where rs = rs]) (auto simp: db_wf_def db_delete_def db_ok_def distinct_map_filter)

lemma db_wf_prune [simp]: "db_wf rs \<Longrightarrow> db_wf (db_prune now rs)"
  by (rule db_wf_subset [where rs = rs]) (auto simp: db_wf_def db_prune_def db_ok_def distinct_map_filter)

lemma db_wf_event [simp]: "db_wf rs \<Longrightarrow> db_wf (db_event i now a rs)"
proof -
  assume wf: "db_wf rs"
  then have put: "db_wf (db_put KEvent i (DEvent (of_int \<lfloor>now\<rfloor>) a) rs)" by simp
  then show ?thesis
    unfolding db_event_def db_keep_newest_def
    by (rule db_wf_subset) (use db_wf_ok [OF put] in \<open>simp_all add: db_ok_def distinct_drop_oldest set_drop_oldest\<close>)
qed

lemma doc_ok_interrupt: "doc_ok k i d \<Longrightarrow> doc_ok k i (case d of DRequest r \<Rightarrow>
    if k = KRequest \<and> req_state r = Started then DRequest (r\<lparr>req_state := Interrupted\<rparr>) else d | _ \<Rightarrow> d)"
  by (cases d) auto

lemma db_wf_interrupt [simp]: "db_wf rs \<Longrightarrow> db_wf (interrupt_requests rs)"
proof -
  assume wf: "db_wf rs"
  have "map db_key (interrupt_requests rs) = map db_key rs" by (auto simp: interrupt_requests_def)
  moreover have "list_all (\<lambda>(k, i, d). doc_ok k i d) (interrupt_requests rs)"
    using wf unfolding db_wf_def interrupt_requests_def list.pred_map
    by (auto simp only: list_all_iff comp_def split: prod.split intro!: doc_ok_interrupt)
  ultimately show ?thesis using wf by (simp add: db_wf_def db_ok_def)
qed

lemma doc_ok_session [simp]: "doc_ok KSession i d \<longleftrightarrow> (\<exists>r. d = DSession r \<and> sid r = i)"
  by (cases d) auto

lemma doc_ok_operation [simp]: "doc_ok KOperation i d \<longleftrightarrow> (\<exists>r. d = DOperation r \<and> op_id r = i)"
  by (cases d) auto

lemma db_wf_row:
  "db_wf rs \<Longrightarrow> (KSession, i, d) \<in> set rs \<Longrightarrow> \<exists>r. d = DSession r \<and> sid r = i"
  "db_wf rs \<Longrightarrow> (KOperation, j, d) \<in> set rs \<Longrightarrow> \<exists>r. d = DOperation r \<and> op_id r = j"
  unfolding db_wf_iff by (metis doc_ok_session, metis doc_ok_operation)

lemma db_wf_session:
  assumes "db_wf rs" and "db_get rs KSession i = Some d"
  obtains r where "d = DSession r" "sid r = i"
  using db_wf_row [OF assms(1)] assms by (auto simp: db_get_in [OF db_wf_ok])

lemma in_map_filter: "y \<in> set (List.map_filter f xs) \<longleftrightarrow> (\<exists>x \<in> set xs. f x = Some y)"
  by (force simp: List.map_filter_def)

lemma as_session_Some [simp]: "as_session d = Some r \<longleftrightarrow> d = DSession r"
  by (cases d) (auto simp: as_session_def)

lemma as_operation_Some [simp]: "as_operation d = Some r \<longleftrightarrow> d = DOperation r"
  by (cases d) (auto simp: as_operation_def)

lemma get_session_Some: "get_session rs i = Some r \<longleftrightarrow> db_get rs KSession i = Some (DSession r)"
  by (auto simp: get_session_def bind_eq_Some_conv)

lemma get_session_sid: "db_wf rs \<Longrightarrow> get_session rs i = Some r \<Longrightarrow> sid r = i"
  by (auto simp: get_session_Some elim: db_wf_session)

lemma get_operation_Some: "get_operation rs i = Some r \<longleftrightarrow> db_get rs KOperation i = Some (DOperation r)"
  by (auto simp: get_operation_def bind_eq_Some_conv)

lemma get_operation_put [simp, store_simps]:
  "get_operation (put_operation op rs) i = (if i = op_id op then Some op else get_operation rs i)"
  by (auto simp: get_operation_def put_operation_def)

lemma get_operation_other [simp, store_simps]:
  "k \<noteq> KOperation \<Longrightarrow> get_operation (db_put k i d rs) j = get_operation rs j"
  "get_operation (put_session r rs) j = get_operation rs j"
  "get_operation (db_event i now a rs) j = get_operation rs j"
  by (auto simp: get_operation_def db_event_def put_session_def)

lemma in_db_operations:
  assumes "db_wf rs"
  shows "r \<in> set (db_operations rs) \<longleftrightarrow> get_operation rs (op_id r) = Some r"
proof -
  have ok: "db_ok rs" using assms by (simp add: db_wf_def)
  have "(\<exists>i. db_get rs KOperation i = Some (DOperation r)) \<longleftrightarrow> db_get rs KOperation (op_id r) = Some (DOperation r)"
    using db_wf_row(2) [OF assms] by (auto simp: db_get_in [OF ok])
  then show ?thesis
    using ok by (auto simp: db_operations_def in_map_filter in_db_all_get get_operation_Some)
qed

text \<open>\<open>sessions()\<close> returns exactly the stored rows that are neither closed nor failed.\<close>

lemma in_db_sessions:
  assumes "db_wf rs"
  shows "r \<in> set (db_sessions rs) \<longleftrightarrow>
     get_session rs (sid r) = Some r \<and> sstate r \<noteq> Closed \<and> sstate r \<noteq> Failed"
proof -
  have ok: "db_ok rs" using assms by (simp add: db_wf_def)
  have "(\<exists>i. db_get rs KSession i = Some (DSession r)) \<longleftrightarrow> db_get rs KSession (sid r) = Some (DSession r)"
    using assms by (auto elim: db_wf_session)
  then show ?thesis
    using ok by (auto simp: db_sessions_def in_map_filter in_db_all_get get_session_Some)
qed

lemma distinct_db_all_ids:
  "db_ok rs \<Longrightarrow> distinct (map (fst \<circ> snd) (filter (\<lambda>r. fst r = k) rs))"
  by (induction rs) (auto simp: db_ok_def image_iff)

lemma map_filter_sid:
  assumes "db_wf rs"
  shows "map sid (List.map_filter as_session (map (snd \<circ> snd) (filter (\<lambda>r. fst r = KSession) rs))) =
     map (fst \<circ> snd) (filter (\<lambda>r. fst r = KSession) rs)"
proof -
  have "\<forall>x \<in> set rs. fst x = KSession \<longrightarrow> (\<exists>r. snd (snd x) = DSession r \<and> sid r = fst (snd x))"
    using db_wf_row(1) [OF assms] by fastforce
  then show ?thesis by (induction rs) (auto simp: List.map_filter_def as_session_def)
qed

lemma map_filter_rev: "List.map_filter f (rev xs) = rev (List.map_filter f xs)"
  by (simp add: List.map_filter_def rev_map rev_filter)

lemma distinct_db_sessions: "db_wf rs \<Longrightarrow> distinct (map sid (db_sessions rs))"
proof -
  assume wf: "db_wf rs"
  have "distinct (map sid (List.map_filter as_session (db_all rs KSession)))"
    using distinct_db_all_ids [of rs KSession] map_filter_sid [OF wf] wf
    by (simp add: db_all_def map_filter_rev db_wf_def flip: rev_map)
  then show ?thesis unfolding db_sessions_def by (rule distinct_map_filter)
qed

section \<open>Properties\<close>

lemma map_filter_filter: "List.map_filter f (filter p xs) = List.map_filter (\<lambda>x. if p x then f x else None) xs"
  by (induction xs) (auto simp: List.map_filter_def)

lemma filter_map_filter: "filter q (List.map_filter f xs) =
    List.map_filter (\<lambda>x. case f x of None \<Rightarrow> None | Some y \<Rightarrow> if q y then Some y else None) xs"
  by (induction xs) (auto simp: List.map_filter_def)

lemma db_all_prune: "db_all (db_prune now rs) k = rev (map (snd \<circ> snd) (filter (\<lambda>r. \<not> prunable now r \<and> fst r = k) rs))"
  by (simp add: db_all_def db_prune_def conj_commute)

lemma map_filter_cong_on:
  "(\<And>x. x \<in> set xs \<Longrightarrow> f x = g x) \<Longrightarrow> List.map_filter f xs = List.map_filter g xs"
  by (induction xs) (auto simp: List.map_filter_def)

lemma map_filter_comp: "List.map_filter f (map g xs) = List.map_filter (\<lambda>x. f (g x)) xs"
  by (induction xs) (auto simp: List.map_filter_def)

text \<open>
  An operation or request that is not finished is never pruned, and neither is a session that
  may still hold a stake.
\<close>

definition unresolved :: "operation \<Rightarrow> bool" where
  "unresolved op = (op_state op \<notin> {Succeeded, Op_failed, Op_interrupted})"

lemma prune_filtered:
  assumes "\<And>x y. x \<in> set rs \<Longrightarrow> fst x = k \<Longrightarrow> f (snd (snd x)) = Some y \<Longrightarrow> q y \<Longrightarrow> \<not> prunable now x"
  shows "filter q (List.map_filter f (db_all (db_prune now rs) k)) = filter q (List.map_filter f (db_all rs k))"
  unfolding db_all_prune unfolding db_all_def map_filter_rev map_filter_comp filter_map_filter
    map_filter_filter rev_filter [symmetric]
  using assms
  by (force simp: filter_map_filter intro!: map_filter_cong_on split: option.splits)

text \<open>
  C39. Retention never loses money: pruning the history removes no live session and no
  unresolved operation, so every row that can hold escrow or an uncertain withdrawal survives,
  in the same order, at any clock reading.
\<close>

theorem prune_keeps_unresolved:
  "db_sessions (db_prune now rs) = db_sessions rs \<and>
   filter unresolved (db_operations (db_prune now rs)) = filter unresolved (db_operations rs)"
  unfolding db_sessions_def db_operations_def
  by (intro conjI; rule prune_filtered) (auto simp: unresolved_def)

text \<open>
  Diagnostics stay bounded and never disturb the journal: after an event is recorded there
  are at most 500 of them, the new one is the newest, and every other kind of record reads as
  before.
\<close>

theorem event_log_bounded:
  assumes "db_get rs KEvent i = None"
  shows "db_all (db_event i now a rs) KEvent = take event_limit (DEvent (of_int \<lfloor>now\<rfloor>) a # db_all rs KEvent) \<and>
    length (db_all (db_event i now a rs) KEvent) \<le> 500 \<and>
    (\<forall>k. k \<noteq> KEvent \<longrightarrow> db_all (db_event i now a rs) k = db_all rs k \<and>
       (\<forall>j. db_get (db_event i now a rs) k j = db_get rs k j))"
  using assms by (simp add: db_event_def db_all_keep_newest db_all_put_new event_limit_def)

theorem event_log_bounded_witness:
  "db_all (db_event ''e1'' 7 (Policy_saved 3) []) KEvent = [DEvent 7 (Policy_saved 3)]"
  using event_log_bounded [of "[]" "''e1''" 7 "Policy_saved 3"]
  by (simp add: event_limit_def db_all_def)

text \<open>
  The listing the pool is built from: on a well-formed table \<open>sessions()\<close> returns each
  stored row that is neither closed nor failed exactly once, as last written.
\<close>

theorem sessions_exact:
  assumes "db_wf rs"
  shows "distinct (map sid (db_sessions rs)) \<and>
    (\<forall>r. r \<in> set (db_sessions rs) \<longleftrightarrow> get_session rs (sid r) = Some r \<and> sstate r \<in> LIVE)"
proof -
  have "sstate r \<in> LIVE \<longleftrightarrow> sstate r \<noteq> Closed \<and> sstate r \<noteq> Failed" for r :: srow
    by (cases "sstate r") (auto simp: LIVE_def)
  then show ?thesis using distinct_db_sessions [OF assms] in_db_sessions [OF assms] by simp
qed

definition sample_row :: "string \<Rightarrow> sstate \<Rightarrow> srow" where
  "sample_row i st = \<lparr>sid = i, chain_id = Some (hash_of (CHR ''5'')), row_model = hash_of (CHR ''a''),
     row_alias = ''fast'', row_provider = address_of (CHR ''b''), row_bid = hash_of (CHR ''c''),
     sstate = st, created_at = 1000, last_used = 1000, ends_at = 5000, opened_at = 1000,
     stake_wei = ''10'', row_revision = 0, estimated_stake_wei = ''9'', transactions = JArr [],
     row_error = None, failures = 0, retry_at = 0, close_reason = None, close_operation_id = None,
     close_tx = JNull, close_transactions = JArr [], closed_at = None,
     estimated_daylocked_wei = None, recovery_candidates = [], discovered = False\<rparr>"

theorem sessions_exact_witness:
  "sample_row ''s2'' Draining \<in>
     set (db_sessions (put_session (sample_row ''s2'' Draining) (put_session (sample_row ''s1'' Closed) [])))"
proof -
  let ?rs = "put_session (sample_row ''s2'' Draining) (put_session (sample_row ''s1'' Closed) [])"
  have wf: "db_wf ?rs" by (intro db_wf_put_row) (simp add: db_wf_def db_ok_def)
  have "get_session ?rs (sid (sample_row ''s2'' Draining)) = Some (sample_row ''s2'' Draining)"
    by simp
  then show ?thesis using sessions_exact [OF wf] by (simp add: sample_row_def LIVE_def)
qed

end
