(* ===== verification/JsonText.thy ===== *)
theory JsonText
  imports PyData "HOL-Library.Log_Nat"
begin

text \<open>
  The part of Python's \<open>json\<close> module that the gateway uses: \<open>json.loads\<close> on bytes with the
  hooks of \<open>strict_json\<close> in gateway/transport.py (whole numbers of at most 256 characters,
  no NaN or Infinity, no repeated members), and the compact \<open>json.dumps\<close>.

  Bytes are characters, text is a list of code points. A string value is kept as the UTF-8 bytes
  of its code points. Every way of failing (\<open>ValueError\<close>, \<open>UnicodeError\<close>, \<open>RecursionError\<close>)
  is None: the callers treat them alike. The text \<open>repr\<close> gives a float is a parameter of
  the printer.
\<close>

section \<open>UTF-8\<close>

definition surrogate :: "int \<Rightarrow> bool" where
  "surrogate c = (0xD800 \<le> c \<and> c \<le> 0xDFFF)"

definition code_point :: "int \<Rightarrow> bool" where
  "code_point c = (0 \<le> c \<and> c \<le> 0x10FFFF)"

definition utf8_enc :: "int \<Rightarrow> string" where
  "utf8_enc c =
    (if c < 0x80 then [char_of c]
     else if c < 0x800 then [char_of (0xC0 + c div 64), char_of (0x80 + c mod 64)]
     else if c < 0x10000 then
       [char_of (0xE0 + c div 64 div 64), char_of (0x80 + c div 64 mod 64), char_of (0x80 + c mod 64)]
     else
       [char_of (0xF0 + c div 64 div 64 div 64), char_of (0x80 + c div 64 div 64 mod 64),
        char_of (0x80 + c div 64 mod 64), char_of (0x80 + c mod 64)])"

definition cont_byte :: "int \<Rightarrow> bool" where
  "cont_byte b = (0x80 \<le> b \<and> b \<le> 0xBF)"

text \<open>
  \<open>bytes.decode("utf-8", "surrogatepass")\<close> on byte values: overlong forms and values past
  \<open>0x10FFFF\<close> are refused, surrogates are not.
\<close>

definition utf8_head :: "int \<Rightarrow> int list \<Rightarrow> (int \<times> int list) option" where
  "utf8_head a s =
    (if a < 0x80 then Some (a, s)
     else if a < 0xE0 then (case s of
       b # r \<Rightarrow> if 0xC2 \<le> a \<and> cont_byte b then Some ((a - 0xC0) * 64 + (b - 0x80), r) else None
     | _ \<Rightarrow> None)
     else if a < 0xF0 then (case s of
       b # c # r \<Rightarrow>
         if cont_byte b \<and> (a = 0xE0 \<longrightarrow> 0xA0 \<le> b) \<and> cont_byte c
         then Some (((a - 0xE0) * 64 + (b - 0x80)) * 64 + (c - 0x80), r) else None
     | _ \<Rightarrow> None)
     else (case s of
       b # c # d # r \<Rightarrow>
         if a \<le> 0xF4 \<and> cont_byte b \<and> (a = 0xF0 \<longrightarrow> 0x90 \<le> b) \<and> (a = 0xF4 \<longrightarrow> b \<le> 0x8F) \<and>
            cont_byte c \<and> cont_byte d
         then Some ((((a - 0xF0) * 64 + (b - 0x80)) * 64 + (c - 0x80)) * 64 + (d - 0x80), r) else None
     | _ \<Rightarrow> None))"

lemma utf8_head_length: "utf8_head a s = Some (c, r) \<Longrightarrow> length r \<le> length s"
  by (auto simp: utf8_head_def split: if_splits list.splits)

function utf8_dec :: "int list \<Rightarrow> int list option" where
  "utf8_dec [] = Some []"
| "utf8_dec (a # s) =
    (case utf8_head a s of None \<Rightarrow> None | Some (c, r) \<Rightarrow> map_option (Cons c) (utf8_dec r))"
  by pat_completeness auto
termination by (relation "measure length") (auto dest: utf8_head_length)

definition byte_vals :: "string \<Rightarrow> int list" where
  "byte_vals s = map of_char s"

definition code_points :: "string \<Rightarrow> int list option" where
  "code_points s = utf8_dec (byte_vals s)"

definition encode_text :: "int list \<Rightarrow> string" where
  "encode_text cs = concat (map utf8_enc cs)"

text \<open>\<open>s.encode("utf-8")\<close> succeeds: the text has no surrogate.\<close>

definition encodable :: "string \<Rightarrow> bool" where
  "encodable s = (case code_points s of None \<Rightarrow> False | Some cs \<Rightarrow> list_all (\<lambda>c. \<not> surrogate c) cs)"

section \<open>Other encodings\<close>

text \<open>\<open>json.detect_encoding\<close>: byte-order marks first, then the position of zero bytes.\<close>

datatype encoding = UTF8 | UTF16 bool | UTF32 bool

definition detect_encoding :: "int list \<Rightarrow> encoding \<times> int list" where
  "detect_encoding b =
    (if prefix [0, 0, 0xFE, 0xFF] b then (UTF32 True, drop 4 b)
     else if prefix [0xFF, 0xFE, 0, 0] b then (UTF32 False, drop 4 b)
     else if prefix [0xFE, 0xFF] b then (UTF16 True, drop 2 b)
     else if prefix [0xFF, 0xFE] b then (UTF16 False, drop 2 b)
     else if prefix [0xEF, 0xBB, 0xBF] b then (UTF8, drop 3 b)
     else (case b of
       [b0, b1] \<Rightarrow> if b0 = 0 then (UTF16 True, b) else if b1 = 0 then (UTF16 False, b) else (UTF8, b)
     | b0 # b1 # b2 # b3 # _ \<Rightarrow>
         if b0 = 0 then (if b1 \<noteq> 0 then UTF16 True else UTF32 True, b)
         else if b1 = 0 then (if b2 \<noteq> 0 \<or> b3 \<noteq> 0 then UTF16 False else UTF32 False, b)
         else (UTF8, b)
     | _ \<Rightarrow> (UTF8, b)))"

definition high_surrogate :: "int \<Rightarrow> bool" where
  "high_surrogate c = (0xD800 \<le> c \<and> c \<le> 0xDBFF)"

definition low_surrogate :: "int \<Rightarrow> bool" where
  "low_surrogate c = (0xDC00 \<le> c \<and> c \<le> 0xDFFF)"

definition join_surrogates :: "int \<Rightarrow> int \<Rightarrow> int" where
  "join_surrogates h l = 0x10000 + (h - 0xD800) * 1024 + (l - 0xDC00)"

text \<open>The flag is set for big-endian units. A surrogate pair is one code point.\<close>

fun utf16_units :: "bool \<Rightarrow> int list \<Rightarrow> int list option" where
  "utf16_units big [] = Some []"
| "utf16_units big [a] = None"
| "utf16_units big (a # b # s) =
    map_option (Cons (if big then a * 256 + b else b * 256 + a)) (utf16_units big s)"

fun join_pairs :: "int list \<Rightarrow> int list" where
  "join_pairs (h # l # s) =
    (if high_surrogate h \<and> low_surrogate l then join_surrogates h l # join_pairs s
     else h # join_pairs (l # s))"
| "join_pairs s = s"

fun utf32_units :: "bool \<Rightarrow> int list \<Rightarrow> int list option" where
  "utf32_units big [] = Some []"
| "utf32_units big (a # b # c # d # s) =
    (let u = (if big then ((a * 256 + b) * 256 + c) * 256 + d else ((d * 256 + c) * 256 + b) * 256 + a)
     in if u \<le> 0x10FFFF then map_option (Cons u) (utf32_units big s) else None)"
| "utf32_units big _ = None"

definition decode_bytes :: "string \<Rightarrow> int list option" where
  "decode_bytes raw =
    (case detect_encoding (byte_vals raw) of
       (UTF8, b) \<Rightarrow> utf8_dec b
     | (UTF16 big, b) \<Rightarrow> map_option join_pairs (utf16_units big b)
     | (UTF32 big, b) \<Rightarrow> utf32_units big b)"

section \<open>Numbers\<close>

definition digit :: "int \<Rightarrow> bool" where
  "digit c = (48 \<le> c \<and> c \<le> 57)"

definition digits_val :: "int list \<Rightarrow> int" where
  "digits_val ds = foldl (\<lambda>n d. 10 * n + (d - 48)) 0 ds"

definition half_even :: "rat \<Rightarrow> int" where
  "half_even q = (let f = \<lfloor>q\<rfloor>; r = q - of_int f in
     if r < 1 / 2 then f else if 1 / 2 < r then f + 1 else if even f then f else f + 1)"

definition pow2 :: "int \<Rightarrow> rat" where
  "pow2 e = (if 0 \<le> e then 2 ^ nat e else 1 / 2 ^ nat (- e))"

text \<open>The exponent of the leading binary digit of a positive rational.\<close>

definition exponent2 :: "rat \<Rightarrow> int" where
  "exponent2 q = (case quotient_of q of (n, d) \<Rightarrow>
     let e = bitlen n - bitlen d in if pow2 e \<le> q then e else e - 1)"

text \<open>The double nearest to a number, ties to even; too large a number is infinite.\<close>

definition round_double :: "rat \<Rightarrow> pyfloat" where
  "round_double q =
    (if q = 0 then Finite 0
     else let a = \<bar>q\<bar>; u = max (exponent2 a - 52) (- 1074); v = of_int (half_even (a / pow2 u)) * pow2 u
          in if 2 ^ 1024 \<le> v then (if 0 < q then PosInf else NegInf)
             else Finite (if 0 < q then v else - v))"

definition pow10 :: "int \<Rightarrow> rat" where
  "pow10 e = (if 0 \<le> e then 10 ^ nat e else 1 / 10 ^ nat (- e))"

definition split_digits :: "int list \<Rightarrow> int list \<times> int list" where
  "split_digits s = (takeWhile digit s, dropWhile digit s)"

definition scan_frac :: "int list \<Rightarrow> int list \<times> int list" where
  "scan_frac s = (case s of
     [] \<Rightarrow> ([], s)
   | c # r \<Rightarrow> if c = 46 \<and> takeWhile digit r \<noteq> [] then split_digits r else ([], s))"

text \<open>An exponent is present only when a digit follows the letter and the optional sign.\<close>

definition exp_sign :: "int list \<Rightarrow> int \<times> int list" where
  "exp_sign s = (case s of
     [] \<Rightarrow> (1, s)
   | g # r \<Rightarrow> if g = 45 then (- 1, r) else if g = 43 then (1, r) else (1, s))"

definition scan_exp :: "int list \<Rightarrow> int option \<times> int list" where
  "scan_exp s = (case s of
     [] \<Rightarrow> (None, s)
   | c # r \<Rightarrow>
      if c = 101 \<or> c = 69 then
        (case exp_sign r of (sg, t) \<Rightarrow>
           if takeWhile digit t \<noteq> [] then (Some (sg * digits_val (takeWhile digit t)), dropWhile digit t)
           else (None, s))
      else (None, s))"

definition scan_whole :: "int list \<Rightarrow> (int list \<times> int list) option" where
  "scan_whole s = (case s of
     [] \<Rightarrow> None
   | c # r \<Rightarrow> if c = 48 then Some ([c], r) else if digit c then Some (split_digits s) else None)"

definition num_sign :: "int list \<Rightarrow> bool \<times> int list" where
  "num_sign s = (case s of [] \<Rightarrow> (False, s) | c # r \<Rightarrow> if c = 45 then (True, r) else (False, s))"

text \<open>
  A number without fraction and exponent goes to \<open>parse_int\<close>, the hook \<open>integer\<close> of
  \<open>strict_json\<close>, which refuses more than 256 characters; any other goes to \<open>float\<close>.
\<close>

definition number_value :: "bool \<Rightarrow> int list \<Rightarrow> int list \<Rightarrow> int option \<Rightarrow> json option" where
  "number_value neg ip fr ex =
    (if fr = [] \<and> ex = None then
       (if 256 < int (length ip) + (if neg then 1 else 0) then None
        else Some (JInt (signed neg (digits_val ip))))
     else
       let m = of_int (signed neg (digits_val (ip @ fr)));
           e = (case ex of None \<Rightarrow> 0 | Some x \<Rightarrow> x) - int (length fr)
       in Some (JFloat (round_double (m * pow10 e))))"

definition scan_number :: "int list \<Rightarrow> (json \<times> int list) option" where
  "scan_number s =
    (case num_sign s of (neg, s1) \<Rightarrow>
     case scan_whole s1 of
       None \<Rightarrow> None
     | Some (ip, s2) \<Rightarrow>
        (case scan_frac s2 of (fr, s3) \<Rightarrow>
         case scan_exp s3 of (ex, s4) \<Rightarrow> map_option (\<lambda>v. (v, s4)) (number_value neg ip fr ex)))"

section \<open>Strings\<close>

definition hex_digit :: "int \<Rightarrow> int option" where
  "hex_digit c =
    (if 48 \<le> c \<and> c \<le> 57 then Some (c - 48)
     else if 97 \<le> c \<and> c \<le> 102 then Some (c - 87)
     else if 65 \<le> c \<and> c \<le> 70 then Some (c - 55) else None)"

definition hex4 :: "int \<Rightarrow> int \<Rightarrow> int \<Rightarrow> int \<Rightarrow> int option" where
  "hex4 a b c d = (case (hex_digit a, hex_digit b, hex_digit c, hex_digit d) of
     (Some x, Some y, Some z, Some w) \<Rightarrow> Some (x * 4096 + y * 256 + z * 16 + w)
   | _ \<Rightarrow> None)"

definition simple_escape :: "int \<Rightarrow> int option" where
  "simple_escape c = map_of
     [(34, 34), (92, 92), (47, 47), (98, 8), (102, 12), (110, 10), (114, 13), (116, 9)] c"

text \<open>The escape of a low surrogate, if the text starts with one.\<close>

definition low_escape :: "int list \<Rightarrow> int option" where
  "low_escape s = (case s of
     bs # u # a # b # c # d # _ \<Rightarrow>
       if bs = 92 \<and> u = 117
       then (case hex4 a b c d of None \<Rightarrow> None | Some l \<Rightarrow> if low_surrogate l then Some l else None)
       else None
   | _ \<Rightarrow> None)"

definition push :: "int \<Rightarrow> (int list \<times> int list) option \<Rightarrow> (int list \<times> int list) option" where
  "push c r = map_option (map_prod (Cons c) id) r"

text \<open>From behind a backslash: the code point of the escape and the text after it.\<close>

definition scan_u_escape :: "int list \<Rightarrow> (int \<times> int list) option" where
  "scan_u_escape s = (case s of
     a # b # d # e # r \<Rightarrow>
       (case hex4 a b d e of
          None \<Rightarrow> None
        | Some h \<Rightarrow>
           (case (if high_surrogate h then low_escape r else None) of
              Some l \<Rightarrow> Some (join_surrogates h l, drop 6 r)
            | None \<Rightarrow> Some (h, r)))
   | _ \<Rightarrow> None)"

definition scan_escape :: "int list \<Rightarrow> (int \<times> int list) option" where
  "scan_escape s = (case s of
     [] \<Rightarrow> None
   | u # r \<Rightarrow> if u = 117 then scan_u_escape r else map_option (\<lambda>v. (v, r)) (simple_escape u))"

lemma scan_u_escape_length: "scan_u_escape s = Some (c, r) \<Longrightarrow> length r \<le> length s"
  by (auto simp: scan_u_escape_def split: list.splits option.splits)

lemma scan_escape_length: "scan_escape s = Some (c, r) \<Longrightarrow> length r < length s"
  by (auto simp: scan_escape_def split: list.splits if_splits dest: scan_u_escape_length)

text \<open>From behind the opening quote: the code points of the string and the text after it.\<close>

function scan_string :: "int list \<Rightarrow> (int list \<times> int list) option" where
  "scan_string [] = None"
| "scan_string (c # s) =
    (if c = 34 then Some ([], s)
     else if c < 32 then None
     else if c \<noteq> 92 then push c (scan_string s)
     else (case scan_escape s of None \<Rightarrow> None | Some (v, r) \<Rightarrow> push v (scan_string r)))"
  by pat_completeness auto
termination by (relation "measure length") (auto dest: scan_escape_length)

section \<open>Values\<close>

definition skip_ws :: "int list \<Rightarrow> int list" where
  "skip_ws s = dropWhile (\<lambda>c. c = 32 \<or> c = 9 \<or> c = 10 \<or> c = 13) s"

text \<open>The \<open>object_pairs_hook\<close> of \<open>strict_json\<close>: a repeated member is refused.\<close>

fun pairs_from :: "(string \<times> json) list \<Rightarrow> (string \<times> json) list \<Rightarrow> (string \<times> json) list option" where
  "pairs_from result [] = Some result"
| "pairs_from result ((key, value) # items) =
    (if map_of result key \<noteq> None then None else pairs_from (result @ [(key, value)]) items)"

definition pairs :: "(string \<times> json) list \<Rightarrow> (string \<times> json) list option" where
  "pairs items = pairs_from [] items"

definition word_null :: "int list" where "word_null = [110, 117, 108, 108]"
definition word_true :: "int list" where "word_true = [116, 114, 117, 101]"
definition word_false :: "int list" where "word_false = [102, 97, 108, 115, 101]"

definition scan_atom :: "int list \<Rightarrow> (json \<times> int list) option" where
  "scan_atom s =
    (if prefix word_null s then Some (JNull, drop 4 s)
     else if prefix word_true s then Some (JBool True, drop 4 s)
     else if prefix word_false s then Some (JBool False, drop 5 s)
     else scan_number s)"

text \<open>A member's name and the text behind its colon.\<close>

definition scan_name :: "int list \<Rightarrow> (string \<times> int list) option" where
  "scan_name s = (case s of
     [] \<Rightarrow> None
   | c # r \<Rightarrow>
      if c \<noteq> 34 then None
      else (case scan_string r of
        None \<Rightarrow> None
      | Some (k, r1) \<Rightarrow>
         (case skip_ws r1 of
            [] \<Rightarrow> None
          | d # r2 \<Rightarrow> if d = 58 then Some (encode_text k, skip_ws r2) else None)))"

text \<open>
  The scanner of the module, with fuel: a value needs at most one unit more than twice the
  length of the text (\<open>scan_value_fuel\<close> below). NaN and the infinities, which the module
  would accept, go to \<open>parse_constant\<close>, which refuses them.
\<close>

fun scan_value :: "nat \<Rightarrow> int list \<Rightarrow> (json \<times> int list) option"
  and scan_members :: "nat \<Rightarrow> int list \<Rightarrow> ((string \<times> json) list \<times> int list) option"
  and scan_elements :: "nat \<Rightarrow> int list \<Rightarrow> (json list \<times> int list) option" where
  "scan_value 0 s = None"
| "scan_value (Suc n) s =
    (case s of
       [] \<Rightarrow> None
     | c # r \<Rightarrow>
        if c = 34 then map_option (map_prod (\<lambda>t. JStr (encode_text t)) id) (scan_string r)
        else if c = 123 then
          (case skip_ws r of
             [] \<Rightarrow> None
           | d # r1 \<Rightarrow>
              if d = 125 then Some (JObj [], r1)
              else (case scan_members n (d # r1) of
                None \<Rightarrow> None
              | Some (items, r2) \<Rightarrow> map_option (\<lambda>m. (JObj m, r2)) (pairs items)))
        else if c = 91 then
          (case skip_ws r of
             [] \<Rightarrow> None
           | d # r1 \<Rightarrow>
              if d = 93 then Some (JArr [], r1)
              else map_option (map_prod JArr id) (scan_elements n (d # r1)))
        else scan_atom s)"
| "scan_members 0 s = None"
| "scan_members (Suc n) s =
    (case scan_name s of
       None \<Rightarrow> None
     | Some (k, r) \<Rightarrow>
        (case scan_value n r of
           None \<Rightarrow> None
         | Some (v, r1) \<Rightarrow>
            (case skip_ws r1 of
               [] \<Rightarrow> None
             | d # r2 \<Rightarrow>
                if d = 125 then Some ([(k, v)], r2)
                else if d = 44 then map_option (map_prod (Cons (k, v)) id) (scan_members n (skip_ws r2))
                else None)))"
| "scan_elements 0 s = None"
| "scan_elements (Suc n) s =
    (case scan_value n s of
       None \<Rightarrow> None
     | Some (v, r1) \<Rightarrow>
        (case skip_ws r1 of
           [] \<Rightarrow> None
         | d # r2 \<Rightarrow>
            if d = 93 then Some ([v], r2)
            else if d = 44 then map_option (map_prod (Cons v) id) (scan_elements n (skip_ws r2))
            else None))"

text \<open>\<open>JSONDecoder.decode\<close>: white space around one value and nothing else.\<close>

definition decode_text :: "int list \<Rightarrow> json option" where
  "decode_text s =
    (case scan_value (2 * length s + 1) (skip_ws s) of
       None \<Rightarrow> None
     | Some (v, r) \<Rightarrow> if skip_ws r = [] then Some v else None)"

definition json_loads :: "string \<Rightarrow> json option" where
  "json_loads raw = (case decode_bytes raw of None \<Rightarrow> None | Some s \<Rightarrow> decode_text s)"

section \<open>Printing\<close>

definition hex_char :: "int \<Rightarrow> char" where
  "hex_char d = char_of (if d < 10 then 48 + d else 87 + d)"

definition u_escape :: "int \<Rightarrow> string" where
  "u_escape c = [CHR 0x5C, CHR ''u'', hex_char (c div 16 div 16 div 16), hex_char (c div 16 div 16 mod 16),
     hex_char (c div 16 mod 16), hex_char (c mod 16)]"

definition escape_char :: "int \<Rightarrow> string" where
  "escape_char c =
    (if 32 \<le> c \<and> c \<le> 126 \<and> c \<noteq> 34 \<and> c \<noteq> 92 then [char_of c]
     else (case map_of [(34, 34), (92, 92), (8, 98), (12, 102), (10, 110), (13, 114), (9, 116)] c of
       Some e \<Rightarrow> [CHR 0x5C, char_of (e :: int)]
     | None \<Rightarrow>
        if c < 0x10000 then u_escape c
        else u_escape (0xD800 + (c - 0x10000) div 1024) @ u_escape (0xDC00 + (c - 0x10000) mod 1024)))"

definition dump_string :: "string \<Rightarrow> string" where
  "dump_string s = CHR 0x22 # concat (map escape_char (case code_points s of None \<Rightarrow> [] | Some cs \<Rightarrow> cs)) @ [CHR 0x22]"

text \<open>\<open>sep.join(texts)\<close>.\<close>

fun join_with :: "string \<Rightarrow> string list \<Rightarrow> string" where
  "join_with sep [] = []"
| "join_with sep [x] = x"
| "join_with sep (x # xs) = x @ sep @ join_with sep xs"

fun json_dumps :: "(pyfloat \<Rightarrow> string) \<Rightarrow> json \<Rightarrow> string" where
  "json_dumps repr JNull = ''null''"
| "json_dumps repr (JBool b) = (if b then ''true'' else ''false'')"
| "json_dumps repr (JInt i) = dec i"
| "json_dumps repr (JFloat f) = repr f"
| "json_dumps repr (JStr s) = dump_string s"
| "json_dumps repr (JArr xs) = ''['' @ join_with '','' (map (json_dumps repr) xs) @ '']''"
| "json_dumps repr (JObj m) =
    ''{'' @ join_with '','' (map (\<lambda>kv. dump_string (fst kv) @ '':'' @ json_dumps repr (snd kv)) m) @ ''}''"

section \<open>The fuel is enough\<close>

lemma skip_ws_length: "length (skip_ws s) \<le> length s"
  by (simp add: skip_ws_def length_dropWhile_le)

lemma skip_ws_Cons: "skip_ws s = d # r \<Longrightarrow> length r < length s"
  using skip_ws_length [of s] by simp

lemma split_digits_length: "split_digits s = (ds, r) \<Longrightarrow> length r \<le> length s"
  by (auto simp: split_digits_def length_dropWhile_le)

lemma scan_string_length: "scan_string s = Some (t, r) \<Longrightarrow> length r < length s"
proof (induction s arbitrary: t r rule: scan_string.induct)
  case (2 c s)
  show ?case
  proof (cases "c = 92")
    case True
    with "2.prems" obtain v r' t' where e: "scan_escape s = Some (v, r')" and "scan_string r' = Some (t', r)"
      by (auto simp: push_def split: option.splits)
    with "2.IH"(2) [OF _ _ _ e refl] True scan_escape_length [OF e] show ?thesis by force
  next
    case False
    with "2.prems" "2.IH"(1) show ?thesis by (fastforce simp: push_def split: if_splits)
  qed
qed simp

lemma scan_frac_length: "scan_frac s = (ds, r) \<Longrightarrow> length r \<le> length s"
  by (fastforce simp: scan_frac_def split: list.splits if_splits dest: split_digits_length)

lemma exp_sign_length: "exp_sign s = (g, r) \<Longrightarrow> length r \<le> length s"
  by (auto simp: exp_sign_def split: list.splits if_splits)

lemma scan_exp_length: "scan_exp s = (ex, r) \<Longrightarrow> length r \<le> length s"
proof (cases s)
  case (Cons c t)
  obtain g u where g: "exp_sign t = (g, u)" by fastforce
  with exp_sign_length [OF g] length_dropWhile_le [of digit u] Cons
  show "scan_exp s = (ex, r) \<Longrightarrow> length r \<le> length s"
    by (auto simp: scan_exp_def split: if_splits)
qed (simp add: scan_exp_def)

lemma scan_whole_length: "scan_whole s = Some (ip, r) \<Longrightarrow> length r < length s"
  using length_dropWhile_le [of digit "tl s"]
  by (auto simp: scan_whole_def split_digits_def split: list.splits if_splits)

lemma scan_number_eq_Some:
  "scan_number s = Some (v, r) \<longleftrightarrow>
    (\<exists>neg s1 ip s2 fr s3 ex. num_sign s = (neg, s1) \<and> scan_whole s1 = Some (ip, s2) \<and>
       scan_frac s2 = (fr, s3) \<and> scan_exp s3 = (ex, r) \<and> number_value neg ip fr ex = Some v)"
  by (auto simp: scan_number_def split: prod.splits option.splits)

lemma num_sign_length: "num_sign s = (neg, r) \<Longrightarrow> length r \<le> length s"
  by (auto simp: num_sign_def split: list.splits if_splits)

lemma scan_number_length: "scan_number s = Some (v, r) \<Longrightarrow> length r < length s"
  unfolding scan_number_eq_Some
  using num_sign_length scan_whole_length scan_frac_length scan_exp_length by (meson le_less_trans less_le_trans)

lemma scan_atom_length: "scan_atom s = Some (v, r) \<Longrightarrow> length r < length s"
  by (cases s) (auto simp: scan_atom_def word_null_def word_true_def word_false_def split: if_splits
      dest: scan_number_length)

lemma scan_name_length:
  assumes "scan_name s = Some (k, r)"
  shows "length r < length s"
proof -
  from assms obtain c t q r1 r2 where "s = c # t" and "scan_string t = Some (q, r1)"
    and "skip_ws r1 = 58 # r2" and "r = skip_ws r2"
    by (auto simp: scan_name_def split: list.splits if_splits option.splits)
  then show ?thesis
    using scan_string_length [of t q r1] skip_ws_Cons [of r1 58 r2] skip_ws_length [of r2] by simp
qed

lemma scan_members_SucE:
  assumes "scan_members (Suc n) s = Some (ms, r)"
  obtains (last) k v r0 r1 where "scan_name s = Some (k, r0)" "scan_value n r0 = Some (v, r1)"
      "skip_ws r1 = 125 # r" "ms = [(k, v)]"
  | (next_member) k v r0 r1 r2 ms' where "scan_name s = Some (k, r0)" "scan_value n r0 = Some (v, r1)"
      "skip_ws r1 = 44 # r2" "scan_members n (skip_ws r2) = Some (ms', r)" "ms = (k, v) # ms'"
  using assms by (auto split: option.splits prod.splits list.splits if_splits)

lemma scan_elements_SucE:
  assumes "scan_elements (Suc n) s = Some (vs, r)"
  obtains (last) v r1 where "scan_value n s = Some (v, r1)" "skip_ws r1 = 93 # r" "vs = [v]"
  | (next_element) v r1 r2 vs' where "scan_value n s = Some (v, r1)" "skip_ws r1 = 44 # r2"
      "scan_elements n (skip_ws r2) = Some (vs', r)" "vs = v # vs'"
  using assms by (auto split: option.splits prod.splits list.splits if_splits)

lemma scan_value_SucE:
  assumes "scan_value (Suc n) s = Some (v, r)"
  obtains (str) t q where "s = 34 # t" "scan_string t = Some (q, r)" "v = JStr (encode_text q)"
  | (no_members) t where "s = 123 # t" "skip_ws t = 125 # r" "v = JObj []"
  | (members) t d r1 ms m where "s = 123 # t" "skip_ws t = d # r1" "d \<noteq> 125"
      "scan_members n (d # r1) = Some (ms, r)" "pairs ms = Some m" "v = JObj m"
  | (no_elements) t where "s = 91 # t" "skip_ws t = 93 # r" "v = JArr []"
  | (elements) t d r1 vs where "s = 91 # t" "skip_ws t = d # r1" "d \<noteq> 93"
      "scan_elements n (d # r1) = Some (vs, r)" "v = JArr vs"
  | (atom) "scan_atom s = Some (v, r)"
proof (cases s)
  case Nil
  with assms show ?thesis by simp
next
  case (Cons c t)
  note c = this
  consider "c = 34" | "c = 123" | "c = 91" | "c \<noteq> 34 \<and> c \<noteq> 123 \<and> c \<noteq> 91" by blast
  then show ?thesis
  proof cases
    case 1
    with c assms str show ?thesis by auto
  next
    case 2
    with c assms no_members members show ?thesis
      by (auto split: list.splits if_splits option.splits simp del: scan_members.simps)
  next
    case 3
    with c assms no_elements elements show ?thesis
      by (auto split: list.splits if_splits simp del: scan_elements.simps)
  next
    case 4
    with c assms atom show ?thesis by auto
  qed
qed

lemma scan_length_all:
  "(\<forall>s v r. scan_value n s = Some (v, r) \<longrightarrow> length r < length s) \<and>
   (\<forall>s ms r. scan_members n s = Some (ms, r) \<longrightarrow> length r < length s) \<and>
   (\<forall>s vs r. scan_elements n s = Some (vs, r) \<longrightarrow> length r < length s)"
proof (induction n)
  case (Suc n)
  have "length r < length s" if "scan_value (Suc n) s = Some (v, r)" for s v r
    using that
  proof (cases rule: scan_value_SucE)
    case (members t d r1 ms m)
    with Suc.IH skip_ws_length [of t] show ?thesis by fastforce
  next
    case (elements t d r1 vs)
    with Suc.IH skip_ws_length [of t] show ?thesis by fastforce
  qed (auto dest: scan_string_length scan_atom_length skip_ws_Cons)
  moreover have "length r < length s" if "scan_members (Suc n) s = Some (ms, r)" for s ms r
    using that
  proof (cases rule: scan_members_SucE)
    case (last k v r0 r1)
    with Suc.IH skip_ws_Cons [of r1] scan_name_length [of s] show ?thesis by fastforce
  next
    case (next_member k v r0 r1 r2 ms')
    with Suc.IH skip_ws_Cons [of r1] scan_name_length [of s k r0] have "length (skip_ws r2) < length s"
      using skip_ws_length [of r2] by fastforce
    moreover from next_member Suc.IH have "length r < length (skip_ws r2)" by blast
    ultimately show ?thesis by simp
  qed
  moreover have "length r < length s" if "scan_elements (Suc n) s = Some (vs, r)" for s vs r
    using that
  proof (cases rule: scan_elements_SucE)
    case (last v r1)
    with Suc.IH skip_ws_Cons [of r1] show ?thesis by fastforce
  next
    case (next_element v r1 r2 vs')
    with Suc.IH skip_ws_Cons [of r1] have "length (skip_ws r2) < length s"
      using skip_ws_length [of r2] by fastforce
    moreover from next_element Suc.IH have "length r < length (skip_ws r2)" by blast
    ultimately show ?thesis by simp
  qed
  ultimately show ?case by blast
qed simp

lemmas scan_length = scan_length_all [THEN conjunct1, rule_format]
  scan_length_all [THEN conjunct2, THEN conjunct1, rule_format]
  scan_length_all [THEN conjunct2, THEN conjunct2, rule_format]

text \<open>Any fuel above twice the length gives the same answer: the scanner never fails for want of it.\<close>

lemma scan_fuel_step:
  "(2 * length s < n \<longrightarrow> scan_value (Suc n) s = scan_value n s) \<and>
   (2 * length s < n \<longrightarrow> scan_members (Suc n) s = scan_members n s) \<and>
   (2 * length s + 1 < n \<longrightarrow> scan_elements (Suc n) s = scan_elements n s)"
proof (induction n arbitrary: s)
  case (Suc n)
  note ih = Suc.IH [THEN conjunct1, rule_format] Suc.IH [THEN conjunct2, THEN conjunct1, rule_format]
    Suc.IH [THEN conjunct2, THEN conjunct2, rule_format]
  have v: "scan_value (Suc (Suc n)) s = scan_value (Suc n) s" if l: "2 * length s < Suc n"
  proof (cases s)
    case (Cons c t)
    have "scan_members (Suc n) (d # r) = scan_members n (d # r) \<and>
        scan_elements (Suc n) (d # r) = scan_elements n (d # r)" if "skip_ws t = d # r" for d r
      using skip_ws_length [of t] that l Cons by (intro conjI ih) simp_all
    then show ?thesis using Cons
      by (simp add: scan_value.simps del: scan_members.simps scan_elements.simps split: list.split)
  qed simp
  have m: "scan_members (Suc (Suc n)) s = scan_members (Suc n) s" if l: "2 * length s < Suc n"
  proof (cases "scan_name s")
    case (Some kr)
    obtain k r where k: "scan_name s = Some (k, r)" using Some by (cases kr) simp
    then have vr: "scan_value (Suc n) r = scan_value n r"
      using l scan_name_length [OF k] by (intro ih) simp
    have "scan_members (Suc n) (skip_ws r2) = scan_members n (skip_ws r2)"
      if "scan_value n r = Some (w, r1)" "skip_ws r1 = d # r2" for w r1 d r2
      using l scan_name_length [OF k] scan_length(1) [OF that(1)] skip_ws_Cons [OF that(2)] skip_ws_length [of r2]
      by (intro ih) simp
    then show ?thesis
      unfolding scan_members.simps(2) [of "Suc n"] scan_members.simps(2) [of n] k option.case prod.case vr
      by (simp del: scan_members.simps scan_value.simps split: option.split list.split prod.split)
  qed simp
  have e: "scan_elements (Suc (Suc n)) s = scan_elements (Suc n) s" if l: "2 * length s + 1 < Suc n"
  proof -
    have vs: "scan_value (Suc n) s = scan_value n s" using l by (intro ih) simp
    have "scan_elements (Suc n) (skip_ws r2) = scan_elements n (skip_ws r2)"
      if "scan_value n s = Some (w, r1)" "skip_ws r1 = d # r2" for w r1 d r2
      using l scan_length(1) [OF that(1)] skip_ws_Cons [OF that(2)] skip_ws_length [of r2]
      by (intro ih) simp
    then show ?thesis
      unfolding scan_elements.simps(2) [of "Suc n"] scan_elements.simps(2) [of n] vs
      by (simp del: scan_elements.simps scan_value.simps split: option.split list.split prod.split)
  qed
  from v m e show ?case by blast
qed simp

lemma scan_value_fuel: "2 * length s < n \<Longrightarrow> 2 * length s < m \<Longrightarrow> scan_value n s = scan_value m s"
proof -
  have "scan_value (k + Suc (2 * length s)) s = scan_value (Suc (2 * length s)) s" for k
    by (induction k) (use scan_fuel_step in \<open>simp_all del: scan_value.simps\<close>)
  then show "2 * length s < n \<Longrightarrow> 2 * length s < m \<Longrightarrow> ?thesis"
    by (metis Suc_leI le_add_diff_inverse2)
qed

section \<open>UTF-8: reading back\<close>

lemma of_char_char_of [simp]: "0 \<le> x \<Longrightarrow> x < 256 \<Longrightarrow> of_char (char_of x :: char) = (x :: int)"
  by simp

lemma of_char_range: "0 \<le> (of_char c :: int) \<and> (of_char c :: int) < 256"
proof -
  have "(of_char c :: int) = int (of_char c)" by (rule of_nat_of_char [symmetric])
  then show ?thesis using nat_of_char_less_256 [of c] by linarith
qed

lemma utf8_enc_parts:
  assumes "c = x * 64 + y" "0 \<le> y" "y < 64" "x = u * 64 + v" "0 \<le> v" "v < 64" "u = h * 64 + w" "0 \<le> w" "w < 64"
  shows "utf8_enc c =
    (if c < 0x80 then [char_of c]
     else if c < 0x800 then [char_of (0xC0 + x), char_of (0x80 + y)]
     else if c < 0x10000 then [char_of (0xE0 + u), char_of (0x80 + v), char_of (0x80 + y)]
     else [char_of (0xF0 + h), char_of (0x80 + w), char_of (0x80 + v), char_of (0x80 + y)])"
proof -
  have "c div 64 = x" "c mod 64 = y" using assms(1-3) by simp_all
  moreover have "x div 64 = u" "x mod 64 = v" using assms(4-6) by simp_all
  moreover have "u div 64 = h" "u mod 64 = w" using assms(7-9) by simp_all
  ultimately show ?thesis by (simp add: utf8_enc_def)
qed

lemma base64_split: obtains x y :: int where "c = x * 64 + y" "0 \<le> y" "y < 64"
  by (rule that [of "c div 64" "c mod 64"]) simp_all

lemma utf8_dec_enc:
  assumes "code_point c"
  shows "utf8_dec (byte_vals (utf8_enc c) @ s) = map_option (Cons c) (utf8_dec s)"
proof -
  have c: "0 \<le> c" "c \<le> 0x10FFFF" using assms by (simp_all add: code_point_def)
  obtain x y where y: "c = x * 64 + y" "0 \<le> y" "y < 64" by (rule base64_split)
  obtain u v where v: "x = u * 64 + v" "0 \<le> v" "v < 64" by (rule base64_split)
  obtain h w where w: "u = h * 64 + w" "0 \<le> w" "w < 64" by (rule base64_split)
  note enc = utf8_enc_parts [OF y v w]
  consider "c < 0x80" | "0x80 \<le> c \<and> c < 0x800" | "0x800 \<le> c \<and> c < 0x10000" | "0x10000 \<le> c" by linarith
  then show ?thesis
  proof cases
    case 1
    then show ?thesis using c by (simp add: utf8_enc_def byte_vals_def utf8_head_def)
  next
    case 2
    then have "2 \<le> x" "x < 32" using y by auto
    with enc 2 y(2,3) have "utf8_dec (byte_vals (utf8_enc c) @ s) = map_option (Cons (x * 64 + y)) (utf8_dec s)"
      by (simp add: byte_vals_def cont_byte_def utf8_head_def)
    then show ?thesis using y by simp
  next
    case 3
    then have "0 \<le> u" "u < 16" "u = 0 \<longrightarrow> 32 \<le> v" using y v by auto
    with enc 3 y(2,3) v(2,3)
    have "utf8_dec (byte_vals (utf8_enc c) @ s) = map_option (Cons ((u * 64 + v) * 64 + y)) (utf8_dec s)"
      by (simp add: byte_vals_def cont_byte_def utf8_head_def)
    then show ?thesis using y v by simp
  next
    case 4
    then have "0 \<le> h" "h \<le> 4" "h = 0 \<longrightarrow> 16 \<le> w" "h = 4 \<longrightarrow> w \<le> 15" using c y v w by auto
    with enc 4 y(2,3) v(2,3) w(2,3)
    have "utf8_dec (byte_vals (utf8_enc c) @ s) = map_option (Cons (((h * 64 + w) * 64 + v) * 64 + y)) (utf8_dec s)"
      by (simp add: byte_vals_def cont_byte_def utf8_head_def)
    then show ?thesis using y v w by simp
  qed
qed

lemma byte_vals_append [simp]: "byte_vals (s @ t) = byte_vals s @ byte_vals t"
  by (simp add: byte_vals_def)

lemma utf8_dec_text: "list_all code_point cs \<Longrightarrow> utf8_dec (byte_vals (encode_text cs)) = Some cs"
proof (induction cs)
  case (Cons c cs)
  then show ?case using utf8_dec_enc [of c "byte_vals (encode_text cs)"] by (simp add: encode_text_def)
qed (simp add: encode_text_def byte_vals_def)

lemma code_points_encode [simp]: "list_all code_point cs \<Longrightarrow> code_points (encode_text cs) = Some cs"
  by (simp add: code_points_def utf8_dec_text)

lemma utf8_head_sound:
  assumes "utf8_head a s = Some (c, r)" and "list_all (\<lambda>b. 0 \<le> b \<and> b < 256) (a # s)"
  shows "utf8_enc c @ map char_of r = map char_of (a # s) \<and> code_point c"
proof -
  consider (one) "a < 0x80" | (two) "\<not> a < 0x80" "a < 0xE0" | (three) "\<not> a < 0xE0" "a < 0xF0" | (four) "\<not> a < 0xF0"
    by linarith
  then show ?thesis
  proof cases
    case one
    with assms show ?thesis by (simp add: utf8_head_def utf8_enc_def code_point_def)
  next
    case two
    with assms obtain b where b: "s = b # r" "0xC2 \<le> a" "cont_byte b" "c = (a - 0xC0) * 64 + (b - 0x80)"
      by (auto simp: utf8_head_def split: list.splits if_splits)
    define x y where "x = a - 0xC0" and "y = b - 0x80"
    with two b have r: "c = x * 64 + y" "2 \<le> x" "x < 32" "0 \<le> y" "y < 64" "a = 0xC0 + x" "b = 0x80 + y"
      by (auto simp: cont_byte_def)
    then have "x div 64 = 0" "x mod 64 = x" "0x80 \<le> c" "c < 0x800" by auto
    with utf8_enc_parts [of c x y 0 x 0 0] r b show ?thesis by (simp add: code_point_def)
  next
    case three
    with assms obtain b d where b: "s = b # d # r" "cont_byte b" "a = 0xE0 \<longrightarrow> 0xA0 \<le> b" "cont_byte d"
        "c = ((a - 0xE0) * 64 + (b - 0x80)) * 64 + (d - 0x80)"
      by (auto simp: utf8_head_def split: list.splits if_splits)
    define x y z where "x = a - 0xE0" and "y = b - 0x80" and "z = d - 0x80"
    with three b have r: "c = (x * 64 + y) * 64 + z" "0 \<le> x" "x < 16" "0 \<le> y" "y < 64" "0 \<le> z" "z < 64"
        "x = 0 \<longrightarrow> 32 \<le> y" "a = 0xE0 + x" "b = 0x80 + y" "d = 0x80 + z"
      by (auto simp: cont_byte_def)
    then have "0x800 \<le> c" "c < 0x10000" by auto
    with utf8_enc_parts [of c "x * 64 + y" z x y 0 x] r b show ?thesis by (simp add: code_point_def)
  next
    case four
    with assms obtain b d e where b: "s = b # d # e # r" "a \<le> 0xF4" "cont_byte b" "a = 0xF0 \<longrightarrow> 0x90 \<le> b"
        "a = 0xF4 \<longrightarrow> b \<le> 0x8F" "cont_byte d" "cont_byte e"
        "c = (((a - 0xF0) * 64 + (b - 0x80)) * 64 + (d - 0x80)) * 64 + (e - 0x80)"
      by (auto simp: utf8_head_def split: list.splits if_splits)
    define x y z w where "x = a - 0xF0" and "y = b - 0x80" and "z = d - 0x80" and "w = e - 0x80"
    with four b have r: "c = ((x * 64 + y) * 64 + z) * 64 + w" "0 \<le> x" "x \<le> 4" "0 \<le> y" "y < 64" "0 \<le> z" "z < 64"
        "0 \<le> w" "w < 64" "x = 0 \<longrightarrow> 16 \<le> y" "x = 4 \<longrightarrow> y \<le> 15"
        "a = 0xF0 + x" "b = 0x80 + y" "d = 0x80 + z" "e = 0x80 + w"
      by (auto simp: cont_byte_def)
    then have "0x10000 \<le> c" "c \<le> 0x10FFFF" by auto
    with utf8_enc_parts [of c "(x * 64 + y) * 64 + z" w "x * 64 + y" z x y] r b show ?thesis
      by (simp add: code_point_def)
  qed
qed

lemma utf8_head_subset: "utf8_head a s = Some (c, r) \<Longrightarrow> set r \<subseteq> set s"
  by (auto simp: utf8_head_def split: if_splits list.splits)

lemma utf8_dec_sound:
  "utf8_dec bs = Some cs \<Longrightarrow> list_all (\<lambda>b. 0 \<le> b \<and> b < 256) bs \<Longrightarrow>
   encode_text cs = map char_of bs \<and> list_all code_point cs"
proof (induction bs arbitrary: cs rule: utf8_dec.induct)
  case (2 a s)
  then obtain c r cs' where h: "utf8_head a s = Some (c, r)" and d: "utf8_dec r = Some cs'" and "cs = c # cs'"
    by (auto split: option.splits)
  moreover have "list_all (\<lambda>b. 0 \<le> b \<and> b < 256) r"
    using "2.prems"(2) utf8_head_subset [OF h] by (auto simp: list_all_iff)
  ultimately show ?case
    using "2.IH" [OF h refl d] utf8_head_sound [OF h "2.prems"(2)] by (simp add: encode_text_def)
qed (simp add: encode_text_def)

lemma code_points_sound:
  assumes "code_points s = Some cs"
  shows "encode_text cs = s" "list_all code_point cs"
proof -
  have "list_all (\<lambda>b. 0 \<le> b \<and> b < 256) (byte_vals s)"
    using of_char_range by (auto simp: byte_vals_def list_all_iff)
  moreover have "map char_of (byte_vals s) = s" by (simp add: byte_vals_def comp_def)
  ultimately show "encode_text cs = s" "list_all code_point cs"
    using utf8_dec_sound [of "byte_vals s" cs] assms by (simp_all add: code_points_def)
qed

section \<open>Printed text reads back\<close>

lemma hex_digit_char: "0 \<le> d \<Longrightarrow> d < 16 \<Longrightarrow> hex_digit (of_char (hex_char d)) = Some d"
  by (simp add: hex_char_def hex_digit_def)

lemma hex4_u_escape:
  assumes "0 \<le> c" "c < 0x10000"
  shows "hex4 (of_char (hex_char (c div 16 div 16 div 16))) (of_char (hex_char (c div 16 div 16 mod 16)))
    (of_char (hex_char (c div 16 mod 16))) (of_char (hex_char (c mod 16))) = Some c"
proof -
  define x y z where "x = c div 16" and "y = x div 16" and "z = y div 16"
  have "c = x * 16 + c mod 16" "x = y * 16 + x mod 16" "y = z * 16 + y mod 16"
    by (simp_all add: x_def y_def z_def)
  then have "z * 4096 + y mod 16 * 256 + x mod 16 * 16 + c mod 16 = c" by linarith
  moreover have "0 \<le> z" "z < 16" using assms unfolding x_def y_def z_def by auto
  ultimately show ?thesis
    by (simp add: hex4_def hex_digit_char x_def [symmetric] y_def [symmetric] z_def [symmetric])
qed

lemma scan_u_escape_one:
  assumes "0 \<le> c" "c < 0x10000" "\<not> high_surrogate c"
  shows "scan_u_escape (tl (tl (byte_vals (u_escape c))) @ r) = Some (c, r)"
  using assms hex4_u_escape [of c] by (simp add: u_escape_def byte_vals_def scan_u_escape_def)

lemma low_escape_u_escape:
  assumes "low_surrogate c"
  shows "low_escape (byte_vals (u_escape c) @ r) = Some c"
  using assms hex4_u_escape [of c]
  by (simp add: u_escape_def byte_vals_def low_escape_def low_surrogate_def)

lemma scan_u_escape_two:
  assumes "0x10000 \<le> c" "c \<le> 0x10FFFF"
  defines "h \<equiv> 0xD800 + (c - 0x10000) div 1024" and "l \<equiv> 0xDC00 + (c - 0x10000) mod 1024"
  shows "scan_u_escape (tl (tl (byte_vals (u_escape h))) @ byte_vals (u_escape l) @ r) = Some (c, r)"
proof -
  have h: "0 \<le> h" "h < 0x10000" "high_surrogate h" and l: "low_surrogate l"
    using assms by (auto simp: h_def l_def high_surrogate_def low_surrogate_def)
  have "join_surrogates h l = c"
    unfolding join_surrogates_def h_def l_def by simp
  moreover have "drop 6 (byte_vals (u_escape l) @ r) = r" by (simp add: u_escape_def byte_vals_def)
  ultimately show ?thesis
    using h hex4_u_escape [OF h(1,2)] low_escape_u_escape [OF l, of r]
    by (simp add: u_escape_def [of h] byte_vals_def [of "_ # _"] scan_u_escape_def)
qed

lemma u_escape_head: "byte_vals (u_escape c) = 92 # 117 # tl (tl (byte_vals (u_escape c)))"
  by (simp add: u_escape_def byte_vals_def)

lemma scan_string_escape:
  assumes "code_point c" "\<not> surrogate c"
  shows "scan_string (byte_vals (escape_char c) @ s) = push c (scan_string s)"
proof -
  consider (plain) "32 \<le> c" "c \<le> 126" "c \<noteq> 34" "c \<noteq> 92" | (short) "c \<in> {34, 92, 8, 12, 10, 13, 9}"
    | (one) "c < 0x10000" "\<not> (32 \<le> c \<and> c \<le> 126 \<and> c \<noteq> 34 \<and> c \<noteq> 92)" "c \<notin> {34, 92, 8, 12, 10, 13, 9}"
    | (two) "0x10000 \<le> c" by force
  then show ?thesis
  proof cases
    case plain
    then show ?thesis by (simp add: escape_char_def byte_vals_def)
  next
    case short
    then show ?thesis
      by (auto simp: escape_char_def byte_vals_def scan_escape_def simple_escape_def)
  next
    case one
    then have e: "escape_char c = u_escape c" by (auto simp: escape_char_def)
    have "scan_u_escape (tl (tl (byte_vals (u_escape c))) @ s) = Some (c, s)"
      using one assms by (intro scan_u_escape_one) (auto simp: code_point_def surrogate_def high_surrogate_def)
    then show ?thesis unfolding e by (subst u_escape_head) (simp add: scan_escape_def)
  next
    case two
    let ?h = "0xD800 + (c - 0x10000) div 1024" and ?l = "0xDC00 + (c - 0x10000) mod 1024"
    have e: "escape_char c = u_escape ?h @ u_escape ?l" using two by (simp add: escape_char_def)
    have "scan_u_escape (tl (tl (byte_vals (u_escape ?h))) @ byte_vals (u_escape ?l) @ s) = Some (c, s)"
      using two assms by (intro scan_u_escape_two) (auto simp: code_point_def)
    then show ?thesis unfolding e byte_vals_append by (subst u_escape_head) (simp add: scan_escape_def)
  qed
qed

lemma scan_string_dump:
  assumes "list_all (\<lambda>c. code_point c \<and> \<not> surrogate c) cs"
  shows "scan_string (byte_vals (concat (map escape_char cs)) @ 34 # r) = Some (cs, r)"
  using assms
proof (induction cs)
  case Nil
  then show ?case by (simp add: byte_vals_def)
next
  case (Cons c cs)
  then show ?case
    using scan_string_escape [of c "byte_vals (concat (map escape_char cs)) @ 34 # r"]
    by (simp add: push_def del: scan_string.simps)
qed

lemma dump_string_vals: "byte_vals (dump_string s) @ r = 34 #
    byte_vals (concat (map escape_char (case code_points s of None \<Rightarrow> [] | Some cs \<Rightarrow> cs))) @ 34 # r"
  by (simp add: dump_string_def byte_vals_def)

lemma encodableE:
  assumes "encodable s"
  obtains cs where "code_points s = Some cs" "list_all (\<lambda>c. code_point c \<and> \<not> surrogate c) cs" "encode_text cs = s"
proof -
  from assms obtain cs where cs: "code_points s = Some cs" and "list_all (\<lambda>c. \<not> surrogate c) cs"
    by (auto simp: encodable_def split: option.splits)
  with code_points_sound [OF cs] that show ?thesis by (auto simp: list_all_iff)
qed

text \<open>What follows a printed value never extends it.\<close>

definition closes :: "int list \<Rightarrow> bool" where
  "closes r = (case r of [] \<Rightarrow> True | c # _ \<Rightarrow> c = 44 \<or> c = 93 \<or> c = 125)"

lemma closes_simps [simp]: "closes []" "closes (c # r) \<longleftrightarrow> c = 44 \<or> c = 93 \<or> c = 125"
  by (simp_all add: closes_def)

lemma split_digits_append:
  assumes "closes r"
  shows "takeWhile digit (s @ r) = takeWhile digit s" "dropWhile digit (s @ r) = dropWhile digit s @ r"
proof -
  have "takeWhile digit r = []" "dropWhile digit r = r"
    using assms by (cases r; auto simp: digit_def)+
  then show "takeWhile digit (s @ r) = takeWhile digit s" "dropWhile digit (s @ r) = dropWhile digit s @ r"
    by (induction s) auto
qed

lemma scan_frac_append: "closes r \<Longrightarrow> scan_frac (s @ r) = map_prod id (\<lambda>t. t @ r) (scan_frac s)"
  by (cases s; cases r) (auto simp: scan_frac_def split_digits_def split_digits_append)

lemma exp_sign_append: "closes r \<Longrightarrow> exp_sign (s @ r) = map_prod id (\<lambda>t. t @ r) (exp_sign s)"
  by (cases s; cases r) (auto simp: exp_sign_def)

lemma scan_exp_append: "closes r \<Longrightarrow> scan_exp (s @ r) = map_prod id (\<lambda>t. t @ r) (scan_exp s)"
  by (cases s; cases r) (auto simp: scan_exp_def exp_sign_append split_digits_append split: prod.splits)

lemma scan_whole_append:
  "closes r \<Longrightarrow> scan_whole s = Some (ip, t) \<Longrightarrow> scan_whole (s @ r) = Some (ip, t @ r)"
  by (cases s) (auto simp: scan_whole_def split_digits_def split_digits_append split: if_splits)

lemma num_sign_append: "closes r \<Longrightarrow> num_sign (s @ r) = map_prod id (\<lambda>t. t @ r) (num_sign s)"
  by (cases s; cases r) (auto simp: num_sign_def)

lemma scan_number_append:
  assumes "closes r" and "scan_number s = Some (v, t)"
  shows "scan_number (s @ r) = Some (v, t @ r)"
  using assms(2) scan_whole_append [OF assms(1)] unfolding scan_number_eq_Some
  by (force simp: num_sign_append [OF assms(1)] scan_frac_append [OF assms(1)] scan_exp_append [OF assms(1)])

lemma scan_number_head:
  assumes "scan_number s = Some (v, t)"
  obtains c r where "s = c # r" "digit c \<or> c = 45"
proof -
  from assms obtain neg s1 ip s2 where n: "num_sign s = (neg, s1)" and w: "scan_whole s1 = Some (ip, s2)"
    unfolding scan_number_eq_Some by blast
  then have "s1 \<noteq> [] \<and> digit (hd s1)" by (auto simp: scan_whole_def digit_def split: list.splits if_splits)
  with n that show ?thesis by (cases s) (auto simp: num_sign_def split: if_splits)
qed

lemma scan_atom_number:
  assumes "scan_number s = Some (v, t)"
  shows "scan_atom s = Some (v, t)"
proof -
  obtain c r where "s = c # r" "digit c \<or> c = 45" using assms by (rule scan_number_head)
  then show ?thesis using assms
    by (auto simp: scan_atom_def word_null_def word_true_def word_false_def digit_def)
qed

text \<open>Decimal text.\<close>

lemma digits_val_snoc: "digits_val (ds @ [d]) = 10 * digits_val ds + (d - 48)"
  by (simp add: digits_val_def)

lemma digits_val_dec_nat: "digits_val (byte_vals (dec_nat n)) = int n"
proof (induction n rule: dec_nat.induct)
  case (1 n)
  show ?case
  proof (cases "n < 10")
    case True
    then show ?thesis by (subst dec_nat.simps) (simp add: digits_val_def byte_vals_def of_char_digit_char_int)
  next
    case False
    have "10 * int (n div 10) + int (n mod 10) = int n" by presburger
    with 1 False show ?thesis
      by (subst dec_nat.simps) (simp add: digits_val_snoc byte_vals_def of_char_digit_char_int)
  qed
qed

lemma dec_nat_bytes: "list_all digit (byte_vals (dec_nat n))"
proof -
  have "digit (of_char c)" if "is_digit c" for c
  proof -
    have "(of_char c :: int) = int (of_char c)" by (rule of_nat_of_char [symmetric])
    with that show ?thesis by (simp add: digit_def is_digit_def less_eq_char_def)
  qed
  with dec_nat_digits [of n] show ?thesis by (auto simp: byte_vals_def list_all_iff)
qed

lemma dec_nat_head: "0 < n \<Longrightarrow> \<exists>c t. byte_vals (dec_nat n) = c # t \<and> c \<noteq> 48"
proof (induction n rule: dec_nat.induct)
  case (1 n)
  show ?case
  proof (cases "n < 10")
    case True
    then show ?thesis using "1.prems" by (subst dec_nat.simps) (simp add: byte_vals_def of_char_digit_char_int)
  next
    case False
    with "1.IH" obtain c t where "byte_vals (dec_nat (n div 10)) = c # t" "c \<noteq> 48" by (auto simp: div_greater_zero_iff)
    with False show ?thesis by (subst dec_nat.simps) simp
  qed
qed

lemma scan_whole_dec: "scan_whole (byte_vals (dec_nat n)) = Some (byte_vals (dec_nat n), [])"
proof (cases "n = 0")
  case True
  then show ?thesis by (subst (1 2) dec_nat.simps) (simp add: byte_vals_def scan_whole_def of_char_digit_char_int)
next
  case False
  then obtain c t where "byte_vals (dec_nat n) = c # t" "c \<noteq> 48" using dec_nat_head by blast
  with dec_nat_bytes [of n] show ?thesis by (simp add: scan_whole_def split_digits_def list_all_iff takeWhile_eq_all_conv [THEN iffD2])
qed

lemma scan_number_dec:
  assumes "length (dec i) \<le> 256"
  shows "scan_number (byte_vals (dec i)) = Some (JInt i, [])"
proof -
  let ?ds = "byte_vals (dec_nat (nat \<bar>i\<bar>))"
  obtain c t where c: "?ds = c # t" "c \<noteq> 45"
    using dec_nat_bytes [of "nat \<bar>i\<bar>"] by (cases ?ds) (auto simp: digit_def byte_vals_def)
  have "num_sign (byte_vals (dec i)) = (i < 0, ?ds)"
    using c by (cases "i < 0") (auto simp: dec_def num_sign_def byte_vals_def split: list.splits)
  moreover have "number_value (i < 0) ?ds [] None = Some (JInt i)"
    using assms digits_val_dec_nat [of "nat \<bar>i\<bar>"]
    by (auto simp: number_value_def dec_def byte_vals_def signed_def)
  ultimately show ?thesis
    unfolding scan_number_eq_Some using scan_whole_dec by (force simp: scan_frac_def scan_exp_def)
qed

text \<open>
  Values whose printed text reads back: strings without surrogates, whole numbers of at most 256
  characters, members named once, and floats whose \<open>repr\<close> is a JSON number that \<open>float\<close> maps
  back to them.
\<close>

definition ascii :: "string \<Rightarrow> bool" where
  "ascii s = list_all (\<lambda>b. 0 < b \<and> b < 128) (byte_vals s)"

fun printable :: "(pyfloat \<Rightarrow> string) \<Rightarrow> json \<Rightarrow> bool" where
  "printable repr (JInt i) = (length (dec i) \<le> 256)"
| "printable repr (JFloat f) = (scan_number (byte_vals (repr f)) = Some (JFloat f, []) \<and> ascii (repr f))"
| "printable repr (JStr s) = encodable s"
| "printable repr (JArr xs) = list_all (printable repr) xs"
| "printable repr (JObj m) = (distinct (map fst m) \<and> list_all (\<lambda>kv. encodable (fst kv) \<and> printable repr (snd kv)) m)"
| "printable repr _ = True"

lemma pairs_distinct: "pairs m = (if distinct (map fst m) then Some m else None)"
proof -
  have "pairs_from acc m = (if distinct (map fst (acc @ m)) then Some (acc @ m) else None)"
    if "distinct (map fst acc)" for acc
    using that
  proof (induction acc m rule: pairs_from.induct)
    case (2 res k v rest)
    then show ?case by (auto simp: map_of_eq_None_iff)
  qed simp
  from this [of "[]"] show ?thesis by (simp add: pairs_def)
qed

lemma skip_ws_head: "c \<notin> {32, 9, 10, 13} \<Longrightarrow> skip_ws (c # s) = c # s"
  by (simp add: skip_ws_def)

lemma dumps_head:
  assumes "printable repr v"
  obtains c t where "byte_vals (json_dumps repr v) = c # t" "c \<notin> {32, 9, 10, 13, 93, 125, 44}"
proof (cases "\<exists>w. scan_number (byte_vals (json_dumps repr v)) = Some (w, [])")
  case True
  then obtain w where "scan_number (byte_vals (json_dumps repr v)) = Some (w, [])" by blast
  then obtain c r where "byte_vals (json_dumps repr v) = c # r" "digit c \<or> c = 45" by (rule scan_number_head)
  then show ?thesis by (intro that [of c r]) (auto simp: digit_def)
next
  case False
  then show ?thesis using assms that scan_number_dec
    by (cases v) (auto simp: byte_vals_def dump_string_def split: if_splits)
qed

lemma scan_name_dump:
  assumes "encodable k" and "skip_ws r = r"
  shows "scan_name (byte_vals (dump_string k) @ 58 # r) = Some (k, r)"
proof -
  obtain cs where cs: "code_points k = Some cs" "list_all (\<lambda>c. code_point c \<and> \<not> surrogate c) cs" "encode_text cs = k"
    using assms(1) by (rule encodableE)
  from scan_string_dump [OF cs(2), of "58 # r"] cs assms(2) show ?thesis
    unfolding dump_string_vals by (simp add: scan_name_def skip_ws_head)
qed

definition reads_back :: "(pyfloat \<Rightarrow> string) \<Rightarrow> json \<Rightarrow> bool" where
  "reads_back repr v = (\<forall>n r. closes r \<longrightarrow> 2 * length (byte_vals (json_dumps repr v) @ r) < n \<longrightarrow>
     scan_value n (byte_vals (json_dumps repr v) @ r) = Some (v, r))"

lemma length_byte_vals [simp]: "length (byte_vals s) = length s"
  by (simp add: byte_vals_def)

lemma reads_backI:
  assumes "\<And>n r. closes r \<Longrightarrow> 2 * length (byte_vals (json_dumps repr v) @ r) \<le> n \<Longrightarrow> scan_value (Suc n) (byte_vals (json_dumps repr v) @ r) = Some (v, r)"
  shows "reads_back repr v"
  unfolding reads_back_def
proof (intro allI impI)
  fix n r
  assume a: "closes r" "2 * length (byte_vals (json_dumps repr v) @ r) < n"
  then obtain k where "n = Suc k" "2 * length (byte_vals (json_dumps repr v) @ r) \<le> k" by (cases n) auto
  with assms [OF a(1), of k] show "scan_value n (byte_vals (json_dumps repr v) @ r) = Some (v, r)" by simp
qed

lemma reads_backD:
  "reads_back repr v \<Longrightarrow> closes r \<Longrightarrow> 2 * length (byte_vals (json_dumps repr v) @ r) < n \<Longrightarrow>
   scan_value n (byte_vals (json_dumps repr v) @ r) = Some (v, r)"
  by (simp add: reads_back_def)

lemma scan_elements_dump:
  assumes "xs \<noteq> []" and "\<And>x. x \<in> set xs \<Longrightarrow> reads_back repr x \<and> printable repr x"
    and "2 * length (byte_vals (join_with '','' (map (json_dumps repr) xs)) @ 93 # r) + 1 < n"
  shows "scan_elements n (byte_vals (join_with '','' (map (json_dumps repr) xs)) @ 93 # r) = Some (xs, r)"
  using assms
proof (induction xs arbitrary: n)
  case (Cons x xs)
  obtain m where n: "n = Suc m" using Cons.prems(3) by (cases n) auto
  show ?case
  proof (cases xs)
    case Nil
    with Cons.prems n have "scan_value m (byte_vals (json_dumps repr x) @ 93 # r) = Some (x, 93 # r)"
      by (intro reads_backD) auto
    with Nil n show ?thesis by (simp add: skip_ws_head del: scan_value.simps)
  next
    case (Cons y ys)
    let ?rest = "byte_vals (join_with '','' (map (json_dumps repr) xs)) @ 93 # r"
    have j: "byte_vals (join_with '','' (map (json_dumps repr) (x # xs))) @ 93 # r =
        byte_vals (json_dumps repr x) @ 44 # ?rest"
      using \<open>xs = y # ys\<close> by (simp add: byte_vals_def)
    obtain c t where "byte_vals (json_dumps repr y) = c # t" "c \<notin> {32, 9, 10, 13, 93, 125, 44}"
      using Cons.prems(2) [of y] \<open>xs = y # ys\<close> dumps_head [of repr y] by (metis list.set_intros(1,2))
    then have w: "skip_ws ?rest = ?rest"
      using \<open>xs = y # ys\<close> by (cases ys) (simp_all add: skip_ws_head)
    have "scan_value m (byte_vals (json_dumps repr x) @ 44 # ?rest) = Some (x, 44 # ?rest)"
      using Cons.prems n arg_cong [OF j, of length] by (intro reads_backD) simp_all
    moreover have "scan_elements m ?rest = Some (xs, r)"
      using Cons.prems n arg_cong [OF j, of length] \<open>xs = y # ys\<close> by (intro Cons.IH) simp_all
    ultimately show ?thesis using w unfolding j n by (simp add: skip_ws_head del: scan_value.simps)
  qed
qed simp

abbreviation dump_member :: "(pyfloat \<Rightarrow> string) \<Rightarrow> string \<times> json \<Rightarrow> string" where
  "dump_member repr kv \<equiv> dump_string (fst kv) @ '':'' @ json_dumps repr (snd kv)"

lemma scan_members_dump:
  assumes "m \<noteq> []" and "\<And>kv. kv \<in> set m \<Longrightarrow> encodable (fst kv) \<and> reads_back repr (snd kv) \<and> printable repr (snd kv)"
    and "2 * length (byte_vals (join_with '','' (map (dump_member repr) m)) @ 125 # r) < n"
  shows "scan_members n (byte_vals (join_with '','' (map (dump_member repr) m)) @ 125 # r) = Some (m, r)"
  using assms
proof (induction m arbitrary: n)
  case (Cons kv m)
  obtain l where n: "n = Suc l" using Cons.prems(3) by (cases n) auto
  have kv: "encodable (fst kv)" "reads_back repr (snd kv)" "printable repr (snd kv)" using Cons.prems(2) by auto
  obtain c t where c: "byte_vals (json_dumps repr (snd kv)) = c # t" "c \<notin> {32, 9, 10, 13, 93, 125, 44}"
    using kv(3) by (rule dumps_head)
  have name: "scan_name (byte_vals (dump_member repr kv) @ s) = Some (fst kv, byte_vals (json_dumps repr (snd kv)) @ s)" for s
    using scan_name_dump [OF kv(1), of "byte_vals (json_dumps repr (snd kv)) @ s"] c
    by (simp add: skip_ws_head byte_vals_def)
  show ?case
  proof (cases m)
    case Nil
    with Cons.prems n have "scan_value l (byte_vals (json_dumps repr (snd kv)) @ 125 # r) = Some (snd kv, 125 # r)"
      using kv by (intro reads_backD) auto
    with Nil n name show ?thesis by (simp add: skip_ws_head del: scan_value.simps byte_vals_append)
  next
    case (Cons kv' m')
    let ?rest = "byte_vals (join_with '','' (map (dump_member repr) m)) @ 125 # r"
    have j: "byte_vals (join_with '','' (map (dump_member repr) (kv # m))) @ 125 # r =
        byte_vals (dump_member repr kv) @ 44 # ?rest"
      using \<open>m = kv' # m'\<close> by (simp add: byte_vals_def)
    have w: "skip_ws ?rest = ?rest"
      using \<open>m = kv' # m'\<close> by (cases m') (simp_all add: skip_ws_head dump_string_def byte_vals_def)
    have "scan_value l (byte_vals (json_dumps repr (snd kv)) @ 44 # ?rest) = Some (snd kv, 44 # ?rest)"
      using Cons.prems(3) n arg_cong [OF j, of length] kv by (intro reads_backD) simp_all
    moreover have "scan_members l ?rest = Some (m, r)"
      using Cons.prems n arg_cong [OF j, of length] \<open>m = kv' # m'\<close> by (intro Cons.IH) simp_all
    ultimately show ?thesis using w name unfolding j n
      by (simp add: skip_ws_head del: scan_value.simps byte_vals_append)
  qed
qed simp

lemma reads_back_number:
  assumes "scan_number (byte_vals (json_dumps repr v)) = Some (v, [])"
  shows "reads_back repr v"
proof -
  obtain c t where c: "byte_vals (json_dumps repr v) = c # t" "digit c \<or> c = 45"
    using assms by (rule scan_number_head)
  have "scan_value n (byte_vals (json_dumps repr v) @ r) = Some (v, r)" if "closes r" "0 < n" for n r
  proof -
    have "scan_atom (byte_vals (json_dumps repr v) @ r) = Some (v, r)"
      using scan_number_append [OF that(1) assms] by (intro scan_atom_number) simp
    with c that(2) show ?thesis by (cases n) (auto simp: digit_def)
  qed
  then show ?thesis by (simp add: reads_back_def)
qed

lemma printable_reads_back: "printable repr v \<Longrightarrow> reads_back repr v"
proof (induction v)
  case JNull
  then show ?case by (intro reads_backI) (simp add: byte_vals_def scan_atom_def word_null_def)
next
  case (JBool b)
  then show ?case
    by (intro reads_backI) (simp add: byte_vals_def scan_atom_def word_null_def word_true_def word_false_def)
next
  case (JInt i)
  then show ?case by (intro reads_back_number) (simp add: scan_number_dec)
next
  case (JFloat f)
  then show ?case by (intro reads_back_number) simp
next
  case (JStr s)
  then have "encodable s" by simp
  then obtain cs where "code_points s = Some cs" "list_all (\<lambda>c. code_point c \<and> \<not> surrogate c) cs" "encode_text cs = s"
    by (rule encodableE)
  then show ?case unfolding json_dumps.simps
    by (intro reads_backI) (simp only: json_dumps.simps dump_string_vals, simp add: scan_string_dump)
next
  case (JArr xs)
  let ?body = "byte_vals (join_with '','' (map (json_dumps repr) xs))"
  show ?case
  proof (rule reads_backI)
    fix n r
    assume l: "2 * length (byte_vals (json_dumps repr (JArr xs)) @ r) \<le> n"
    have t: "byte_vals (json_dumps repr (JArr xs)) @ r = 91 # ?body @ 93 # r" by (simp add: byte_vals_def)
    show "scan_value (Suc n) (byte_vals (json_dumps repr (JArr xs)) @ r) = Some (JArr xs, r)"
    proof (cases xs)
      case Nil
      then show ?thesis by (simp add: byte_vals_def skip_ws_head)
    next
      case (Cons x ys)
      have p: "\<And>y. y \<in> set xs \<Longrightarrow> reads_back repr y \<and> printable repr y"
        using JArr by (simp add: list_all_iff)
      then obtain c u where "byte_vals (json_dumps repr x) = c # u" "c \<notin> {32, 9, 10, 13, 93, 125, 44}"
        using Cons dumps_head [of repr x] by (metis list.set_intros(1))
      then obtain u' where u': "?body = c # u'" using Cons by (cases ys) simp_all
      have "scan_elements n (?body @ 93 # r) = Some (xs, r)"
        using Cons l p by (intro scan_elements_dump) auto
      with \<open>c \<notin> _\<close> show ?thesis unfolding t u' by (simp add: skip_ws_head del: scan_elements.simps)
    qed
  qed
next
  case (JObj m)
  let ?body = "byte_vals (join_with '','' (map (dump_member repr) m))"
  show ?case
  proof (rule reads_backI)
    fix n r
    assume l: "2 * length (byte_vals (json_dumps repr (JObj m)) @ r) \<le> n"
    have t: "byte_vals (json_dumps repr (JObj m)) @ r = 123 # ?body @ 125 # r" by (simp add: byte_vals_def)
    show "scan_value (Suc n) (byte_vals (json_dumps repr (JObj m)) @ r) = Some (JObj m, r)"
    proof (cases m)
      case Nil
      then show ?thesis by (simp add: byte_vals_def skip_ws_head)
    next
      case (Cons kv m')
      obtain u' where u': "?body = 34 # u'" using Cons by (cases m') (simp_all add: dump_string_def byte_vals_def)
      have "\<And>y. y \<in> set m \<Longrightarrow> encodable (fst y) \<and> reads_back repr (snd y) \<and> printable repr (snd y)"
        using JObj by (force simp: list_all_iff snds.simps)
      then have "scan_members n (?body @ 125 # r) = Some (m, r)"
        using Cons l by (intro scan_members_dump) auto
      moreover have "pairs m = Some m" using JObj.prems by (simp add: pairs_distinct)
      ultimately show ?thesis unfolding t u' by (simp add: skip_ws_head del: scan_members.simps)
    qed
  qed
qed

lemma ascii_simps [simp]:
  "ascii []" "ascii (s @ t) \<longleftrightarrow> ascii s \<and> ascii t"
  "ascii (c # t) \<longleftrightarrow> 0 < (of_char c :: int) \<and> (of_char c :: int) < 128 \<and> ascii t"
  by (auto simp: ascii_def byte_vals_def)

lemma ascii_join: "ascii sep \<Longrightarrow> list_all ascii xs \<Longrightarrow> ascii (join_with sep xs)"
  by (induction sep xs rule: join_with.induct) auto

lemma ascii_dec: "ascii (dec i)"
proof -
  have "ascii (dec_nat n)" for n
    using dec_nat_bytes [of n] by (auto simp: ascii_def list_all_iff digit_def)
  then show ?thesis by (simp add: dec_def)
qed

lemma ascii_hex_char: "0 \<le> d \<Longrightarrow> d < 16 \<Longrightarrow> 0 < (of_char (hex_char d) :: int) \<and> (of_char (hex_char d) :: int) < 128"
  by (simp add: hex_char_def)

lemma ascii_u_escape: "0 \<le> c \<Longrightarrow> c < 0x10000 \<Longrightarrow> ascii (u_escape c)"
proof -
  assume c: "0 \<le> c" "c < 0x10000"
  then have "0 \<le> c div 16 div 16 div 16" "c div 16 div 16 div 16 < 16" by auto
  then show ?thesis by (simp add: u_escape_def ascii_hex_char del: of_char_of)
qed

lemma ascii_escape_char:
  assumes "code_point c"
  shows "ascii (escape_char c)"
proof (cases "0x10000 \<le> c")
  case True
  then have "ascii (u_escape (0xD800 + (c - 0x10000) div 1024))" "ascii (u_escape (0xDC00 + (c - 0x10000) mod 1024))"
    using assms by (auto intro!: ascii_u_escape simp: code_point_def)
  with True show ?thesis by (simp add: escape_char_def)
next
  case False
  then show ?thesis using assms ascii_u_escape [of c] by (auto simp: escape_char_def code_point_def)
qed

lemma ascii_escapes: "list_all code_point cs \<Longrightarrow> ascii (concat (map escape_char cs))"
  by (induction cs) (auto simp: ascii_escape_char)

lemma ascii_dump_string: "encodable s \<Longrightarrow> ascii (dump_string s)"
  by (erule encodableE) (simp add: dump_string_def ascii_escapes list_all_iff)

lemma ascii_dumps: "printable repr v \<Longrightarrow> ascii (json_dumps repr v)"
proof (induction v)
  case (JObj m)
  then show ?case by (force simp: list_all_iff ascii_dump_string snds.simps intro!: ascii_join)
qed (auto simp: ascii_dec ascii_dump_string list_all_iff intro!: ascii_join)

lemma decode_ascii:
  assumes "ascii s"
  shows "decode_bytes s = Some (byte_vals s)"
proof -
  have d: "utf8_dec bs = Some bs" if "list_all (\<lambda>b. 0 < b \<and> b < 128) bs" for bs
    using that by (induction bs) (auto simp: utf8_head_def)
  have "detect_encoding bs = (UTF8, bs)" if "list_all (\<lambda>b. 0 < b \<and> b < 128) bs" for bs
    using that by (auto simp: detect_encoding_def split: list.splits)
  with d assms show ?thesis by (simp add: decode_bytes_def ascii_def)
qed

lemma loads_dumps:
  assumes "printable repr v"
  shows "json_loads (json_dumps repr v) = Some v"
proof -
  let ?s = "byte_vals (json_dumps repr v)"
  obtain c t where "?s = c # t" "c \<notin> {32, 9, 10, 13, 93, 125, 44}" using assms by (rule dumps_head)
  then have "skip_ws ?s = ?s" by (simp add: skip_ws_head)
  moreover have "scan_value (2 * length ?s + 1) ?s = Some (v, [])"
    using reads_backD [OF printable_reads_back [OF assms], of "[]" "2 * length ?s + 1"] by simp
  ultimately show ?thesis
    using decode_ascii [OF ascii_dumps [OF assms]]
    by (simp add: json_loads_def decode_text_def skip_ws_def del: length_byte_vals scan_value.simps)
qed

end
