(* ===== verification/Transport.thy ===== *)
theory Transport
  imports JsonText
begin

text \<open>
  gateway/transport.py: the bounds on JSON values, the checks on chat requests and on provider
  responses, bounded reading of a body, and the decoder of server-sent events.

  A body arrives in chunks and ends, or its transport breaks, which raises \<open>httpx.HTTPError\<close>.
  Pydantic is not part of the repository: its lax conversion to \<open>float\<close> is a parameter of the
  request check. The messages of errors are not modelled; every refusal of a response has the
  code \<open>provider_protocol\<close>.
\<close>

section \<open>Bounds on JSON values\<close>

fun nodes :: "json \<Rightarrow> nat" where
  "nodes (JArr xs) = Suc (sum_list (map nodes xs))"
| "nodes (JObj m) = Suc (sum_list (map (\<lambda>kv. Suc (nodes (snd kv))) m))"
| "nodes _ = 1"

definition members :: "(string \<times> json) list \<Rightarrow> json list" where
  "members m = concat (map (\<lambda>kv. [JStr (fst kv), snd kv]) m)"

fun is_finite :: "pyfloat \<Rightarrow> bool" where
  "is_finite (Finite q) = True"
| "is_finite _ = False"

lemma nodes_members: "sum_list (map nodes (members m)) = sum_list (map (\<lambda>kv. Suc (nodes (snd kv))) m)"
  by (induction m) (simp_all add: members_def)

lemma nodes_stack: "sum_list (map (nodes \<circ> fst) (rev (map (\<lambda>v. (v, d)) vs))) = sum_list (map nodes vs)"
  by (simp add: rev_map [symmetric] comp_def sum_list_rev flip: rev_map)

text \<open>
  The loop of \<open>valid_json_tree\<close>. The list is the stack \<open>pending\<close> with its top first, so
  what \<open>extend\<close> appends in order is reversed here.
\<close>

function tree_loop :: "(json \<times> int) list \<Rightarrow> bool" where
  "tree_loop [] = True"
| "tree_loop ((item, depth) # pending) =
    (if 64 < depth then False
     else (case item of
        JFloat f \<Rightarrow> is_finite f \<and> tree_loop pending
      | JStr s \<Rightarrow> encodable s \<and> tree_loop pending
      | JObj m \<Rightarrow> tree_loop (rev (map (\<lambda>v. (v, depth + 1)) (members m)) @ pending)
      | JArr xs \<Rightarrow> tree_loop (rev (map (\<lambda>v. (v, depth + 1)) xs) @ pending)
      | _ \<Rightarrow> tree_loop pending))"
  by pat_completeness auto
termination
  by (relation "measure (\<lambda>p. sum_list (map (nodes \<circ> fst) p))")
    (simp_all only: nodes_stack nodes_members map_append sum_list_append in_measure, simp_all)

definition valid_json_tree :: "json \<Rightarrow> json option" where
  "valid_json_tree v = (if tree_loop [(v, 0)] then Some v else None)"

definition strict_json :: "string \<Rightarrow> json option" where
  "strict_json raw = (case json_loads raw of None \<Rightarrow> None | Some v \<Rightarrow> valid_json_tree v)"

section \<open>Chat requests\<close>

definition roles :: "string list" where
  "roles = [''system'', ''developer'', ''user'', ''assistant'', ''tool'', ''function'']"

definition missing :: "json option \<Rightarrow> bool" where
  "missing v = (v = None \<or> v = Some JNull)"

fun dict_list :: "json \<Rightarrow> bool" where
  "dict_list (JArr xs) = list_all is_dict xs"
| "dict_list _ = False"

definition optional :: "(json \<Rightarrow> bool) \<Rightarrow> json option \<Rightarrow> bool" where
  "optional p v = (case v of None \<Rightarrow> True | Some j \<Rightarrow> j = JNull \<or> p j)"

text \<open>\<open>Message.has_content\<close>.\<close>

definition has_content :: "json \<Rightarrow> bool" where
  "has_content m =
    (\<not> (missing (jget ''content'' m) \<and> \<not> truthy (jget_null ''tool_calls'' m) \<and>
        \<not> truthy (jget_null ''function_call'' m)) \<and>
     \<not> (jget ''role'' m = Some (JStr ''tool'') \<and> \<not> truthy (jget_null ''tool_call_id'' m)))"

definition message_ok :: "json \<Rightarrow> bool" where
  "message_ok m =
    (is_dict m \<and>
     (case jget ''role'' m of Some (JStr r) \<Rightarrow> r \<in> set roles | _ \<Rightarrow> False) \<and>
     optional (\<lambda>c. is_str c \<or> dict_list c) (jget ''content'' m) \<and>
     optional dict_list (jget ''tool_calls'' m) \<and>
     optional is_str (jget ''tool_call_id'' m) \<and>
     has_content m)"

definition float_between :: "(json \<Rightarrow> pyfloat option) \<Rightarrow> rat \<Rightarrow> rat \<Rightarrow> json \<Rightarrow> bool" where
  "float_between lax lo hi j = (case lax j of Some (Finite q) \<Rightarrow> lo \<le> q \<and> q \<le> hi | _ \<Rightarrow> False)"

fun positive_int :: "json \<Rightarrow> bool" where
  "positive_int (JInt i) = (0 < i)"
| "positive_int _ = False"

text \<open>The length of a string counts code points.\<close>

definition text_length :: "string \<Rightarrow> int" where
  "text_length s = (case code_points s of None \<Rightarrow> 0 | Some cs \<Rightarrow> int (length cs))"

definition model_name_ok :: "json option \<Rightarrow> bool" where
  "model_name_ok v = (case v of Some (JStr s) \<Rightarrow> 1 \<le> text_length s \<and> text_length s \<le> 100 | _ \<Rightarrow> False)"

definition messages_ok :: "json option \<Rightarrow> bool" where
  "messages_ok v = (case v of
     Some (JArr ms) \<Rightarrow> 1 \<le> int (length ms) \<and> int (length ms) \<le> 10000 \<and> list_all message_ok ms
   | _ \<Rightarrow> False)"

text \<open>
  \<open>ChatRequest.model_validate\<close> succeeds. Members it does not name are accepted (\<open>extra="allow"\<close>).
  A \<open>stream\<close> that is no boolean is refused before by the handler.
\<close>

definition chat_request_ok :: "(json \<Rightarrow> pyfloat option) \<Rightarrow> json \<Rightarrow> bool" where
  "chat_request_ok lax body =
    (is_dict body \<and> model_name_ok (jget ''model'' body) \<and> messages_ok (jget ''messages'' body) \<and>
     (case jget ''stream'' body of None \<Rightarrow> True | Some j \<Rightarrow> is_bool j) \<and>
     optional (float_between lax 0 2) (jget ''temperature'' body) \<and>
     optional (float_between lax 0 1) (jget ''top_p'' body) \<and>
     optional positive_int (jget ''max_tokens'' body) \<and>
     optional positive_int (jget ''max_completion_tokens'' body) \<and>
     optional dict_list (jget ''tools'' body) \<and>
     optional is_dict (jget ''stream_options'' body))"

section \<open>Provider responses\<close>

definition protocol_error :: exn where
  "protocol_error = err_status ''provider_protocol'' 502"

text \<open>\<open>k in d\<close>, and \<open>d.get(k) is not None\<close>.\<close>

definition has_key :: "string \<Rightarrow> json \<Rightarrow> bool" where
  "has_key k j = (jget k j \<noteq> None)"

definition present :: "string \<Rightarrow> json \<Rightarrow> bool" where
  "present k j = (\<not> missing (jget k j))"

definition index_ok :: "json \<Rightarrow> bool" where
  "index_ok j = (case j of JInt i \<Rightarrow> 0 \<le> i | _ \<Rightarrow> False)"

text \<open>The function object of a tool call: both texts are required unless it is a fragment of a stream.\<close>

definition function_ok :: "bool \<Rightarrow> json \<Rightarrow> bool" where
  "function_ok stream fn =
    (is_dict fn \<and> list_all (\<lambda>k. (\<not> stream \<or> has_key k fn) \<longrightarrow> is_str (jget_null k fn)) [''name'', ''arguments''])"

definition tool_call_ok :: "bool \<Rightarrow> json \<Rightarrow> bool" where
  "tool_call_ok stream call =
    (is_dict call \<and>
     (stream \<longrightarrow> index_ok (jget_null ''index'' call)) \<and>
     (\<not> stream \<longrightarrow> is_str (jget_null ''id'' call) \<and> jget ''type'' call = Some (JStr ''function'')) \<and>
     (\<not> stream \<or> present ''function'' call \<longrightarrow> function_ok stream (jget_null ''function'' call)))"

definition message_key :: "bool \<Rightarrow> string" where
  "message_key stream = (if stream then ''delta'' else ''message'')"

definition assistant_ok :: "bool \<Rightarrow> json \<Rightarrow> bool" where
  "assistant_ok stream message =
    ((\<not> stream \<longrightarrow> jget ''role'' message = Some (JStr ''assistant'')) \<and>
     (has_key ''role'' message \<longrightarrow> jget ''role'' message = Some (JStr ''assistant'')) \<and>
     list_all (\<lambda>f. present f message \<longrightarrow> is_str (jget_null f message))
       [''content'', ''refusal'', ''reasoning_content'', ''reasoning''] \<and>
     (\<not> stream \<longrightarrow> list_ex (\<lambda>k. present k message)
       [''content'', ''refusal'', ''reasoning_content'', ''reasoning'', ''tool_calls'', ''function_call'']))"

definition tool_calls_ok :: "bool \<Rightarrow> json \<Rightarrow> bool" where
  "tool_calls_ok stream calls = (case calls of JArr cs \<Rightarrow> list_all (tool_call_ok stream) cs | _ \<Rightarrow> False)"

definition choice_ok :: "bool \<Rightarrow> json \<Rightarrow> bool" where
  "choice_ok stream choice =
    (is_dict choice \<and> is_dict (jget_null (message_key stream) choice) \<and>
     (let message = jget_null (message_key stream) choice in
        assistant_ok stream message \<and>
        (has_key ''index'' choice \<longrightarrow> index_ok (jget_null ''index'' choice)) \<and>
        (present ''finish_reason'' choice \<longrightarrow> is_str (jget_null ''finish_reason'' choice)) \<and>
        (present ''tool_calls'' message \<longrightarrow> tool_calls_ok stream (jget_null ''tool_calls'' message)) \<and>
        (present ''function_call'' message \<longrightarrow> function_ok stream (jget_null ''function_call'' message))))"

definition usage_ok :: "json \<Rightarrow> bool" where
  "usage_ok usage =
    (is_dict usage \<and>
     list_all (\<lambda>f. has_key f usage \<longrightarrow> index_ok (jget_null f usage))
       [''prompt_tokens'', ''completion_tokens'', ''total_tokens''])"

fun elements :: "json \<Rightarrow> json list" where
  "elements (JArr xs) = xs"
| "elements _ = []"

definition completion_ok :: "bool \<Rightarrow> json \<Rightarrow> bool" where
  "completion_ok stream value =
    (is_dict value \<and> \<not> has_key ''error'' value \<and>
     jget ''object'' value = Some (JStr (if stream then ''chat.completion.chunk'' else ''chat.completion'')) \<and>
     is_str (jget_null ''id'' value) \<and> is_list (jget_null ''choices'' value) \<and>
     (let choices = elements (jget_null ''choices'' value) in
        (\<not> stream \<longrightarrow> choices \<noteq> []) \<and> list_all (choice_ok stream) choices \<and>
        (present ''usage'' value \<longrightarrow> usage_ok (jget_null ''usage'' value)) \<and>
        (stream \<and> choices = [] \<longrightarrow> is_dict (jget_null ''usage'' value))))"

definition validate_completion :: "bool \<Rightarrow> json \<Rightarrow> exn + json" where
  "validate_completion stream value =
    (case valid_json_tree value of
       None \<Rightarrow> Inl protocol_error
     | Some _ \<Rightarrow> if completion_ok stream value then Inr value else Inl protocol_error)"

section \<open>Reading a body\<close>

text \<open>The body ends, the transport fails, or the deadline around the reading loop expires.\<close>

datatype stream_end = Eof | Broken | Expired

definition too_large :: exn where
  "too_large = err_status ''provider_response_too_large'' 502"

fun body_loop :: "int \<Rightarrow> string \<Rightarrow> string list \<Rightarrow> stream_end \<Rightarrow> exn + string" where
  "body_loop limit body [] e = (case e of Eof \<Rightarrow> Inr body | Broken \<Rightarrow> Inl (Python HTTPError) | Expired \<Rightarrow> Inl (Python TimeoutError))"
| "body_loop limit body (chunk # chunks) e =
    (if limit < int (length body) + int (length chunk) then Inl too_large
     else body_loop limit (body @ chunk) chunks e)"

definition bounded_body :: "int \<Rightarrow> string list \<Rightarrow> stream_end \<Rightarrow> exn + string" where
  "bounded_body limit chunks e = body_loop limit [] chunks e"

section \<open>Server-sent events\<close>

abbreviation CR :: char where "CR \<equiv> CHR 0x0D"
abbreviation LF :: char where "LF \<equiv> CHR 0x0A"

text \<open>\<open>b.replace(b"\\r\\n", b"\\n")\<close>.\<close>

fun replace_crlf :: "string \<Rightarrow> string" where
  "replace_crlf (a # b # s) = (if a = CR \<and> b = LF then LF # replace_crlf s else a # replace_crlf (b # s))"
| "replace_crlf s = s"

text \<open>\<open>buffer.split(b"\\n\\n", 1)\<close>, None when there is no empty line.\<close>

fun split_frame :: "string \<Rightarrow> (string \<times> string) option" where
  "split_frame (a # b # s) =
    (if a = LF \<and> b = LF then Some ([], s) else map_option (map_prod (Cons a) id) (split_frame (b # s)))"
| "split_frame s = None"

fun split_lines :: "string \<Rightarrow> string list" where
  "split_lines [] = [[]]"
| "split_lines (c # s) =
    (if c = LF then [] # split_lines s
     else (case split_lines s of [] \<Rightarrow> [[c]] | l # ls \<Rightarrow> (c # l) # ls))"

definition data_values :: "string \<Rightarrow> string list" where
  "data_values frame =
    map (\<lambda>line. dropWhile (\<lambda>c. c = CHR '' '') (drop 5 line)) (filter (prefix ''data:'') (split_lines frame))"

datatype frame_result = Skip_frame | Stream_done | Chunk json | Bad_frame

definition read_frame :: "string \<Rightarrow> frame_result" where
  "read_frame frame =
    (let values = data_values frame in
     if values = [] then Skip_frame
     else let v = join_with [LF] values in
       if v = ''[DONE]'' then Stream_done
       else (case strict_json v of
          None \<Rightarrow> Bad_frame
        | Some parsed \<Rightarrow> (case validate_completion True parsed of Inl _ \<Rightarrow> Bad_frame | Inr _ \<Rightarrow> Chunk parsed)))"

definition event_text :: "string \<Rightarrow> string" where
  "event_text t = ''data: '' @ t @ [LF, LF]"

text \<open>
  The inner loop: the events of the complete frames of the buffer, and whether the loop goes on
  with what is left of it, ends the stream, or raises.
\<close>

datatype drain_result = Continue string | Finished | Raised exn

lemma split_frame_length: "split_frame s = Some (f, r) \<Longrightarrow> length r < length s"
  by (induction s arbitrary: f r rule: split_frame.induct) (auto split: if_splits)

function drain_frames :: "(pyfloat \<Rightarrow> string) \<Rightarrow> string \<Rightarrow> string list \<times> drain_result" where
  "drain_frames repr buffer =
    (case split_frame buffer of
       None \<Rightarrow> ([], Continue buffer)
     | Some (frame, rest) \<Rightarrow>
        (case read_frame frame of
           Skip_frame \<Rightarrow> drain_frames repr rest
         | Stream_done \<Rightarrow> ([event_text ''[DONE]''], Finished)
         | Bad_frame \<Rightarrow> ([], Raised protocol_error)
         | Chunk v \<Rightarrow> map_prod (Cons (event_text (json_dumps repr v))) id (drain_frames repr rest)))"
  by pat_completeness auto
termination by (relation "measure (\<lambda>(_, b). length b)") (auto dest: split_frame_length)

declare drain_frames.simps [simp del]

definition stream_buffer :: int where
  "stream_buffer = 2 * 1024 * 1024"

text \<open>The events the generator yields, in order, and how it ends.\<close>

fun events_loop :: "(pyfloat \<Rightarrow> string) \<Rightarrow> int \<Rightarrow> string \<Rightarrow> int \<Rightarrow> string list \<Rightarrow> stream_end \<Rightarrow> string list \<times> (exn + unit)" where
  "events_loop repr limit buffer tot [] e =
    ([], case e of Eof \<Rightarrow> Inl (err_status ''stream_interrupted'' 502) | Broken \<Rightarrow> Inl (Python HTTPError) | Expired \<Rightarrow> Inl (Python TimeoutError))"
| "events_loop repr limit buffer tot (chunk # chunks) e =
    (let tot = tot + int (length chunk) in
     if limit < tot \<or> stream_buffer < int (length buffer) + int (length chunk) then ([], Inl too_large)
     else (case drain_frames repr (replace_crlf (buffer @ chunk)) of
        (evs, Continue rest) \<Rightarrow> map_prod (append evs) id (events_loop repr limit rest tot chunks e)
      | (evs, Finished) \<Rightarrow> (evs, Inr ())
      | (evs, Raised x) \<Rightarrow> (evs, Inl x)))"

definition chat_events :: "(pyfloat \<Rightarrow> string) \<Rightarrow> int \<Rightarrow> string list \<Rightarrow> stream_end \<Rightarrow> string list \<times> (exn + unit)" where
  "chat_events repr limit chunks e = events_loop repr limit [] 0 chunks e"

section \<open>The bounds, recursively\<close>

text \<open>The reference definition: what \<open>valid_json_tree\<close> promises of a value at a depth.\<close>

fun tree_good :: "int \<Rightarrow> json \<Rightarrow> bool" where
  "tree_good d (JFloat f) = (d \<le> 64 \<and> is_finite f)"
| "tree_good d (JStr s) = (d \<le> 64 \<and> encodable s)"
| "tree_good d (JArr xs) = (d \<le> 64 \<and> list_all (tree_good (d + 1)) xs)"
| "tree_good d (JObj m) =
    (d \<le> 64 \<and> list_all (\<lambda>kv. d + 1 \<le> 64 \<and> encodable (fst kv) \<and> tree_good (d + 1) (snd kv)) m)"
| "tree_good d _ = (d \<le> 64)"

lemma tree_good_members:
  "list_all (tree_good d) (members m) = list_all (\<lambda>kv. d \<le> 64 \<and> encodable (fst kv) \<and> tree_good d (snd kv)) m"
  by (induction m) (auto simp: members_def)

lemma tree_loop_good: "tree_loop ps = list_all (\<lambda>(v, d). tree_good d v) ps"
proof (induction ps rule: tree_loop.induct)
  case (2 item depth pending)
  show ?case
  proof (cases "64 < depth")
    case True
    then show ?thesis by (cases item) auto
  next
    case False
    have "list_all (\<lambda>(v, d). tree_good d v) (rev (map (\<lambda>v. (v, d)) vs)) = list_all (tree_good d) vs" for vs d
      by (simp add: list_all_iff)
    with 2 False show ?thesis by (cases item) (simp_all add: tree_good_members)
  qed
qed simp

text \<open>
  \<open>valid_json_tree\<close> accepts exactly the values nested at most 64 levels deep whose floats are
  finite and whose strings and member names have a UTF-8 form, and returns them unchanged: the
  loop over an explicit stack computes the recursive definition.
\<close>

theorem valid_json_tree_spec: "valid_json_tree v = (if tree_good 0 v then Some v else None)"
  by (simp add: valid_json_tree_def tree_loop_good)

section \<open>Forwarded values\<close>

fun floats_print :: "(pyfloat \<Rightarrow> string) \<Rightarrow> json \<Rightarrow> bool" where
  "floats_print repr (JFloat f) = printable repr (JFloat f)"
| "floats_print repr (JArr xs) = list_all (floats_print repr) xs"
| "floats_print repr (JObj m) = list_all (\<lambda>kv. floats_print repr (snd kv)) m"
| "floats_print repr _ = True"

text \<open>What the decoder guarantees by itself: short whole numbers and members named once.\<close>

fun decoded :: "json \<Rightarrow> bool" where
  "decoded (JInt i) = (length (dec i) \<le> 256)"
| "decoded (JArr xs) = list_all decoded xs"
| "decoded (JObj m) = (distinct (map fst m) \<and> list_all (\<lambda>kv. decoded (snd kv)) m)"
| "decoded _ = True"

lemma printable_split: "decoded v \<Longrightarrow> tree_good d v \<Longrightarrow> floats_print repr v \<Longrightarrow> printable repr v"
proof (induction v arbitrary: d)
  case (JArr xs)
  then have "printable repr x" if "x \<in> set xs" for x
    using that by (intro JArr.IH [of x "d + 1"]) (simp_all add: list_all_iff)
  then show ?case by (simp add: list_all_iff)
next
  case (JObj m)
  then have "printable repr (snd kv)" if "kv \<in> set m" for kv
    using that by (intro JObj.IH [of kv "snd kv" "d + 1"]) (simp_all add: list_all_iff snds.simps)
  with JObj.prems show ?case by (simp add: list_all_iff)
qed simp_all

lemma digits_val_bound:
  "list_all digit ds \<Longrightarrow> 0 \<le> digits_val ds \<and> digits_val ds < 10 ^ length ds"
proof (induction ds rule: rev_induct)
  case (snoc d ds)
  then show ?case by (auto simp: digits_val_snoc digit_def)
qed (simp add: digits_val_def)

lemma length_dec_digits:
  assumes "list_all digit ds" "ds \<noteq> []"
  shows "length (dec (signed neg (digits_val ds))) \<le> length ds + (if neg then 1 else 0)"
proof -
  obtain k where k: "length ds = Suc k" using assms(2) by (cases ds) auto
  have b: "0 \<le> digits_val ds" "digits_val ds < 10 ^ Suc k" using digits_val_bound [OF assms(1)] k by auto
  then have "length (dec_nat (nat (digits_val ds))) \<le> Suc k" by (intro length_dec_nat) (simp add: nat_less_iff)
  with b k show ?thesis by (cases neg) (auto simp: dec_def signed_def)
qed

lemma scan_whole_digits: "scan_whole s = Some (ip, r) \<Longrightarrow> ip \<noteq> [] \<and> list_all digit ip"
  by (auto simp: scan_whole_def split_digits_def digit_def [of 48] list_all_iff split: list.splits if_splits dest: set_takeWhileD)

lemma scan_number_decoded:
  assumes "scan_number s = Some (v, r)"
  shows "decoded v"
proof -
  from assms obtain neg s1 ip s2 fr ex where "scan_whole s1 = Some (ip, s2)" and v: "number_value neg ip fr ex = Some v"
    unfolding scan_number_eq_Some by blast
  then have "length (dec (signed neg (digits_val ip))) \<le> length ip + (if neg then 1 else 0)"
    using scan_whole_digits length_dec_digits by blast
  with v show ?thesis by (auto simp: number_value_def Let_def split: if_splits)
qed

lemma scan_decoded_all:
  "(\<forall>s v r. scan_value n s = Some (v, r) \<longrightarrow> decoded v) \<and>
   (\<forall>s ms r. scan_members n s = Some (ms, r) \<longrightarrow> list_all (\<lambda>kv. decoded (snd kv)) ms) \<and>
   (\<forall>s vs r. scan_elements n s = Some (vs, r) \<longrightarrow> list_all decoded vs)"
proof (induction n)
  case (Suc n)
  note ih = Suc.IH [THEN conjunct1, rule_format] Suc.IH [THEN conjunct2, THEN conjunct1, rule_format]
    Suc.IH [THEN conjunct2, THEN conjunct2, rule_format]
  have "decoded v" if "scan_value (Suc n) s = Some (v, r)" for s v r
    using that
  proof (cases rule: scan_value_SucE)
    case atom
    then show ?thesis by (auto simp: scan_atom_def split: if_splits dest: scan_number_decoded)
  qed (auto simp: pairs_distinct split: if_splits dest: ih)
  moreover have "list_all (\<lambda>kv. decoded (snd kv)) ms" if "scan_members (Suc n) s = Some (ms, r)" for s ms r
    using that by (cases rule: scan_members_SucE) (auto dest: ih)
  moreover have "list_all decoded vs" if "scan_elements (Suc n) s = Some (vs, r)" for s vs r
    using that by (cases rule: scan_elements_SucE) (auto dest: ih)
  ultimately show ?case by blast
qed simp

lemmas scan_value_decoded = scan_decoded_all [THEN conjunct1, rule_format]

lemma strict_json_decoded: "strict_json raw = Some v \<Longrightarrow> decoded v \<and> tree_good 0 v"
  by (auto simp: strict_json_def json_loads_def decode_text_def valid_json_tree_def tree_loop_good simp del: scan_value.simps
      split: option.splits if_splits prod.splits dest: scan_value_decoded)

lemma strict_json_dumps:
  "printable repr v \<Longrightarrow> tree_good 0 v \<Longrightarrow> strict_json (json_dumps repr v) = Some v"
  by (simp add: strict_json_def loads_dumps valid_json_tree_def tree_loop_good)

text \<open>
  C33. A value read by \<open>strict_json\<close> and printed again by \<open>json.dumps\<close> is read back as the same
  value: a request or an event that the gateway decodes, checks and forwards means the same to
  its receiver. The hypothesis on floats is Python's guarantee on \<open>repr\<close>.
\<close>

theorem strict_json_roundtrip:
  assumes "strict_json raw = Some v" and "floats_print repr v"
  shows "strict_json (json_dumps repr v) = Some v"
  using assms strict_json_decoded [OF assms(1)] by (intro strict_json_dumps) (auto intro: printable_split)

theorem strict_json_roundtrip_witness:
  "strict_json ('' [1, null'' @ [CHR 0x0A] @ '']'') = Some (JArr [JInt 1, JNull]) \<and>
   strict_json (json_dumps (\<lambda>_. []) (JArr [JInt 1, JNull])) = Some (JArr [JInt 1, JNull])"
proof -
  have r: "strict_json ('' [1, null'' @ [CHR 0x0A] @ '']'') = Some (JArr [JInt 1, JNull])" by code_simp
  from r strict_json_roundtrip [OF r, of "\<lambda>_. []"] show ?thesis by simp
qed

section \<open>Event streams\<close>

lemma split_frame_append: "split_frame s = Some (f, r) \<Longrightarrow> split_frame (s @ t) = Some (f, r @ t)"
  by (induction s arbitrary: f r rule: split_frame.induct) (auto split: if_splits)

lemma split_frame_text: "split_frame s = Some (f, r) \<Longrightarrow> s = f @ LF # LF # r"
  by (induction s arbitrary: f r rule: split_frame.induct) (auto split: if_splits)

lemma split_frame_prefix: "split_frame s = Some (f, r) \<Longrightarrow> split_frame (f @ LF # LF # t) = Some (f, t)"
proof (induction s arbitrary: f r rule: split_frame.induct)
  case (1 a b s)
  show ?case
  proof (cases "a = LF \<and> b = LF")
    case True
    with "1.prems" show ?thesis by simp
  next
    case False
    with "1.prems" obtain f' where f': "split_frame (b # s) = Some (f', r)" "f = a # f'" by (auto split: if_splits)
    obtain u where "f' @ LF # LF # t = b # u"
      using split_frame_text [OF f'(1)] by (cases f') auto
    with "1.IH" [OF False f'(1)] f'(2) False show ?thesis by simp
  qed
qed simp_all

text \<open>
  What the inner loop consumes. \<open>drains repr p evs\<close>: the text \<open>p\<close> ends in a newline or is
  empty and stands for the events \<open>evs\<close>, whatever follows it.
\<close>

definition ends_line :: "string \<Rightarrow> bool" where
  "ends_line p = (p = [] \<or> last p = LF)"

definition glue :: "string list \<Rightarrow> string list \<times> drain_result \<Rightarrow> string list \<times> drain_result" where
  "glue evs r = map_prod (append evs) id r"

lemma glue_simps [simp]: "glue [] r = r" "glue (e # evs) r = map_prod (Cons e) id (glue evs r)"
  by (cases r; simp add: glue_def)+

lemma drain_parts:
  "drain_frames repr b = (evs, out) \<Longrightarrow>
   \<exists>p q. b = p @ q \<and> ends_line p \<and>
     (case out of Continue rest \<Rightarrow> rest = q \<and> split_frame q = None \<and> (\<forall>t. drain_frames repr (p @ t) = glue evs (drain_frames repr t))
      | _ \<Rightarrow> (\<forall>t. drain_frames repr (p @ t) = (evs, out)))"
proof (induction repr b arbitrary: evs out rule: drain_frames.induct)
  case (1 repr b)
  show ?case
  proof (cases "split_frame b")
    case None
    with "1.prems" show ?thesis
      by - (rule exI [of _ "[]"], rule exI [of _ b], auto simp: drain_frames.simps [of repr b] ends_line_def)
  next
    case (Some fr)
    obtain f r where s: "split_frame b = Some (f, r)" using Some by (cases fr) simp
    let ?p = "f @ [LF, LF]"
    have b: "b = f @ LF # LF # r" by (rule split_frame_text [OF s])
    have fp: "split_frame (f @ LF # LF # t) = Some (f, t)" for t using split_frame_prefix [OF s] by simp
    have step: "drain_frames repr (f @ LF # LF # t) =
        (case read_frame f of
           Skip_frame \<Rightarrow> drain_frames repr t
         | Stream_done \<Rightarrow> ([event_text ''[DONE]''], Finished)
         | Bad_frame \<Rightarrow> ([], Raised protocol_error)
         | Chunk v \<Rightarrow> map_prod (Cons (event_text (json_dumps repr v))) id (drain_frames repr t))" for t
      unfolding drain_frames.simps [of repr "f @ LF # LF # t"] fp by simp
    show ?thesis
    proof (cases "read_frame f")
      case Skip_frame
      with "1.prems" step [of r] b have "drain_frames repr r = (evs, out)" by simp
      from "1.IH"(1) [OF s refl Skip_frame this] obtain p q where p: "r = p @ q" "ends_line p"
        "case out of Continue rest \<Rightarrow> rest = q \<and> split_frame q = None \<and> (\<forall>t. drain_frames repr (p @ t) = glue evs (drain_frames repr t))
           | _ \<Rightarrow> (\<forall>t. drain_frames repr (p @ t) = (evs, out))" by blast
      then show ?thesis using b Skip_frame step
        by - (rule exI [of _ "?p @ p"], rule exI [of _ q], auto simp: ends_line_def split: drain_result.splits)
    next
      case Stream_done
      with "1.prems" step [of r] b show ?thesis
        by - (rule exI [of _ ?p], rule exI [of _ r], auto simp: ends_line_def step)
    next
      case (Chunk v)
      let ?e = "event_text (json_dumps repr v)"
      obtain evs' where r: "drain_frames repr r = (evs', out)" "evs = ?e # evs'"
        using "1.prems" step [of r] b Chunk by (cases "drain_frames repr r") auto
      from "1.IH"(2) [OF s refl Chunk r(1)] obtain p q where p: "r = p @ q" "ends_line p"
        "case out of Continue rest \<Rightarrow> rest = q \<and> split_frame q = None \<and> (\<forall>t. drain_frames repr (p @ t) = glue evs' (drain_frames repr t))
           | _ \<Rightarrow> (\<forall>t. drain_frames repr (p @ t) = (evs', out))" by blast
      then show ?thesis using b Chunk step r(2)
        by - (rule exI [of _ "?p @ p"], rule exI [of _ q], auto simp: ends_line_def split: drain_result.splits)
    next
      case Bad_frame
      with "1.prems" step [of r] b show ?thesis
        by - (rule exI [of _ ?p], rule exI [of _ r], auto simp: ends_line_def step)
    qed
  qed
qed

text \<open>Line ends. A carriage return that is followed by another one is the only obstacle to chunking.\<close>

fun crcr_free :: "string \<Rightarrow> bool" where
  "crcr_free (a # b # s) = (\<not> (a = CR \<and> b = CR) \<and> crcr_free (b # s))"
| "crcr_free s = True"

lemma replace_Cons: "a \<noteq> CR \<Longrightarrow> replace_crlf (a # s) = a # replace_crlf s"
  by (cases s) auto

lemma replace_CR: "b \<noteq> LF \<Longrightarrow> replace_crlf (CR # b # s) = CR # replace_crlf (b # s)"
  by simp

lemma crcr_free_Cons: "a \<noteq> CR \<Longrightarrow> crcr_free (a # s) = crcr_free s"
  by (cases s) auto

lemma crcr_free_append: "crcr_free (p @ q) \<Longrightarrow> crcr_free q"
proof (induction p)
  case (Cons a p)
  then show ?case by (cases "p @ q") auto
qed simp

lemma crcr_free_left: "crcr_free (p @ q) \<Longrightarrow> crcr_free p"
  by (induction p rule: crcr_free.induct) auto

lemma replace_length: "length (replace_crlf s) \<le> length s"
  by (induction s rule: replace_crlf.induct) auto

lemma replace_append: "crcr_free (x @ y) \<Longrightarrow> replace_crlf (replace_crlf x @ y) = replace_crlf (x @ y)"
proof (induction x rule: replace_crlf.induct)
  case (1 a b s)
  consider (end_line) "a = CR" "b = LF" | (cr) "a = CR" "b \<noteq> LF" "b \<noteq> CR" | (other) "a \<noteq> CR"
    using "1.prems" by auto
  then show ?case
  proof cases
    case end_line
    with 1 show ?thesis by (simp add: replace_Cons crcr_free_Cons)
  next
    case cr
    then have "replace_crlf ((b # s) @ y) = replace_crlf (replace_crlf (b # s) @ y)" using 1 by simp
    with cr show ?thesis by (simp add: replace_Cons)
  next
    case other
    with 1 show ?thesis by (simp add: replace_Cons crcr_free_Cons)
  qed
qed simp_all

lemma crcr_free_replace: "crcr_free (x @ y) \<Longrightarrow> crcr_free (replace_crlf x @ y)"
proof (induction x rule: replace_crlf.induct)
  case (1 a b s)
  consider (end_line) "a = CR" "b = LF" | (cr) "a = CR" "b \<noteq> LF" "b \<noteq> CR" | (other) "a \<noteq> CR"
    using "1.prems" by auto
  then show ?case
  proof cases
    case cr
    with 1 show ?thesis by (simp add: replace_Cons crcr_free_Cons)
  qed (use 1 in \<open>simp_all add: replace_Cons crcr_free_Cons\<close>)
qed simp_all

lemma replace_prefix:
  "replace_crlf (p @ q) = p @ q \<Longrightarrow> ends_line p \<Longrightarrow> replace_crlf (p @ z) = p @ replace_crlf z"
proof (induction p)
  case (Cons a p)
  show ?case
  proof (cases p)
    case Nil
    with Cons.prems(2) show ?thesis by (simp add: ends_line_def replace_Cons)
  next
    case (Cons b p')
    have "\<not> (a = CR \<and> b = LF)"
    proof
      assume "a = CR \<and> b = LF"
      with Cons.prems(1) Cons have "length (replace_crlf (p' @ q)) = Suc (length (p' @ q))"
        by (auto dest: arg_cong [where f = length])
      with replace_length [of "p' @ q"] show False by simp
    qed
    with Cons.prems Cons Cons.IH show ?thesis by (auto simp: ends_line_def)
  qed
qed simp

text \<open>The reference decoder: the whole body at once.\<close>

definition close_stream :: "string list \<times> drain_result \<Rightarrow> string list \<times> (exn + unit)" where
  "close_stream r = (case r of
     (evs, Continue _) \<Rightarrow> (evs, Inl (err_status ''stream_interrupted'' 502))
   | (evs, Finished) \<Rightarrow> (evs, Inr ())
   | (evs, Raised x) \<Rightarrow> (evs, Inl x))"

definition decode_stream :: "(pyfloat \<Rightarrow> string) \<Rightarrow> string \<Rightarrow> string list \<times> (exn + unit)" where
  "decode_stream repr body = close_stream (drain_frames repr (replace_crlf body))"

lemma close_glue: "close_stream (glue evs r) = map_prod (append evs) id (close_stream r)"
  by (cases r) (auto simp: glue_def close_stream_def split: drain_result.splits)

lemma events_loop_decode:
  assumes "replace_crlf buffer = buffer" and "split_frame buffer = None" and "crcr_free (buffer @ concat chunks)"
    and "tot + int (length (concat chunks)) \<le> limit" and "int (length (buffer @ concat chunks)) \<le> stream_buffer"
  shows "events_loop repr limit buffer tot chunks Eof = decode_stream repr (buffer @ concat chunks)"
  using assms
proof (induction chunks arbitrary: buffer tot)
  case Nil
  then show ?case by (simp add: decode_stream_def close_stream_def drain_frames.simps [of repr buffer])
next
  case (Cons c cs)
  let ?nb = "replace_crlf (buffer @ c)" and ?d = "concat cs"
  obtain evs out where d: "drain_frames repr ?nb = (evs, out)" by fastforce
  from drain_parts [OF d] obtain p q where p: "?nb = p @ q" "ends_line p"
    and o: "case out of Continue rest \<Rightarrow> rest = q \<and> split_frame q = None \<and> (\<forall>t. drain_frames repr (p @ t) = glue evs (drain_frames repr t))
       | _ \<Rightarrow> (\<forall>t. drain_frames repr (p @ t) = (evs, out))" by blast
  have free: "crcr_free ((buffer @ c) @ ?d)" using Cons.prems(3) by simp
  have norm: "replace_crlf (p @ q) = p @ q"
    unfolding p(1) [symmetric] using replace_append [of "buffer @ c" "[]"] crcr_free_left [OF free] by simp
  have whole: "replace_crlf (buffer @ concat (c # cs)) = p @ replace_crlf (q @ ?d)"
    using replace_append [OF free] replace_prefix [OF norm p(2), of "q @ ?d"] by (simp add: p(1))
  have len: "length p + length q \<le> length buffer + length c"
    using replace_length [of "buffer @ c"] by (simp add: p(1))
  have small: "\<not> (limit < tot + int (length c) \<or> stream_buffer < int (length buffer) + int (length c))"
    using Cons.prems(4,5) by simp
  show ?case
  proof (cases out)
    case (Continue rest)
    then have q: "rest = q" "split_frame q = None" "\<And>t. drain_frames repr (p @ t) = glue evs (drain_frames repr t)"
      using o by simp_all
    have "replace_crlf q = q" using replace_prefix [OF norm p(2), of q] norm by simp
    moreover have "crcr_free (q @ ?d)"
      using crcr_free_replace [OF free] crcr_free_append [of p "q @ ?d"] by (simp add: p(1))
    ultimately have "events_loop repr limit q (tot + int (length c)) cs Eof = decode_stream repr (q @ ?d)"
      using Cons.prems(4,5) len q(2) by (intro Cons.IH) simp_all
    then show ?thesis using small d Continue q whole
      by (simp add: Let_def decode_stream_def close_glue)
  next
    case Finished
    with o d small whole show ?thesis by (simp add: Let_def decode_stream_def close_stream_def)
  next
    case (Raised x)
    with o d small whole show ?thesis by (simp add: Let_def decode_stream_def close_stream_def)
  qed
qed


abbreviation sample_stream :: "string list" where
  "sample_stream \<equiv> [''data: [DO'', ''NE]'' @ [CR], LF # [LF]]"


text \<open>
  Without that hypothesis the cut matters: the same bytes end the stream in one cut and are a
  protocol error in another, because each chunk is another pass of the replacement.
\<close>

abbreviation cr_stream :: "string list" where
  "cr_stream \<equiv> [''data: [DONE]'' @ [CR, CR, LF], [LF]]"

lemma carriage_returns_depend_on_chunks:
  "chat_events (\<lambda>_. []) 100 cr_stream Eof = ([event_text ''[DONE]''], Inr ())"
  "chat_events (\<lambda>_. []) 100 [concat cr_stream] Eof = ([], Inl protocol_error)"
  by code_simp+

section \<open>What a stream yields\<close>

lemma read_frame_chunk: "read_frame f = Chunk v \<Longrightarrow> validate_completion True v = Inr v"
  by (auto simp: read_frame_def Let_def validate_completion_def split: if_splits option.splits sum.splits)

definition chunk_event :: "(pyfloat \<Rightarrow> string) \<Rightarrow> string \<Rightarrow> bool" where
  "chunk_event repr e = (\<exists>v. e = event_text (json_dumps repr v) \<and> validate_completion True v = Inr v)"

lemma drain_events:
  "drain_frames repr b = (evs, out) \<Longrightarrow>
   (case out of Finished \<Rightarrow> \<exists>es. evs = es @ [event_text ''[DONE]''] \<and> (\<forall>e \<in> set es. chunk_event repr e)
    | Raised x \<Rightarrow> x = protocol_error \<and> (\<forall>e \<in> set evs. chunk_event repr e)
    | Continue _ \<Rightarrow> \<forall>e \<in> set evs. chunk_event repr e)"
proof (induction repr b arbitrary: evs out rule: drain_frames.induct)
  case (1 repr b)
  show ?case
  proof (cases "split_frame b")
    case None
    with "1.prems" show ?thesis by (auto simp: drain_frames.simps [of repr b])
  next
    case (Some fr)
    obtain f r where s: "split_frame b = Some (f, r)" using Some by (cases fr) simp
    show ?thesis
    proof (cases "read_frame f")
      case Skip_frame
      with "1.prems" s have "drain_frames repr r = (evs, out)" by (simp add: drain_frames.simps [of repr b])
      from "1.IH"(1) [OF s refl Skip_frame this] show ?thesis .
    next
      case (Chunk v)
      let ?e = "event_text (json_dumps repr v)"
      obtain evs' where r: "drain_frames repr r = (evs', out)" "evs = ?e # evs'"
        using "1.prems" s Chunk by (cases "drain_frames repr r") (auto simp: drain_frames.simps [of repr b])
      moreover have "chunk_event repr ?e" using read_frame_chunk [OF Chunk] by (auto simp: chunk_event_def)
      ultimately show ?thesis using "1.IH"(2) [OF s refl Chunk r(1)]
        by (auto split: drain_result.splits intro: exI [of _ "?e # _"])
    qed (use "1.prems" s in \<open>auto simp: drain_frames.simps [of repr b]\<close>)
  qed
qed

lemma events_loop_events:
  "events_loop repr limit buffer tot chunks e = (evs, res) \<Longrightarrow>
   (case res of Inr _ \<Rightarrow> \<exists>es. evs = es @ [event_text ''[DONE]''] \<and> (\<forall>x \<in> set es. chunk_event repr x)
    | Inl _ \<Rightarrow> \<forall>x \<in> set evs. chunk_event repr x)"
proof (induction repr limit buffer tot chunks e arbitrary: evs res rule: events_loop.induct)
  case (2 repr limit buffer tot chunk chunks e)
  let ?tot = "tot + int (length chunk)"
  show ?case
  proof (cases "limit < ?tot \<or> stream_buffer < int (length buffer) + int (length chunk)")
    case True
    with "2.prems" show ?thesis by (auto simp: Let_def)
  next
    case False
    obtain es out where d: "drain_frames repr (replace_crlf (buffer @ chunk)) = (es, out)" by fastforce
    show ?thesis
    proof (cases out)
      case (Continue rest)
      obtain evs' where l: "events_loop repr limit rest ?tot chunks e = (evs', res)" "evs = es @ evs'"
        using "2.prems" False d Continue by (cases "events_loop repr limit rest ?tot chunks e") (auto simp: Let_def)
      from "2.IH" [OF refl False d [symmetric] Continue l(1)] l(2) drain_events [OF d] Continue
      show ?thesis by (auto split: sum.splits)
    qed (use "2.prems" False d drain_events [OF d] in \<open>auto simp: Let_def\<close>)
  qed
qed (auto split: stream_end.splits)

lemma marker_no_chunk: "\<not> chunk_event repr (event_text ''[DONE]'')"
proof
  assume "chunk_event repr (event_text ''[DONE]'')"
  then obtain v where "''[DONE]'' = json_dumps repr v" and "is_dict v"
    by (auto simp: chunk_event_def event_text_def validate_completion_def completion_ok_def
        split: option.splits if_splits)
  then show False by (auto elim!: is_dictE)
qed

text \<open>
  Every event that reaches the client is a provider chunk that passed validation, printed
  again, except that a stream that ends regularly has the end marker as its last event; the
  marker never appears in a stream that is reported as failed.
\<close>

theorem chat_events_validated:
  "case chat_events repr limit chunks e of
     (evs, Inr _) \<Rightarrow> \<exists>es. evs = es @ [event_text ''[DONE]''] \<and> list_all (chunk_event repr) es
   | (evs, Inl _) \<Rightarrow> list_all (chunk_event repr) evs \<and> event_text ''[DONE]'' \<notin> set evs"
  using events_loop_events [of repr limit "[]" 0 chunks e] marker_no_chunk [of repr]
  by (fastforce simp: chat_events_def list_all_iff split: prod.splits sum.splits)

lemma body_loop_exact:
  "body_loop limit body chunks e =
    (if limit < int (length (body @ concat chunks)) \<and> chunks \<noteq> [] then Inl too_large
     else (case e of Eof \<Rightarrow> Inr (body @ concat chunks) | Broken \<Rightarrow> Inl (Python HTTPError) | Expired \<Rightarrow> Inl (Python TimeoutError)))"
proof (induction limit body chunks e rule: body_loop.induct)
  case (2 limit body chunk chunks e)
  then show ?case by (cases chunks; cases e) auto
qed (simp split: stream_end.split)

text \<open>
  \<open>bounded_body\<close> returns the body exactly when it ends within the limit: a body of one byte
  more is refused, at whatever chunk it passes the limit, and a broken transport never yields a
  truncated body.
\<close>

theorem bounded_body_exact:
  "bounded_body limit chunks e =
    (if limit < int (length (concat chunks)) \<and> chunks \<noteq> [] then Inl too_large
     else (case e of Eof \<Rightarrow> Inr (concat chunks) | Broken \<Rightarrow> Inl (Python HTTPError) | Expired \<Rightarrow> Inl (Python TimeoutError)))"
  by (simp add: bounded_body_def body_loop_exact split: stream_end.split)

end
