(* ===== verification/Effects.thy ===== *)
theory Effects
  imports Store Transport
begin

text \<open>
  The effects of the gateway's coroutines. A program runs on the shared state of the process,
  raises or returns, and leaves the list of the outside calls it made, each with the state it was
  made in. Between two awaits a coroutine runs alone; at an await everything else in the process
  may run. So an await is a call to the environment, which answers it and moves the shared state
  wherever the node, the clock and the other coroutines take it: a theorem about a program that
  quantifies over the environment holds for every interleaving. What a theorem needs of the
  others is a hypothesis on the environment.

  The clocks (\<open>time.time()\<close>, \<open>time.monotonic()\<close>) are fields of the state and so move at
  awaits only; they are rationals and their arithmetic is exact. Writes to the database succeed:
  a failing disk is not modelled.
\<close>

section \<open>Configuration and outside calls\<close>

text \<open>The members of \<open>Config\<close> that the session manager reads.\<close>

record config =
  request_timeout :: time
  open_timeout :: time
  drain_timeout :: time
  acquisition_timeout :: time
  recovery_interval :: time
  require_guards :: bool
  rpc_configured :: bool
  helper_configured :: bool

definition default_config :: config where
  "default_config = \<lparr>request_timeout = 120, open_timeout = 180, drain_timeout = 150,
     acquisition_timeout = 240, recovery_interval = 60, require_guards = True,
     rpc_configured = True, helper_configured = True\<rparr>"

datatype call =
    Get_config
  | Get_models int bool
  | Get_rated_bids string
  | Get_bid string
  | Get_session string
  | Get_user_sessions string int
  | Get_balance
  | Get_stakes
  | Get_supply
  | Get_budget
  | Post_open string int int string
  | Post_close string string
  | Post_withdraw string
  | Rpc string "json list"
  | Helper_status
  | Helper_journal string
  | Helper_operation string
  | Helper_restart "rating option" string
  | Await_lock
  | Await_opening string nat time
  | Sleep time
  | Post_completion string string json string
  | Read_upstream time
  | Close_upstream

text \<open>
  What a call returns: an HTTP status with a parsed body, a body that is no JSON or exceeds the
  size limit, the status of a response whose body is still to be read and the chunks of such a
  body, a transport failure or timeout, the outcome of an awaited task, or the cancellation of the
  awaiting coroutine.
\<close>

datatype reply =
    Body int json
  | Garbled int
  | Oversized int
  | Upstream int
  | Chunks "string list" stream_end
  | Unreachable
  | Task_done
  | Task_error exn
  | Task_timeout
  | Cancel

section \<open>The shared state\<close>

datatype job = Close_job string | Open_job string int | Sweep_job | Treasury_job bool
  | Restart_job string bool bool

record gw =
  db :: database
  locked :: bool
  active :: "string set"
  waiting :: int
  maintenance :: bool
  identity :: "ident option"
  ready :: bool
  last_error :: "string option"
  openers :: "string \<Rightarrow> nat option"
  closing :: "string set"
  sweep_task :: "nat option"
  last_sweep :: time
  jobs :: "(nat \<times> job) list"
  done_tasks :: "nat set"
  next_task :: nat
  clock :: time
  mono :: time
  uuids :: nat
  key_active :: "string \<Rightarrow> int"
  rates :: "string \<Rightarrow> time list"
  logins :: "(string \<times> time list) list"
  connections :: int
  store_error :: "string option"

definition initial_gw :: "database \<Rightarrow> time \<Rightarrow> gw" where
  "initial_gw rs now = \<lparr>db = rs, locked = False, active = {}, waiting = 0, maintenance = False,
     identity = None, ready = False, last_error = None, openers = (\<lambda>_. None), closing = {},
     sweep_task = None, last_sweep = 0, jobs = [], done_tasks = {}, next_task = 0,
     clock = now, mono = now, uuids = 0,
     key_active = (\<lambda>_. 0), rates = (\<lambda>_. []), logins = [], connections = 0, store_error = None\<rparr>"

record env =
  respond :: "call \<Rightarrow> gw \<Rightarrow> reply \<times> gw"
  uuid :: "nat \<Rightarrow> string"
  cfg :: config

section \<open>Programs\<close>

text \<open>
  Programs over any state and any kind of outside call; those of the gateway have the state and
  the calls above.
\<close>

type_synonym ('c, 's, 'a) program = "'s \<Rightarrow> (exn + 'a) \<times> 's \<times> ('c \<times> 's) list"
type_synonym trace = "(call \<times> gw) list"
type_synonym 'a prog = "(call, gw, 'a) program"

definition retP :: "'a \<Rightarrow> ('c, 's, 'a) program" where
  "retP x = (\<lambda>s. (Inr x, s, []))"

definition raiseP :: "exn \<Rightarrow> ('c, 's, 'a) program" where
  "raiseP e = (\<lambda>s. (Inl e, s, []))"

definition bindP :: "('c, 's, 'a) program \<Rightarrow> ('a \<Rightarrow> ('c, 's, 'b) program) \<Rightarrow> ('c, 's, 'b) program" where
  "bindP p f = (\<lambda>s. case p s of (r, s', t) \<Rightarrow>
     (case r of
        Inl e \<Rightarrow> (Inl e, s', t)
      | Inr x \<Rightarrow> (case f x s' of (r', s'', t') \<Rightarrow> (r', s'', t @ t'))))"

definition thenP :: "('c, 's, unit) program \<Rightarrow> ('c, 's, 'b) program \<Rightarrow> ('c, 's, 'b) program" where
  "thenP p q = bindP p (\<lambda>_. q)"

definition getP :: "('s \<Rightarrow> 'a) \<Rightarrow> ('c, 's, 'a) program" where
  "getP f = (\<lambda>s. (Inr (f s), s, []))"

definition modP :: "('s \<Rightarrow> 's) \<Rightarrow> ('c, 's, unit) program" where
  "modP f = (\<lambda>s. (Inr (), f s, []))"

definition liftP :: "exn + 'a \<Rightarrow> ('c, 's, 'a) program" where
  "liftP r = (\<lambda>s. (r, s, []))"

definition pyP :: "pyexc + 'a \<Rightarrow> ('c, 's, 'a) program" where
  "pyP r = liftP (case r of Inl x \<Rightarrow> Inl (Python x) | Inr v \<Rightarrow> Inr v)"

text \<open>\<open>try: p except ...: h e\<close>; the handler raises again what it does not handle.\<close>

definition catchP :: "('c, 's, 'a) program \<Rightarrow> (exn \<Rightarrow> ('c, 's, 'a) program) \<Rightarrow> ('c, 's, 'a) program" where
  "catchP p h = (\<lambda>s. case p s of (r, s', t) \<Rightarrow>
     (case r of
        Inl e \<Rightarrow> (case h e s' of (r', s'', t') \<Rightarrow> (r', s'', t @ t'))
      | Inr x \<Rightarrow> (Inr x, s', t)))"

text \<open>
  \<open>try: x = p except ...: h e else: f x\<close>: the handler does not cover the continuation. A Python
  handler that reads a row the body has been changing becomes one such step per version of the row.
\<close>

definition tryP :: "('c, 's, 'a) program \<Rightarrow> (exn \<Rightarrow> ('c, 's, 'b) program) \<Rightarrow> ('a \<Rightarrow> ('c, 's, 'b) program) \<Rightarrow> ('c, 's, 'b) program" where
  "tryP p h f = (\<lambda>s. case p s of (r, s', t) \<Rightarrow>
     (case (case r of Inl e \<Rightarrow> h e s' | Inr x \<Rightarrow> f x s') of (r', s'', t') \<Rightarrow> (r', s'', t @ t')))"

text \<open>\<open>try: p finally: f\<close>, where the final block only updates the state.\<close>

definition finallyP :: "('c, 's, 'a) program \<Rightarrow> ('s \<Rightarrow> 's) \<Rightarrow> ('c, 's, 'a) program" where
  "finallyP p f = (\<lambda>s. case p s of (r, s', t) \<Rightarrow> (r, f s', t))"

definition callP :: "env \<Rightarrow> call \<Rightarrow> reply prog" where
  "callP E c = (\<lambda>s. case respond E c s of (r, s') \<Rightarrow>
     (if r = Cancel then Inl Cancelled else Inr r, s', [(c, s)]))"

primrec forP :: "('a \<Rightarrow> ('c, 's, unit) program) \<Rightarrow> 'a list \<Rightarrow> ('c, 's, unit) program" where
  "forP f [] = retP ()"
| "forP f (x # xs) = thenP (f x) (forP f xs)"

definition whenP :: "bool \<Rightarrow> ('c, 's, unit) program \<Rightarrow> ('c, 's, unit) program" where
  "whenP b p = (if b then p else retP ())"

text \<open>\<open>async with self.lock\<close>.\<close>

definition lockedP :: "env \<Rightarrow> 'a prog \<Rightarrow> 'a prog" where
  "lockedP E p = bindP (callP E Await_lock) (\<lambda>_.
     thenP (modP (\<lambda>s. s\<lparr>locked := True\<rparr>)) (finallyP p (\<lambda>s. s\<lparr>locked := False\<rparr>)))"

text \<open>\<open>uuid.uuid4().hex\<close>: the next identifier of the generator.\<close>

definition uuidP :: "env \<Rightarrow> string prog" where
  "uuidP E = (\<lambda>s. (Inr (uuid E (uuids s)), s\<lparr>uuids := Suc (uuids s)\<rparr>, []))"

text \<open>\<open>store.put("session", row["id"], row)\<close> and \<open>store.event(...)\<close>.\<close>

definition saveP :: "srow \<Rightarrow> unit prog" where
  "saveP r = modP (\<lambda>s. s\<lparr>db := put_session r (db s)\<rparr>)"

definition save_opP :: "operation \<Rightarrow> unit prog" where
  "save_opP op = modP (\<lambda>s. s\<lparr>db := put_operation op (db s)\<rparr>)"

definition put_settingP :: "string \<Rightarrow> doc \<Rightarrow> unit prog" where
  "put_settingP i d = modP (\<lambda>s. s\<lparr>db := db_put KSettings i d (db s)\<rparr>)"

definition eventP :: "env \<Rightarrow> event \<Rightarrow> unit prog" where
  "eventP E a = bindP (uuidP E) (\<lambda>i. modP (\<lambda>s. s\<lparr>db := db_event i (clock s) a (db s)\<rparr>))"

text \<open>\<open>spawn\<close>: the coroutine is handed to the event loop and a task handle is returned.\<close>

definition spawnP :: "job \<Rightarrow> nat prog" where
  "spawnP j = (\<lambda>s. (Inr (next_task s),
     s\<lparr>jobs := jobs s @ [(next_task s, j)], next_task := Suc (next_task s)\<rparr>, []))"

definition result :: "('c, 's, 'a) program \<Rightarrow> 's \<Rightarrow> exn + 'a" where
  "result p s = fst (p s)"

definition final :: "('c, 's, 'a) program \<Rightarrow> 's \<Rightarrow> 's" where
  "final p s = fst (snd (p s))"

definition calls :: "('c, 's, 'a) program \<Rightarrow> 's \<Rightarrow> ('c \<times> 's) list" where
  "calls p s = snd (snd (p s))"

section \<open>Weakest preconditions\<close>

text \<open>
  \<open>wp G p Q s\<close>: from \<open>s\<close>, every outside call of \<open>p\<close> is made in a state that satisfies the
  guarantee \<open>G\<close> for it, and the outcome and final state satisfy \<open>Q\<close>.
\<close>

definition wp :: "('c \<Rightarrow> 's \<Rightarrow> bool) \<Rightarrow> ('c, 's, 'a) program \<Rightarrow> (exn + 'a \<Rightarrow> 's \<Rightarrow> bool) \<Rightarrow> 's \<Rightarrow> bool" where
  "wp G p Q s = ((\<forall>x \<in> set (calls p s). G (fst x) (snd x)) \<and> Q (result p s) (final p s))"

lemmas run_defs = wp_def calls_def result_def final_def

lemma wp_ret [simp, wp_rules]: "wp G (retP x) Q s = Q (Inr x) s"
  by (simp add: run_defs retP_def)

lemma wp_raise [simp, wp_rules]: "wp G (raiseP e) Q s = Q (Inl e) s"
  by (simp add: run_defs raiseP_def)

lemma wp_get [simp, wp_rules]: "wp G (getP f) Q s = Q (Inr (f s)) s"
  by (simp add: run_defs getP_def)

lemma wp_mod [simp, wp_rules]: "wp G (modP f) Q s = Q (Inr ()) (f s)"
  by (simp add: run_defs modP_def)

lemma wp_lift [simp, wp_rules]: "wp G (liftP r) Q s = Q r s"
  by (simp add: run_defs liftP_def)

lemma wp_py [simp, wp_rules]:
  "wp G (pyP r) Q s = (case r of Inl x \<Rightarrow> Q (Inl (Python x)) s | Inr v \<Rightarrow> Q (Inr v) s)"
  by (simp add: pyP_def split: sum.splits)

lemma wp_bind [simp, wp_rules]:
  "wp G (bindP p f) Q s =
     wp G p (\<lambda>r s'. case r of Inl e \<Rightarrow> Q (Inl e) s' | Inr x \<Rightarrow> wp G (f x) Q s') s"
  by (auto simp: run_defs bindP_def split: prod.splits sum.splits)

lemma wp_then [simp, wp_rules]:
  "wp G (thenP p q) Q s =
     wp G p (\<lambda>r s'. case r of Inl e \<Rightarrow> Q (Inl e) s' | Inr x \<Rightarrow> wp G q Q s') s"
  by (simp add: thenP_def)

lemma wp_catch [simp, wp_rules]:
  "wp G (catchP p h) Q s =
     wp G p (\<lambda>r s'. case r of Inl e \<Rightarrow> wp G (h e) Q s' | Inr x \<Rightarrow> Q (Inr x) s') s"
  by (auto simp: run_defs catchP_def split: prod.splits sum.splits)

lemma wp_try [simp, wp_rules]:
  "wp G (tryP p h f) Q s =
     wp G p (\<lambda>r s'. case r of Inl e \<Rightarrow> wp G (h e) Q s' | Inr x \<Rightarrow> wp G (f x) Q s') s"
  by (auto simp: run_defs tryP_def split: prod.splits sum.splits)

lemma wp_finally [simp, wp_rules]:
  "wp G (finallyP p f) Q s = wp G p (\<lambda>r s'. Q r (f s')) s"
  by (auto simp: run_defs finallyP_def split: prod.splits)

lemma wp_call [simp, wp_rules]:
  "wp G (callP E c) Q s = (G c s \<and>
     (\<forall>r s'. respond E c s = (r, s') \<longrightarrow> Q (if r = Cancel then Inl Cancelled else Inr r) s'))"
  by (auto simp: run_defs callP_def split: prod.splits)

lemma wp_when [simp, wp_rules]: "wp G (whenP b p) Q s = (if b then wp G p Q s else Q (Inr ()) s)"
  by (simp add: whenP_def)

lemma wp_uuid [simp, wp_rules]:
  "wp G (uuidP E) Q s = Q (Inr (uuid E (uuids s))) (s\<lparr>uuids := Suc (uuids s)\<rparr>)"
  by (simp add: run_defs uuidP_def)

lemma wp_save [simp, wp_rules]: "wp G (saveP r) Q s = Q (Inr ()) (s\<lparr>db := put_session r (db s)\<rparr>)"
  by (simp add: saveP_def)

lemma wp_save_op [simp, wp_rules]:
  "wp G (save_opP op) Q s = Q (Inr ()) (s\<lparr>db := put_operation op (db s)\<rparr>)"
  by (simp add: save_opP_def)

lemma wp_put_setting [simp, wp_rules]:
  "wp G (put_settingP i d) Q s = Q (Inr ()) (s\<lparr>db := db_put KSettings i d (db s)\<rparr>)"
  by (simp add: put_settingP_def)

lemma wp_event [simp, wp_rules]:
  "wp G (eventP E a) Q s = Q (Inr ())
     (s\<lparr>uuids := Suc (uuids s), db := db_event (uuid E (uuids s)) (clock s) a (db s)\<rparr>)"
  by (simp add: eventP_def)

lemma wp_spawn [simp, wp_rules]:
  "wp G (spawnP j) Q s = Q (Inr (next_task s))
     (s\<lparr>jobs := jobs s @ [(next_task s, j)], next_task := Suc (next_task s)\<rparr>)"
  by (simp add: run_defs spawnP_def)

lemma wp_if [wp_rules]: "wp G (if b then p else q) Q s = (if b then wp G p Q s else wp G q Q s)"
  by simp

lemma wp_get_bind: "wp G (bindP (getP f) k) Q s = wp G (k (f s)) Q s"
  by simp

lemma wp_ifI: "(b \<Longrightarrow> wp G p Q s) \<Longrightarrow> (\<not> b \<Longrightarrow> wp G q Q s) \<Longrightarrow> wp G (if b then p else q) Q s"
  by simp

lemma wp_liftI:
  "(\<And>e. r = Inl e \<Longrightarrow> Q (Inl e) s) \<Longrightarrow> (\<And>x. r = Inr x \<Longrightarrow> wp G (k x) Q s) \<Longrightarrow> wp G (bindP (liftP r) k) Q s"
  by (cases r) auto

lemma wp_mono:
  assumes "wp G p Q s" and "\<And>c u. G c u \<Longrightarrow> G' c u" and "\<And>r s'. Q r s' \<Longrightarrow> Q' r s'"
  shows "wp G' p Q' s"
  using assms by (auto simp: wp_def)

lemma wp_conj: "wp G p Q s \<Longrightarrow> wp G' p Q' s \<Longrightarrow> wp (\<lambda>c u. G c u \<and> G' c u) p (\<lambda>r s. Q r s \<and> Q' r s) s"
  by (auto simp: wp_def)

lemma wp_calls: "wp G p Q s \<Longrightarrow> (c, u) \<in> set (calls p s) \<Longrightarrow> G c u"
  by (force simp: wp_def)

lemma wp_result: "wp G p Q s \<Longrightarrow> Q (result p s) (final p s)"
  by (simp add: wp_def)

text \<open>Conclusions that hold whatever the first part of a program does.\<close>

lemma wp_any: "(\<And>r s'. Q r s') \<Longrightarrow> wp (\<lambda>_ _. True) p Q s"
  by (simp add: wp_def)

lemma wp_bind_any:
  "(\<And>e s. Q (Inl e) s) \<Longrightarrow> (\<And>x s. wp (\<lambda>_ _. True) (f x) Q s) \<Longrightarrow> wp (\<lambda>_ _. True) (bindP p f) Q s"
  unfolding wp_bind by (rule wp_any) (simp split: sum.split)

lemma wp_try_any:
  "(\<And>e s. wp (\<lambda>_ _. True) (h e) Q s) \<Longrightarrow> (\<And>x s. wp (\<lambda>_ _. True) (f x) Q s) \<Longrightarrow> wp (\<lambda>_ _. True) (tryP p h f) Q s"
  unfolding wp_try by (rule wp_any) (simp split: sum.split)

text \<open>Every call of the program is among \<open>T\<close>: a program's own trace, fixed while its parts are visited.\<close>

definition traced :: "('c \<times> 's) set \<Rightarrow> ('c, 's, 'a) program \<Rightarrow> 's \<Rightarrow> bool" where
  "traced T p s = (set (calls p s) \<subseteq> T)"

lemma traced_wp: "traced T p s = wp (\<lambda>c u. (c, u) \<in> T) p (\<lambda>_ _. True) s"
  by (auto simp: traced_def wp_def)

lemma traced_bind:
  "traced T (bindP p f) s = wp (\<lambda>c u. (c, u) \<in> T) p (\<lambda>r s'. \<forall>x. r = Inr x \<longrightarrow> traced T (f x) s') s"
  unfolding traced_wp wp_bind by (rule arg_cong [where f = "\<lambda>Q. wp _ p Q s"]) (auto split: sum.splits)

lemma traced_then:
  "traced T (thenP p q) s = wp (\<lambda>c u. (c, u) \<in> T) p (\<lambda>r s'. r = Inr () \<longrightarrow> traced T q s') s"
  unfolding thenP_def traced_bind by simp

lemma traced_steps:
  "traced T (bindP (getP get) k) s = traced T (k (get s)) s"
  "traced T (thenP (modP g) p) s = traced T p (g s)"
  "traced T (thenP (saveP r) p) s = traced T p (s\<lparr>db := put_session r (db s)\<rparr>)"
  "traced T (thenP (whenP b (modP g)) p) s = traced T p (if b then g s else s)"
  "traced T (thenP (whenP b (saveP r)) p) s = traced T p (if b then s\<lparr>db := put_session r (db s)\<rparr> else s)"
  "traced T (finallyP q g) s = traced T q s"
  by (auto simp: traced_bind traced_then traced_wp)

lemma wp_for:
  assumes "I s"
    and "\<And>x s. x \<in> set xs \<Longrightarrow> I s \<Longrightarrow> wp G (f x) (\<lambda>r s'. case r of Inl e \<Rightarrow> Q (Inl e) s' | Inr _ \<Rightarrow> I s') s"
    and "\<And>s. I s \<Longrightarrow> Q (Inr ()) s"
  shows "wp G (forP f xs) Q s"
  using assms
proof (induction xs arbitrary: s)
  case (Cons x xs)
  have "wp G (f x) (\<lambda>r s'. case r of Inl e \<Rightarrow> Q (Inl e) s' | Inr _ \<Rightarrow> I s') s"
    using Cons.prems by simp
  then have "wp G (f x) (\<lambda>r s'. case r of Inl e \<Rightarrow> Q (Inl e) s' | Inr _ \<Rightarrow> wp G (forP f xs) Q s') s"
  proof (rule wp_mono)
    fix r s'
    assume r: "case r of Inl e \<Rightarrow> Q (Inl e) s' | Inr _ \<Rightarrow> I s'"
    show "case r of Inl e \<Rightarrow> Q (Inl e) s' | Inr _ \<Rightarrow> wp G (forP f xs) Q s'"
    proof (cases r)
      case (Inr u)
      with r have "I s'" by simp
      then have "wp G (forP f xs) Q s'" using Cons.prems by (intro Cons.IH) auto
      with Inr show ?thesis by simp
    qed (use r in simp)
  qed
  then show ?case by simp
qed simp

section \<open>Programs that only read\<close>

text \<open>
  The calls that submit a wallet transaction. A program that \<open>stays R C\<close> only makes calls that
  satisfy \<open>C\<close>, in states its starting state is related to by \<open>R\<close>, and ends in such a state.
\<close>

fun wallet_call :: "call \<Rightarrow> bool" where
  "wallet_call (Post_open _ _ _ _) = True"
| "wallet_call (Post_close _ _) = True"
| "wallet_call (Post_withdraw _) = True"
| "wallet_call _ = False"

fun inference_call :: "call \<Rightarrow> bool" where
  "inference_call (Post_completion _ _ _ _) = True"
| "inference_call _ = False"

definition stays :: "('s \<Rightarrow> 's \<Rightarrow> bool) \<Rightarrow> ('c \<Rightarrow> bool) \<Rightarrow> ('c, 's, 'a) program \<Rightarrow> bool" where
  "stays R C p = (\<forall>s. wp (\<lambda>c u. C c \<and> R s u) p (\<lambda>_ s'. R s s') s)"

lemma stays_weaken: "stays R C p \<Longrightarrow> (\<And>c. C c \<Longrightarrow> C' c) \<Longrightarrow> stays R C' p"
  unfolding stays_def by (blast intro: wp_mono)

lemma stays_every: "stays R C p \<Longrightarrow> stays R (\<lambda>_. True) p"
  by (rule stays_weaken) auto

text \<open>
  The contract of interference: a preorder on states. Every program built from calls the
  environment answers within the preorder and from updates within it stays within it.
\<close>

locale state_interference =
  fixes R :: "'s \<Rightarrow> 's \<Rightarrow> bool"
  assumes refl: "R s s"
    and trans: "R s t \<Longrightarrow> R t u \<Longrightarrow> R s u"
begin

lemma pure:
  "stays R C (retP x)" "stays R C (raiseP e)" "stays R C (getP f)" "stays R C (liftP r)" "stays R C (pyP y)"
  by (auto simp: stays_def refl split: sum.splits)

lemma update: "(\<And>s. R s (f s)) \<Longrightarrow> stays R C (modP f)"
  by (simp add: stays_def)

lemma from_here:
  assumes "stays R C p" and "R s s'"
  shows "wp (\<lambda>c u. C c \<and> R s u) p (\<lambda>_ s''. R s s'') s'"
  using assms by (auto simp: stays_def intro: wp_mono [where G = "\<lambda>c u. C c \<and> R s' u"] trans)

lemma seq:
  assumes "stays R C p" and "\<And>x. stays R C (f x)"
  shows "stays R C (bindP p f)"
proof -
  have "wp (\<lambda>c u. C c \<and> R s u) (bindP p f) (\<lambda>_. R s) s" for s
    using assms(1) unfolding stays_def wp_bind
    by (elim allE [of _ s] wp_mono) (auto split: sum.splits intro: from_here assms(2))
  then show ?thesis by (simp add: stays_def)
qed

lemma seq_unit: "stays R C p \<Longrightarrow> stays R C q \<Longrightarrow> stays R C (thenP p q)"
  unfolding thenP_def by (rule seq)

lemma handler:
  assumes "stays R C p" and "\<And>e. stays R C (h e)"
  shows "stays R C (catchP p h)"
proof -
  have "wp (\<lambda>c u. C c \<and> R s u) (catchP p h) (\<lambda>_. R s) s" for s
    using assms(1) unfolding stays_def wp_catch
    by (elim allE [of _ s] wp_mono) (auto split: sum.splits intro: from_here assms(2))
  then show ?thesis by (simp add: stays_def)
qed

lemma attempt:
  assumes "stays R C p" and "\<And>e. stays R C (h e)" and "\<And>x. stays R C (f x)"
  shows "stays R C (tryP p h f)"
proof -
  have "wp (\<lambda>c u. C c \<and> R s u) (tryP p h f) (\<lambda>_. R s) s" for s
    using assms(1) unfolding stays_def wp_try
    by (elim allE [of _ s] wp_mono) (auto split: sum.splits intro: from_here assms(2,3))
  then show ?thesis by (simp add: stays_def)
qed

lemma cleanup:
  assumes "stays R C p" and "\<And>s. R s (f s)"
  shows "stays R C (finallyP p f)"
proof -
  have "wp (\<lambda>c u. C c \<and> R s u) (finallyP p f) (\<lambda>_. R s) s" for s
    using assms(1) unfolding stays_def wp_finally
    by (elim allE [of _ s] wp_mono) (auto intro: trans assms(2))
  then show ?thesis by (simp add: stays_def)
qed

lemma loop: "(\<And>x. x \<in> set xs \<Longrightarrow> stays R C (f x)) \<Longrightarrow> stays R C (forP f xs)"
  by (induction xs) (auto intro: pure seq_unit)

lemma conditional: "stays R C p \<Longrightarrow> stays R C q \<Longrightarrow> stays R C (if b then p else q)"
  by simp

lemma guarded: "stays R C p \<Longrightarrow> stays R C (whenP b p)"
  by (simp add: whenP_def pure)

lemma by_option: "stays R C p \<Longrightarrow> (\<And>x. stays R C (f x)) \<Longrightarrow> stays R C (case v of None \<Rightarrow> p | Some x \<Rightarrow> f x)"
  by (cases v) auto

lemma by_sum: "(\<And>x. stays R C (f x)) \<Longrightarrow> (\<And>y. stays R C (g y)) \<Longrightarrow> stays R C (case v of Inl x \<Rightarrow> f x | Inr y \<Rightarrow> g y)"
  by (cases v) auto

lemma by_list: "stays R C p \<Longrightarrow> (\<And>x xs. stays R C (f x xs)) \<Longrightarrow> stays R C (case v of [] \<Rightarrow> p | x # xs \<Rightarrow> f x xs)"
  by (cases v) auto

lemma by_exn: "(\<And>g. stays R C (f g)) \<Longrightarrow> (\<And>x. stays R C (h x)) \<Longrightarrow> stays R C p \<Longrightarrow>
    stays R C (case e of Gateway g \<Rightarrow> f g | Python x \<Rightarrow> h x | Cancelled \<Rightarrow> p)"
  by (cases e) auto

lemma use:
  assumes "stays R C p"
    and "\<And>c u. C c \<Longrightarrow> R s u \<Longrightarrow> G c u" and "\<And>r s'. R s s' \<Longrightarrow> Q r s'"
  shows "wp G p Q s"
  using assms(1) unfolding stays_def
  by (elim allE [of _ s] wp_mono) (auto intro: assms)

lemma use_bind:
  assumes "stays R C p"
    and "\<And>c u. C c \<Longrightarrow> R s u \<Longrightarrow> G c u" and "\<And>e s'. R s s' \<Longrightarrow> Q (Inl e) s'"
    and "\<And>x s'. R s s' \<Longrightarrow> wp G (f x) Q s'"
  shows "wp G (bindP p f) Q s"
  unfolding wp_bind by (rule use [OF assms(1)]) (auto split: sum.splits intro: assms)

lemma use_bind_result:
  assumes "stays R C p" and "wp (\<lambda>_ _. True) p (\<lambda>r _. \<forall>x. r = Inr x \<longrightarrow> P x) s"
    and "\<And>c u. C c \<Longrightarrow> R s u \<Longrightarrow> G c u" and "\<And>e s'. R s s' \<Longrightarrow> Q (Inl e) s'"
    and "\<And>x s'. R s s' \<Longrightarrow> P x \<Longrightarrow> wp G (f x) Q s'"
  shows "wp G (bindP p f) Q s"
proof -
  have "wp (\<lambda>c u. (C c \<and> R s u) \<and> True) p (\<lambda>r s'. R s s' \<and> (\<forall>x. r = Inr x \<longrightarrow> P x)) s"
    using assms(1,2) by (intro wp_conj) (auto simp: stays_def)
  then show ?thesis unfolding wp_bind
    by (rule wp_mono) (auto split: sum.splits intro: assms(3-5))
qed

lemma use_bind_traced:
  assumes "stays R C p" and "traced T (bindP p f) s"
    and "\<And>c u. C c \<Longrightarrow> R s u \<Longrightarrow> G c u" and "\<And>e s'. R s s' \<Longrightarrow> Q (Inl e) s'"
    and "\<And>x s'. R s s' \<Longrightarrow> traced T (f x) s' \<Longrightarrow> wp G (f x) Q s'"
  shows "wp G (bindP p f) Q s"
proof -
  have "wp (\<lambda>c u. (C c \<and> R s u) \<and> (c, u) \<in> T) p
      (\<lambda>r s'. R s s' \<and> (\<forall>x. r = Inr x \<longrightarrow> traced T (f x) s')) s"
    using assms(1,2) unfolding traced_bind by (intro wp_conj) (auto simp: stays_def)
  then show ?thesis unfolding wp_bind
    by (rule wp_mono) (auto split: sum.splits intro: assms(3-5))
qed

lemmas rules = pure seq seq_unit handler attempt cleanup loop conditional guarded by_option by_sum by_list by_exn

end

text \<open>The gateway's awaits: the environment answers within the preorder.\<close>

definition rely :: "env \<Rightarrow> (gw \<Rightarrow> gw \<Rightarrow> bool) \<Rightarrow> bool" where
  "rely E R = (\<forall>c s. R s (snd (respond E c s)))"

lemma relyD: "rely E R \<Longrightarrow> respond E c s = (r, s') \<Longrightarrow> R s s'"
  by (metis rely_def snd_conv)

locale interference = state_interference R for R :: "gw \<Rightarrow> gw \<Rightarrow> bool"
begin

lemma await: "rely E R \<Longrightarrow> C c \<Longrightarrow> stays R C (callP E c)"
  by (auto simp: stays_def refl dest: relyD)

end

text \<open>
  Three instances: unrestricted interference; nobody else releases a lock the program holds
  (the contract of \<open>asyncio.Lock\<close>); and the others leave the reservation \<open>i\<close> in \<open>active\<close>
  alone and the table well formed.
\<close>

definition anything :: "gw \<Rightarrow> gw \<Rightarrow> bool" where
  "anything s t = True"

definition keeps_lock :: "gw \<Rightarrow> gw \<Rightarrow> bool" where
  "keeps_lock s t = (locked s \<longrightarrow> locked t)"

definition keeps_active :: "string \<Rightarrow> gw \<Rightarrow> gw \<Rightarrow> bool" where
  "keeps_active i s t = ((db_wf (db s) \<longrightarrow> db_wf (db t)) \<and> (i \<in> active t \<longleftrightarrow> i \<in> active s))"

interpretation any: interference anything
  by unfold_locales (simp_all add: anything_def)

interpretation lock: interference keeps_lock
  by unfold_locales (auto simp: keeps_lock_def)

interpretation lease: interference "keeps_active i"
  by unfold_locales (auto simp: keeps_active_def)

lemma rely_anything [simp]: "rely E anything"
  by (simp add: rely_def anything_def)

text \<open>Calls that neither submit a wallet transaction nor run an inference.\<close>

abbreviation background_call :: "call \<Rightarrow> bool" where
  "background_call c \<equiv> \<not> wallet_call c \<and> \<not> inference_call c"

end
