(* ===== verification/Supervisor.thy ===== *)
theory Supervisor
  imports Effects
begin

text \<open>
  node_helper/app.py: the process that keeps the node running, changes its rating file, and
  answers the gateway's restart requests; with the secrets and tokens of gateway/config.py,
  gateway/runtime.py and node_helper/run.py.

  The state is the helper's: its data directory, the child process, the lock, and what it reports.
  A step on the file system and an await are both outside calls, so the trace of a program holds
  every state the directory passes through, and a crash can be placed between any two of them.
  \<open>atomic_write\<close> is its three steps: the temporary file, the rename, and the sync of the
  directory; each may fail. A step on the file system changes nothing but the named file; an await
  lets the other coroutines of the helper run.

  File contents are kept as the documents they hold. The digests of \<open>hashlib\<close> are
  parameters.
\<close>

section \<open>Secrets and tokens\<close>

type_synonym environ = "string \<Rightarrow> string option"

text \<open>
  \<open>secret(name, default)\<close>: the file named by \<open>NAME_FILE\<close> wins over the variable. Reading
  a file that is missing raises.
\<close>

definition secret :: "(string \<Rightarrow> string option) \<Rightarrow> environ \<Rightarrow> string \<Rightarrow> string \<Rightarrow> pyexc + string" where
  "secret read_file getenv name dflt =
    (case getenv (name @ ''_FILE'') of
       Some path \<Rightarrow> if path \<noteq> [] then (case read_file path of None \<Rightarrow> Inl OSError | Some t \<Rightarrow> Inr (strip t))
                    else Inr (case getenv name of None \<Rightarrow> dflt | Some v \<Rightarrow> v)
     | None \<Rightarrow> Inr (case getenv name of None \<Rightarrow> dflt | Some v \<Rightarrow> v))"

definition token_char :: "char \<Rightarrow> bool" where
  "token_char c = (is_digit c \<or> c = CHR ''_'' \<or> c = CHR ''-'' \<or>
     (let l = lower_char c in CHR ''a'' \<le> l \<and> l \<le> CHR ''z''))"

definition validate_helper_token :: "string \<Rightarrow> pyexc + unit" where
  "validate_helper_token token =
    (if 32 \<le> int (length token) \<and> int (length token) \<le> 256 \<and> list_all token_char token then Inr () else Inl RuntimeError)"

definition transport :: "environ \<Rightarrow> (string \<Rightarrow> string option) \<Rightarrow> pyexc + string" where
  "transport getenv read_file =
    (let mode = (case getenv ''HELPER_TRANSPORT'' of None \<Rightarrow> ''unix'' | Some m \<Rightarrow> m) in
     if mode \<noteq> ''unix'' \<and> mode \<noteq> ''http'' then Inl RuntimeError
     else if mode = ''http'' then
       (case secret read_file getenv ''HELPER_TOKEN'' [] of
          Inl x \<Rightarrow> Inl x
        | Inr t \<Rightarrow> (case validate_helper_token t of Inl x \<Rightarrow> Inl x | Inr _ \<Rightarrow> Inr mode))
     else Inr mode)"

section \<open>The environment of the node\<close>

definition networks :: "string \<Rightarrow> (string \<times> string \<times> string) option" where
  "networks c =
    (if c = ''8453'' then Some (''https://base.blockscout.com/api/v2'',
       ''0x6aBE1d282f72B474E54527D93b979A4f64d3030a'', ''0x7431aDa8a591C955a994a21710752EF9b882b8e3'')
     else if c = ''84532'' then Some (''https://base-sepolia.blockscout.com/api/v2'',
       ''0xA328196f2438DADA5ab729E39388D86896c27c85'', ''0x5C80Ddd187054E1E4aBBfFCD750498e81d34FfA3'')
     else None)"

definition unset :: "environ \<Rightarrow> string \<Rightarrow> bool" where
  "unset env name = (case env name of None \<Rightarrow> True | Some v \<Rightarrow> v = [])"

definition set_default :: "string \<Rightarrow> string \<Rightarrow> environ \<Rightarrow> environ" where
  "set_default name v env = (if unset env name then env(name \<mapsto> v) else env)"

fun remove_all :: "string list \<Rightarrow> environ \<Rightarrow> environ" where
  "remove_all [] env = env"
| "remove_all (n # ns) env = remove_all ns (env(n := None))"

definition network_defaults :: "string \<times> string \<times> string \<Rightarrow> environ \<Rightarrow> environ" where
  "network_defaults n env = (case n of (api, diamond, mor) \<Rightarrow>
     set_default ''MOR_TOKEN_ADDRESS'' mor
       (set_default ''DIAMOND_CONTRACT_ADDRESS'' diamond (set_default ''BLOCKSCOUT_API_URL'' api env)))"

definition node_settings :: "string \<Rightarrow> string \<Rightarrow> string \<Rightarrow> environ \<Rightarrow> environ" where
  "node_settings dir password key env = env(
     ''WALLET_PRIVATE_KEY'' \<mapsto> key, ''COOKIE_CONTENT'' \<mapsto> ''admin:'' @ password,
     ''COOKIE_FILE_PATH'' \<mapsto> dir @ ''/.cookie'', ''AUTH_CONFIG_FILE_PATH'' \<mapsto> dir @ ''/proxy.conf'',
     ''RATING_CONFIG_PATH'' \<mapsto> dir @ ''/rating-config.json'', ''PROXY_STORAGE_PATH'' \<mapsto> dir @ ''/storage'',
     ''GATEWAY_JOURNAL_PATH'' \<mapsto> dir @ ''/gateway-journal'',
     ''PROXY_STORE_CHAT_CONTEXT'' \<mapsto> ''false'', ''PROXY_FORWARD_CHAT_CONTEXT'' \<mapsto> ''false'')"

definition private_names :: "string list" where
  "private_names = [''PROVIDER_ALLOW_LIST'', ''RATING_CONFIG_CONTENT'', ''HELPER_TOKEN'', ''HELPER_TOKEN_FILE'']"

definition node_environment :: "string \<Rightarrow> string \<Rightarrow> string \<Rightarrow> environ \<Rightarrow> pyexc + environ" where
  "node_environment dir password key env =
    (if int (length password) < 32 \<or> key = [] then Inl RuntimeError
     else
       (case networks (case env ''ETH_NODE_CHAIN_ID'' of None \<Rightarrow> ''8453'' | Some c \<Rightarrow> c) of
          None \<Rightarrow> Inl RuntimeError
        | Some n \<Rightarrow> Inr (remove_all private_names (node_settings dir password key (network_defaults n env)))))"

section \<open>Requests\<close>

text \<open>\<open>Rating.validated\<close>: the address lists go through the validators of \<open>Providers\<close>.\<close>

definition validated :: "rating \<Rightarrow> rating option" where
  "validated r =
    (case validate_providers \<lparr>mode = All, allow = providerAllowlist r, deny = providerDenylist r\<rparr> of
       None \<Rightarrow> None
     | Some p \<Rightarrow> Some (r\<lparr>providerAllowlist := allow p, providerDenylist := deny p\<rparr>))"

record restart_request =
  req_rating :: "rating option"
  req_operation :: "string option"

definition hex_id :: "string \<Rightarrow> bool" where
  "hex_id s = (length s = 32 \<and> list_all (\<lambda>c. is_digit c \<or> CHR ''a'' \<le> c \<and> c \<le> CHR ''f'') s)"

text \<open>
  The validation of \<open>Rating\<close> and \<open>Params\<close> and of the whole body: the weights come through the
  validator that the policy uses. None is the answer 422.
\<close>

definition parse_rating :: "rating \<Rightarrow> rating option" where
  "parse_rating r =
    (if algorithm r \<noteq> ''default'' then None
     else map_option (\<lambda>w. r\<lparr>params_weights := w\<rparr>) (validate_weights (params_weights r)))"

definition parse_body :: "restart_request \<Rightarrow> restart_request option" where
  "parse_body q =
    (case req_rating q of
       None \<Rightarrow> Some q
     | Some r \<Rightarrow> map_option (\<lambda>v. q\<lparr>req_rating := Some v\<rparr>) (parse_rating r))"

definition parse_restart :: "restart_request \<Rightarrow> restart_request option" where
  "parse_restart q =
    (case req_operation q of
       Some i \<Rightarrow> if hex_id i then parse_body q else None
     | None \<Rightarrow> parse_body q)"

section \<open>The directory and the process\<close>

datatype restart_state = Op_running | Op_succeeded | Op_failed | Op_interrupted

record op_record =
  rec_state :: restart_state
  op_fingerprint :: string
  op_result :: "string option"
  op_message :: "string option"

datatype content = Rating_doc rating | Pending | Op_doc op_record | Other string

datatype child = No_child | Running | Exited

record sup =
  files :: "string \<Rightarrow> content option"
  child :: child
  sup_locked :: bool
  sup_error :: "string option"
  healthy :: bool
  sup_mono :: time

definition rating_path :: string where "rating_path = ''rating-config.json''"
definition backup :: string where "backup = ''rating-config.previous.json''"
definition applying :: string where "applying = ''applying''"

definition temp_of :: "string \<Rightarrow> string" where
  "temp_of path = path @ ''.tmp''"

definition op_path :: "string \<Rightarrow> string" where
  "op_path i = ''operation-'' @ i @ ''.json''"

datatype fs_op = Write_temp string content | Replace string | Sync_dir | Unlink string

fun apply_fs :: "fs_op \<Rightarrow> (string \<Rightarrow> content option) \<Rightarrow> string \<Rightarrow> content option" where
  "apply_fs (Write_temp path c) fs = fs(temp_of path := Some c)"
| "apply_fs (Replace path) fs =
    (case fs (temp_of path) of None \<Rightarrow> fs | Some c \<Rightarrow> fs(path := Some c, temp_of path := None))"
| "apply_fs Sync_dir fs = fs"
| "apply_fs (Unlink path) fs = fs(path := None)"

datatype scall = Fs fs_op | Spawn | Terminate | Kill | Wait_child "time option" | Probe_config | Probe_balance
  | Nap time | Sup_lock

record senv =
  srespond :: "scall \<Rightarrow> sup \<Rightarrow> reply \<times> sup"
  sha256 :: "content \<Rightarrow> string"
  fingerprint_of :: "restart_request \<Rightarrow> string"
  readiness_seconds :: time

type_synonym 'a sprog = "(scall, sup, 'a) program"

definition awaitS :: "senv \<Rightarrow> scall \<Rightarrow> reply sprog" where
  "awaitS E c = (\<lambda>s. case srespond E c s of (r, s') \<Rightarrow>
     (if r = Cancel then Inl Cancelled else Inr r, s', [(c, s)]))"

text \<open>A step on the file system: the operating system performs it or reports an error.\<close>

definition fsS :: "senv \<Rightarrow> fs_op \<Rightarrow> unit sprog" where
  "fsS E op = (\<lambda>s. if fst (srespond E (Fs op) s) = Task_done
     then (Inr (), s\<lparr>files := apply_fs op (files s)\<rparr>, [(Fs op, s)])
     else (Inl (Python OSError), s, [(Fs op, s)]))"

definition atomic_write :: "senv \<Rightarrow> string \<Rightarrow> content \<Rightarrow> unit sprog" where
  "atomic_write E path c =
    thenP (fsS E (Write_temp path c)) (thenP (fsS E (Replace path)) (fsS E Sync_dir))"

text \<open>\<open>path.read_bytes()\<close>.\<close>

definition read_file :: "string \<Rightarrow> content sprog" where
  "read_file path = bindP (getP (\<lambda>s. files s path)) (\<lambda>c.
     case c of None \<Rightarrow> raiseP (Python OSError) | Some x \<Rightarrow> retP x)"

section \<open>Starting and stopping the node\<close>

definition sup_start :: "senv \<Rightarrow> unit sprog" where
  "sup_start E = bindP (awaitS E Spawn) (\<lambda>r.
     if r = Task_done then modP (\<lambda>s. s\<lparr>child := Running\<rparr>) else raiseP (Python OSError))"

text \<open>
  The child gets a signal; when it has gone meanwhile the first signal is not an error. After
  20 seconds it is killed.
\<close>

definition sup_stop :: "senv \<Rightarrow> unit sprog" where
  "sup_stop E = bindP (getP child) (\<lambda>c.
     whenP (c = Running) (bindP (awaitS E Terminate) (\<lambda>r.
       whenP (r = Task_done) (bindP (awaitS E (Wait_child (Some 20))) (\<lambda>w.
         whenP (w = Task_timeout) (bindP (awaitS E Kill) (\<lambda>k.
           if k = Task_done then bindP (awaitS E (Wait_child None)) (\<lambda>_. retP ())
           else raiseP (Python OSError))))))))"

definition status_200 :: "reply \<Rightarrow> bool" where
  "status_200 r = (case r of Body st _ \<Rightarrow> st = 200 | Garbled st \<Rightarrow> st = 200 | Oversized st \<Rightarrow> st = 200 | _ \<Rightarrow> False)"

text \<open>
  One probe: true when both pages answer 200. A transport error is swallowed by the loop, which
  then sleeps. \<open>Nap\<close> is \<open>asyncio.sleep\<close>.
\<close>

definition probe :: "senv \<Rightarrow> bool sprog" where
  "probe E = bindP (awaitS E Probe_config) (\<lambda>r.
     if status_200 r then bindP (awaitS E Probe_balance) (\<lambda>b. retP (status_200 b)) else retP False)"

text \<open>
  The loop of \<open>ready\<close> with the number of rounds as fuel; None is the answer of a loop still
  running. \<open>ready_returns\<close> below shows how many rounds are enough.
\<close>

fun ready_rounds :: "nat \<Rightarrow> senv \<Rightarrow> time \<Rightarrow> unit option sprog" where
  "ready_rounds 0 E deadline = retP None"
| "ready_rounds (Suc n) E deadline = bindP (getP sup_mono) (\<lambda>now.
     if \<not> now < deadline then raiseP (Python RuntimeError)
     else bindP (getP child) (\<lambda>c.
       if c \<noteq> Running then raiseP (Python RuntimeError)
       else bindP (probe E) (\<lambda>up.
         if up then thenP (modP (\<lambda>s. s\<lparr>healthy := True\<rparr>)) (retP (Some ()))
         else bindP (awaitS E (Nap (1 / 2))) (\<lambda>_. ready_rounds n E deadline))))"

definition sup_ready :: "nat \<Rightarrow> senv \<Rightarrow> unit option sprog" where
  "sup_ready n E = bindP (getP sup_mono) (\<lambda>now. ready_rounds n E (now + readiness_seconds E))"

section \<open>Restarting\<close>

definition prepare :: "senv \<Rightarrow> rating option \<Rightarrow> unit sprog" where
  "prepare E rating = (case rating of
     None \<Rightarrow> retP ()
   | Some r \<Rightarrow> bindP (read_file rating_path) (\<lambda>old.
       thenP (atomic_write E backup old)
         (thenP (atomic_write E applying Pending) (atomic_write E rating_path (Rating_doc r)))))"

definition set_error :: "string option \<Rightarrow> unit sprog" where
  "set_error e = modP (\<lambda>s. s\<lparr>sup_error := e\<rparr>)"

text \<open>\<open>stop\<close>, \<open>start\<close>, \<open>ready\<close>.\<close>

definition cycle :: "nat \<Rightarrow> senv \<Rightarrow> unit option sprog" where
  "cycle n E = thenP (sup_stop E) (thenP (sup_start E) (sup_ready n E))"

text \<open>
  The handler of a failed restart. While the journal exists the previous rating is written back
  and the node is started with it; the journal goes only when that node is ready.
\<close>

definition rollback_ready :: "nat \<Rightarrow> senv \<Rightarrow> unit option sprog" where
  "rollback_ready n E = catchP
     (bindP (sup_ready n E) (\<lambda>r. case r of
        None \<Rightarrow> retP None
      | Some _ \<Rightarrow> thenP (fsS E (Unlink applying)) (retP (Some ()))))
     (\<lambda>e. case e of
        Cancelled \<Rightarrow> raiseP e
      | _ \<Rightarrow> thenP (set_error (Some ''Rollback restored config but node is not ready'')) (retP (Some ())))"

definition rollback :: "nat \<Rightarrow> senv \<Rightarrow> exn \<Rightarrow> string option sprog" where
  "rollback n E e = thenP (set_error (Some ''Restart failed''))
     (bindP (getP (\<lambda>s. files s applying \<noteq> None)) (\<lambda>pending.
        if pending then
          bindP (read_file backup) (\<lambda>old.
            thenP (atomic_write E rating_path old)
              (thenP (sup_stop E) (thenP (sup_start E) (bindP (rollback_ready n E) (\<lambda>r.
                 case r of None \<Rightarrow> retP None | Some _ \<Rightarrow> raiseP e)))))
        else raiseP e))"

definition commit :: "senv \<Rightarrow> string option sprog" where
  "commit E = thenP (fsS E (Unlink applying))
     (bindP (read_file rating_path) (\<lambda>c. retP (Some (sha256 E c))))"

definition lockedS :: "senv \<Rightarrow> 'a sprog \<Rightarrow> 'a sprog" where
  "lockedS E p = bindP (awaitS E Sup_lock) (\<lambda>_.
     thenP (modP (\<lambda>s. s\<lparr>sup_locked := True\<rparr>)) (finallyP p (\<lambda>s. s\<lparr>sup_locked := False\<rparr>)))"

text \<open>The answer is the digest of the rating file, or None for a readiness loop still running.\<close>

definition restart_body :: "nat \<Rightarrow> senv \<Rightarrow> rating option \<Rightarrow> string option sprog" where
  "restart_body n E rating =
    thenP (modP (\<lambda>s. s\<lparr>healthy := False\<rparr>)) (thenP (prepare E rating)
      (tryP (bindP (cycle n E) (\<lambda>r. case r of None \<Rightarrow> retP None | Some _ \<Rightarrow> thenP (set_error None) (retP (Some ()))))
        (rollback n E)
        (\<lambda>r. case r of None \<Rightarrow> retP None | Some _ \<Rightarrow> commit E)))"

definition sup_restart :: "nat \<Rightarrow> senv \<Rightarrow> rating option \<Rightarrow> string option sprog" where
  "sup_restart n E rating = lockedS E (restart_body n E rating)"

section \<open>Monitoring\<close>

text \<open>
  One turn of the endless loop of \<open>monitor\<close>: the new count of failures. An answer to
  \<open>/config\<close> other than 200 counts as a failure, as does a transport error on either page.
\<close>

fun page_answered :: "reply \<Rightarrow> bool" where
  "page_answered (Body st j) = True"
| "page_answered (Garbled st) = True"
| "page_answered (Oversized st) = True"
| "page_answered _ = False"

definition check_node :: "senv \<Rightarrow> nat \<Rightarrow> nat sprog" where
  "check_node E misses = bindP (awaitS E Probe_config) (\<lambda>c.
     if \<not> page_answered c then thenP (modP (\<lambda>s. s\<lparr>healthy := False\<rparr>)) (retP (misses + 1))
     else let count = (if status_200 c then 0 else misses + 1) in
       bindP (awaitS E Probe_balance) (\<lambda>b.
         if \<not> page_answered b then thenP (modP (\<lambda>s. s\<lparr>healthy := False\<rparr>)) (retP (count + 1))
         else thenP (modP (\<lambda>s. s\<lparr>healthy := status_200 c \<and> status_200 b\<rparr>)) (retP count)))"

definition revive :: "senv \<Rightarrow> unit sprog" where
  "revive E = bindP (getP child) (\<lambda>c.
     whenP (c = Exited) (lockedS E
       (thenP (set_error (Some ''Node exited; supervisor restarted it'')) (sup_start E))))"

text \<open>\<open>except Exception\<close>: everything but the cancellation of the task.\<close>

definition or_attention :: "string \<Rightarrow> 'a \<Rightarrow> 'a sprog \<Rightarrow> 'a sprog" where
  "or_attention msg d p = catchP p (\<lambda>e. case e of
     Cancelled \<Rightarrow> raiseP Cancelled
   | _ \<Rightarrow> thenP (set_error (Some msg)) (retP d))"

definition monitor_round :: "nat \<Rightarrow> senv \<Rightarrow> nat \<Rightarrow> nat sprog" where
  "monitor_round n E misses = bindP (awaitS E (Nap 5)) (\<lambda>_. bindP (getP sup_locked) (\<lambda>busy.
     if busy then retP misses
     else bindP (or_attention ''Node monitoring needs attention'' misses
                  (thenP (revive E) (check_node E misses))) (\<lambda>count.
       bindP (getP sup_locked) (\<lambda>busy2.
         if 3 \<le> count \<and> \<not> busy2 then
           or_attention ''Unresponsive node could not be restarted'' count
             (bindP (sup_restart n E None) (\<lambda>_. retP 0))
         else retP count))))"

section \<open>Start of the helper\<close>

definition default_rating_doc :: content where
  "default_rating_doc = Rating_doc (rating_of default_policy)"

text \<open>The start of \<open>lifespan\<close>: an unfinished change of the rating is undone first.\<close>

definition startup :: "senv \<Rightarrow> unit sprog" where
  "startup E = bindP (getP (\<lambda>s. files s applying \<noteq> None)) (\<lambda>pending.
     thenP (whenP pending (bindP (read_file backup) (\<lambda>old.
        thenP (atomic_write E rating_path old) (fsS E (Unlink applying)))))
     (bindP (getP (\<lambda>s. files s rating_path = None)) (\<lambda>fresh.
        thenP (whenP fresh (atomic_write E rating_path default_rating_doc)) (sup_start E))))"

section \<open>The endpoints\<close>

datatype answer =
    Rating_hash string
  | Reused_id
  | Already_attempted op_record
  | Restart_failed string

definition save_op :: "senv \<Rightarrow> string option \<Rightarrow> op_record \<Rightarrow> unit sprog" where
  "save_op E i r = (case i of None \<Rightarrow> retP () | Some k \<Rightarrow> atomic_write E (op_path k) (Op_doc r))"

definition previous :: "string option \<Rightarrow> (string \<Rightarrow> content option) \<Rightarrow> content option" where
  "previous i fs = (case i of None \<Rightarrow> None | Some k \<Rightarrow> fs (op_path k))"

text \<open>The answer to an operation ID that is on record. A file that is no record makes \<open>json.loads\<close> raise.\<close>

definition replay :: "string \<Rightarrow> content \<Rightarrow> answer option sprog" where
  "replay fp c = (case c of
     Op_doc r \<Rightarrow>
       if op_fingerprint r \<noteq> fp then retP (Some Reused_id)
       else if rec_state r = Op_succeeded
         then (case op_result r of None \<Rightarrow> raiseP (Python KeyError) | Some h \<Rightarrow> retP (Some (Rating_hash h)))
       else retP (Some (Already_attempted r))
   | _ \<Rightarrow> raiseP (Python ValueError))"

definition running_record :: "string \<Rightarrow> op_record" where
  "running_record fp = \<lparr>rec_state = Op_running, op_fingerprint = fp, op_result = None, op_message = None\<rparr>"

definition requested_rating :: "restart_request \<Rightarrow> rating option sprog" where
  "requested_rating q = (case req_rating q of
     None \<Rightarrow> retP None
   | Some r \<Rightarrow> (case validated r of None \<Rightarrow> raiseP (Python ValueError) | Some v \<Rightarrow> retP (Some v)))"

text \<open>The record of an attempt that raised, and what is left to do about it.\<close>

definition restart_attempt_failed :: "senv \<Rightarrow> string option \<Rightarrow> op_record \<Rightarrow> exn \<Rightarrow> answer option sprog" where
  "restart_attempt_failed E i rec e = bindP (getP sup_error) (\<lambda>le.
     let msg = (case le of None \<Rightarrow> ''Restart interrupted'' | Some m \<Rightarrow> if m = [] then ''Restart interrupted'' else m) in
     thenP (save_op E i (rec\<lparr>rec_state := (if e = Cancelled then Op_interrupted else Op_failed), op_message := Some msg\<rparr>))
       (if e = Cancelled then raiseP e else retP (Some (Restart_failed msg))))"

definition restart_attempt :: "nat \<Rightarrow> senv \<Rightarrow> restart_request \<Rightarrow> op_record \<Rightarrow> answer option sprog" where
  "restart_attempt n E q rec = bindP (requested_rating q) (\<lambda>r. bindP (sup_restart n E r) (\<lambda>h.
     case h of
       None \<Rightarrow> retP None
     | Some d \<Rightarrow> thenP (save_op E (req_operation q) (rec\<lparr>rec_state := Op_succeeded, op_result := Some d\<rparr>))
         (retP (Some (Rating_hash d)))))"

definition restart_endpoint :: "nat \<Rightarrow> senv \<Rightarrow> restart_request \<Rightarrow> answer option sprog" where
  "restart_endpoint n E q =
    (let fp = fingerprint_of E q; i = req_operation q; rec = running_record fp in
     bindP (getP (\<lambda>s. previous i (files s))) (\<lambda>old. case old of
        Some c \<Rightarrow> replay fp c
      | None \<Rightarrow> thenP (save_op E i rec) (catchP (restart_attempt n E q rec) (restart_attempt_failed E i rec))))"

definition answer_status :: "answer \<Rightarrow> int" where
  "answer_status a = (case a of Rating_hash _ \<Rightarrow> 200 | Reused_id \<Rightarrow> 409 | Already_attempted _ \<Rightarrow> 409 | Restart_failed _ \<Rightarrow> 503)"

text \<open>\<open>/healthz\<close> and \<open>/status\<close>.\<close>

definition health_status :: "sup \<Rightarrow> int" where
  "health_status s = (if child s = Running then 200 else 503)"

record status_doc =
  st_running :: bool
  st_error :: "string option"
  st_ready :: bool
  st_rating :: "content option"
  st_rating_hash :: "string option"

definition status_of :: "senv \<Rightarrow> sup \<Rightarrow> status_doc" where
  "status_of E s = \<lparr>st_running = (child s = Running), st_error = sup_error s, st_ready = healthy s,
     st_rating = files s rating_path, st_rating_hash = map_option (sha256 E) (files s rating_path)\<rparr>"

text \<open>\<open>/operations/{id}\<close> and \<open>/journal/{id}\<close>: 400, 404 or the recorded document.\<close>

definition operation_endpoint :: "string \<Rightarrow> sup \<Rightarrow> int + content" where
  "operation_endpoint i s =
    (if \<not> hex_id i then Inl 400
     else (case files s (op_path i) of None \<Rightarrow> Inl 404 | Some c \<Rightarrow> Inr c))"

definition journal_endpoint :: "string \<Rightarrow> sup \<Rightarrow> int + content" where
  "journal_endpoint i s =
    (if \<not> hex_id i then Inl 400
     else (case files s (''gateway-journal/'' @ i @ ''.json'') of
        None \<Rightarrow> Inl 404
      | Some (Other t) \<Rightarrow> Inl 503
      | Some c \<Rightarrow> Inr c))"

text \<open>
  The middleware \<open>boundary\<close>: the status it answers itself, or None when the request goes on.
  The body arrives in chunks; None is the expiry of the 15 seconds.
\<close>

fun body_admitted :: "int \<Rightarrow> string option list \<Rightarrow> int option" where
  "body_admitted n [] = None"
| "body_admitted n (None # cs) = Some 408"
| "body_admitted n (Some c # cs) =
    (if 128 * 1024 < n + int (length c) then Some 413 else body_admitted (n + int (length c)) cs)"

record helper_http =
  hr_path :: string
  hr_method :: string
  hr_authorization :: string
  hr_origin :: string
  hr_chunks :: "string option list"

definition helper_boundary :: "string \<Rightarrow> helper_http \<Rightarrow> int option" where
  "helper_boundary token r =
    (if hr_path r = ''/healthz'' \<and> hr_method r = ''GET'' then None
     else if token \<noteq> [] \<and> hr_authorization r \<noteq> ''Bearer '' @ token then Some 401
     else if hr_origin r \<noteq> [] then Some 403
     else body_admitted 0 (hr_chunks r))"

section \<open>Rules for the helper's programs\<close>

lemma wp_awaitS [simp, wp_rules]:
  "wp G (awaitS E c) Q s = (G c s \<and>
     (\<forall>r s'. srespond E c s = (r, s') \<longrightarrow> Q (if r = Cancel then Inl Cancelled else Inr r) s'))"
  by (auto simp: run_defs awaitS_def split: prod.splits)

lemma wp_fsS [simp, wp_rules]:
  "wp G (fsS E op) Q s = (G (Fs op) s \<and>
     (if fst (srespond E (Fs op) s) = Task_done then Q (Inr ()) (s\<lparr>files := apply_fs op (files s)\<rparr>)
      else Q (Inl (Python OSError)) s))"
  by (auto simp: run_defs fsS_def)

lemma wp_read_file [simp, wp_rules]:
  "wp G (read_file p) Q s = (case files s p of None \<Rightarrow> Q (Inl (Python OSError)) s | Some c \<Rightarrow> Q (Inr c) s)"
  by (simp add: read_file_def split: option.splits)

lemma wp_set_error [simp, wp_rules]: "wp G (set_error e) Q s = Q (Inr ()) (s\<lparr>sup_error := e\<rparr>)"
  by (simp add: set_error_def)

lemma paths_distinct [simp]:
  "rating_path \<noteq> backup" "rating_path \<noteq> applying" "backup \<noteq> applying"
  "backup \<noteq> rating_path" "applying \<noteq> rating_path" "applying \<noteq> backup"
  by (simp_all add: rating_path_def backup_def applying_def)

lemma temp_distinct [simp]:
  "temp_of p \<noteq> rating_path" "temp_of p \<noteq> backup" "temp_of p \<noteq> applying" "temp_of p \<noteq> op_path i"
  "rating_path \<noteq> temp_of p" "backup \<noteq> temp_of p" "applying \<noteq> temp_of p" "op_path i \<noteq> temp_of p"
proof -
  have t: "last (temp_of p) = CHR ''p''" by (simp add: temp_of_def)
  have "last rating_path \<noteq> CHR ''p''" "last backup \<noteq> CHR ''p''" "last applying \<noteq> CHR ''p''" "last (op_path i) \<noteq> CHR ''p''"
    by (simp_all add: rating_path_def backup_def applying_def op_path_def)
  with t show "temp_of p \<noteq> rating_path" "temp_of p \<noteq> backup" "temp_of p \<noteq> applying" "temp_of p \<noteq> op_path i"
    "rating_path \<noteq> temp_of p" "backup \<noteq> temp_of p" "applying \<noteq> temp_of p" "op_path i \<noteq> temp_of p"
    by (metis, metis, metis, metis, metis, metis, metis, metis)
qed

text \<open>
  The files that a change of the rating is made of, and what the helper would find in them after
  a crash: with the journal present the backup counts, without it the rating file.
\<close>

definition agree :: "(string \<Rightarrow> content option) \<Rightarrow> (string \<Rightarrow> content option) \<Rightarrow> bool" where
  "agree fs gs = (fs rating_path = gs rating_path \<and> fs backup = gs backup \<and> fs applying = gs applying)"

definition recovers :: "content \<Rightarrow> (string \<Rightarrow> content option) \<Rightarrow> bool" where
  "recovers old fs = (if fs applying = None then fs rating_path = Some old else fs backup = Some old)"

text \<open>No change is under way: a journal left by an unfinished rollback does no harm.\<close>

definition undisturbed :: "content \<Rightarrow> (string \<Rightarrow> content option) \<Rightarrow> bool" where
  "undisturbed old fs = (fs rating_path = Some old \<and> (fs applying \<noteq> None \<longrightarrow> fs backup = Some old))"

lemma settled_recovers: "undisturbed old fs \<Longrightarrow> recovers old fs"
  by (auto simp: undisturbed_def recovers_def)

lemma agree_refl [simp]: "agree fs fs"
  by (simp add: agree_def)

lemma agree_trans: "agree fs gs \<Longrightarrow> agree gs hs \<Longrightarrow> agree fs hs"
  by (simp add: agree_def)

lemma agree_recovers: "agree fs gs \<Longrightarrow> recovers old gs = recovers old fs"
  by (simp add: agree_def recovers_def)

lemma agree_settled: "agree fs gs \<Longrightarrow> undisturbed old gs = undisturbed old fs"
  by (simp add: agree_def undisturbed_def)

text \<open>
  \<open>atomic_write\<close>: the old files are seen up to the rename, the new one from it on; a failure
  leaves one or the other.
\<close>

lemma wp_atomic_write:
  assumes "\<And>op u. agree (files s) (files u) \<Longrightarrow> G (Fs op) u"
    and "\<And>u. agree (files s) (files u) \<Longrightarrow> Q (Inl (Python OSError)) u"
    and "\<And>op u. agree ((files s)(path := Some c)) (files u) \<Longrightarrow> G (Fs op) u"
    and "\<And>r u. agree ((files s)(path := Some c)) (files u) \<Longrightarrow> r = Inr () \<or> r = Inl (Python OSError) \<Longrightarrow> Q r u"
  shows "wp G (atomic_write E path c) Q s"
  using assms by (auto simp: atomic_write_def agree_def)

definition keeps_files :: "sup \<Rightarrow> sup \<Rightarrow> bool" where
  "keeps_files s t = agree (files s) (files t)"

interpretation rating_files: state_interference keeps_files
  by unfold_locales (auto simp: keeps_files_def intro: agree_trans)

text \<open>
  What the lock gives: while this coroutine holds it, no await changes the three files, which the
  helper writes under the lock only.
\<close>

definition files_kept :: "senv \<Rightarrow> bool" where
  "files_kept E = (\<forall>c s. keeps_files s (snd (srespond E c s)))"

lemma await_kept: "files_kept E \<Longrightarrow> stays keeps_files (\<lambda>_. True) (awaitS E c)"
  by (auto simp: stays_def rating_files.refl) (metis files_kept_def snd_conv)

lemmas kept_rules = rating_files.rules rating_files.update await_kept

lemma stop_kept: "files_kept E \<Longrightarrow> stays keeps_files (\<lambda>_. True) (sup_stop E)"
  unfolding sup_stop_def by (intro kept_rules) auto

lemma start_kept: "files_kept E \<Longrightarrow> stays keeps_files (\<lambda>_. True) (sup_start E)"
  unfolding sup_start_def by (intro kept_rules) (auto simp: keeps_files_def)

lemma probe_kept: "files_kept E \<Longrightarrow> stays keeps_files (\<lambda>_. True) (probe E)"
  unfolding probe_def by (intro kept_rules) auto

lemma ready_rounds_kept: "files_kept E \<Longrightarrow> stays keeps_files (\<lambda>_. True) (ready_rounds n E d)"
  by (induction n) (auto intro!: kept_rules probe_kept simp: keeps_files_def)

lemma ready_kept: "files_kept E \<Longrightarrow> stays keeps_files (\<lambda>_. True) (sup_ready n E)"
  unfolding sup_ready_def by (intro kept_rules ready_rounds_kept)

lemma cycle_kept: "files_kept E \<Longrightarrow> stays keeps_files (\<lambda>_. True) (cycle n E)"
  unfolding cycle_def by (intro kept_rules stop_kept start_kept ready_kept)

section \<open>Changing the rating is atomic\<close>

abbreviation safe :: "content \<Rightarrow> scall \<Rightarrow> sup \<Rightarrow> bool" where
  "safe old c u \<equiv> recovers old (files u)"

lemma kept_safe:
  assumes "stays keeps_files (\<lambda>_. True) p" and "recovers old (files s)"
    and "\<And>r u. agree (files s) (files u) \<Longrightarrow> Q r u"
  shows "wp (safe old) p Q s"
  by (rule rating_files.use [OF assms(1)]) (use assms(2,3) agree_recovers in \<open>auto simp: keeps_files_def\<close>)

lemma kept_safe_bind:
  assumes "stays keeps_files (\<lambda>_. True) p" and "recovers old (files s)"
    and "\<And>e u. agree (files s) (files u) \<Longrightarrow> Q (Inl e) u"
    and "\<And>x u. agree (files s) (files u) \<Longrightarrow> wp (safe old) (f x) Q u"
  shows "wp (safe old) (bindP p f) Q s"
  unfolding wp_bind by (rule kept_safe [OF assms(1,2)]) (use assms(3,4) in \<open>auto split: sum.splits\<close>)

lemma kept_safe_then:
  assumes "stays keeps_files (\<lambda>_. True) p" and "recovers old (files s)"
    and "\<And>e u. agree (files s) (files u) \<Longrightarrow> Q (Inl e) u"
    and "\<And>u. agree (files s) (files u) \<Longrightarrow> wp (safe old) q Q u"
  shows "wp (safe old) (thenP p q) Q s"
  unfolding thenP_def by (rule kept_safe_bind [OF assms])

lemma safe_write:
  assumes "recovers old (files s)" and "recovers old ((files s)(path := Some c))"
    and "\<And>u. agree (files s) (files u) \<Longrightarrow> Q (Inl (Python OSError)) u"
    and "\<And>r u. agree ((files s)(path := Some c)) (files u) \<Longrightarrow> Q r u"
  shows "wp (safe old) (atomic_write E path c) Q s"
  by (rule wp_atomic_write) (use assms agree_recovers in auto)

lemma safe_write_then:
  assumes "recovers old (files s)" and "recovers old ((files s)(path := Some c))"
    and "\<And>u. agree (files s) (files u) \<or> agree ((files s)(path := Some c)) (files u) \<Longrightarrow> Q (Inl (Python OSError)) u"
    and "\<And>u. agree ((files s)(path := Some c)) (files u) \<Longrightarrow> wp (safe old) q Q u"
  shows "wp (safe old) (thenP (atomic_write E path c) q) Q s"
  unfolding wp_then by (rule wp_atomic_write) (use assms agree_recovers in auto)

definition prepared :: "content \<Rightarrow> rating \<Rightarrow> sup \<Rightarrow> bool" where
  "prepared old r u = (files u applying = Some Pending \<and> files u backup = Some old \<and>
     files u rating_path = Some (Rating_doc r))"

lemma prepared_recovers: "prepared old r u \<Longrightarrow> recovers old (files u)"
  by (simp add: prepared_def recovers_def)

lemma wp_prepare:
  assumes "undisturbed old (files s)"
  shows "wp (safe old) (prepare E (Some r))
    (\<lambda>res u. recovers old (files u) \<and> (res = Inr () \<longrightarrow> prepared old r u)) s"
proof -
  have "wp (safe old) (thenP (atomic_write E backup old)
      (thenP (atomic_write E applying Pending) (atomic_write E rating_path (Rating_doc r))))
    (\<lambda>res u. recovers old (files u) \<and> (res = Inr () \<longrightarrow> prepared old r u)) s"
    using assms
    by (intro safe_write_then safe_write) (auto simp: undisturbed_def agree_def recovers_def prepared_def)
  moreover have "files s rating_path = Some old" using assms by (simp add: undisturbed_def)
  ultimately show ?thesis by (simp add: prepare_def)
qed

lemma wp_rollback_ready:
  assumes "files_kept E" and "undisturbed old (files s)"
  shows "wp (safe old) (rollback_ready n E) (\<lambda>res u. recovers old (files u)) s"
  unfolding rollback_ready_def wp_catch
  using assms settled_recovers [OF assms(2)]
  by (intro kept_safe_bind ready_kept)
    (auto simp: agree_def undisturbed_def recovers_def split: exn.splits option.splits)

lemma wp_rollback:
  assumes "files_kept E" and "recovers old (files s)"
  shows "wp (safe old) (rollback n E e)
    (\<lambda>res u. recovers old (files u) \<and> (\<forall>h. res \<noteq> Inr (Some h))) s"
proof (cases "files s applying = None")
  case True
  with assms show ?thesis by (simp add: rollback_def)
next
  case False
  let ?Q = "\<lambda>res u. recovers old (files u) \<and> (\<forall>h. res \<noteq> Inr (Some (h :: string)))"
  have b: "files s backup = Some old" using False assms(2) by (simp add: recovers_def)
  have last: "wp (safe old) (bindP (rollback_ready n E) (\<lambda>r. case r of None \<Rightarrow> retP None | Some _ \<Rightarrow> raiseP e)) ?Q u"
    if "undisturbed old (files u)" for u
    unfolding wp_bind by (rule wp_mono [OF wp_rollback_ready [OF assms(1) that]]) (auto split: sum.splits option.splits)
  have "wp (safe old) (thenP (atomic_write E rating_path old) (thenP (sup_stop E) (thenP (sup_start E)
      (bindP (rollback_ready n E) (\<lambda>r. case r of None \<Rightarrow> retP None | Some _ \<Rightarrow> raiseP e))))) ?Q (s\<lparr>sup_error := er\<rparr>)" for er
    using assms False b
    by (intro safe_write_then kept_safe_then stop_kept start_kept last)
      (auto simp: agree_def recovers_def undisturbed_def)
  with False b show ?thesis by (simp add: rollback_def)
qed

lemma ready_rounds_healthy:
  "wp (\<lambda>_ _. True) (ready_rounds n E d) (\<lambda>res u. res = Inr (Some ()) \<longrightarrow> healthy u) s"
proof (induction n arbitrary: s)
  case (Suc n)
  have "wp (\<lambda>_ _. True) (bindP (awaitS E (Nap (1 / 2))) (\<lambda>_. ready_rounds n E d))
      (\<lambda>res u. res = Inr (Some ()) \<longrightarrow> healthy u) t" for t
    by (rule wp_bind_any) (auto intro: Suc.IH)
  then show ?case
    by (simp del: wp_bind add: wp_get_bind) (auto intro!: wp_bind_any simp del: wp_bind)
qed simp

lemma cycle_healthy: "wp (\<lambda>_ _. True) (cycle n E) (\<lambda>res u. res = Inr (Some ()) \<longrightarrow> healthy u) s"
  unfolding cycle_def thenP_def sup_ready_def
  by (intro wp_bind_any) (auto simp: wp_get_bind simp del: wp_bind intro: ready_rounds_healthy)

lemma wp_cycle:
  assumes "files_kept E" and "recovers old (files s)"
  shows "wp (safe old) (cycle n E)
    (\<lambda>res u. agree (files s) (files u) \<and> (res = Inr (Some ()) \<longrightarrow> healthy u)) s"
  using wp_conj [OF kept_safe [OF cycle_kept [OF assms(1)] assms(2)] cycle_healthy] by simp

text \<open>The address lists of a validated policy pass the validation of the helper unchanged.\<close>

lemma validated_rating:
  assumes "validate_providers ps = Some (providers q)"
  shows "validated (rating_of q) = Some (rating_of q)"
proof -
  have a: "addresses (allow (providers q)) = Some (allow (providers q))"
    "addresses (deny (providers q)) = Some (deny (providers q))"
    "length (allow (providers q)) \<le> 1000" "length (deny (providers q)) \<le> 1000"
    using validate_providers_fixed [OF assms]
    by (auto simp: validate_providers_def split: if_splits option.splits) (metis option.inject providers.surjective providers.update_convs providers.ext_inject)+
  have "addresses [] = Some []" by (simp add: addresses_def)
  with a show ?thesis by (simp add: validated_def validate_providers_def rating_of_def)
qed

text \<open>What a restart with new settings leaves behind.\<close>

definition change_outcome :: "senv \<Rightarrow> content \<Rightarrow> rating \<Rightarrow> exn + string option \<Rightarrow> sup \<Rightarrow> bool" where
  "change_outcome E old new res u = (case res of
     Inr (Some h) \<Rightarrow> files u rating_path = Some (Rating_doc new) \<and> files u applying = None \<and> healthy u \<and>
       h = sha256 E (Rating_doc new)
   | _ \<Rightarrow> recovers old (files u))"

lemma change_outcome_failed: "recovers old (files u) \<Longrightarrow> \<forall>h. res \<noteq> Inr (Some h) \<Longrightarrow> change_outcome E old new res u"
  by (auto simp: change_outcome_def split: sum.splits option.splits)

lemma wp_restart_body:
  assumes "files_kept E" and "undisturbed old (files s)"
  shows "wp (safe old) (restart_body n E (Some new)) (change_outcome E old new) s"
proof -
  have commit: "wp (safe old) (commit E) (change_outcome E old new) u" if "prepared old new u" "healthy u" for u
    using that by (simp add: commit_def prepared_def recovers_def change_outcome_def)
  have body: "wp (safe old)
      (tryP (bindP (cycle n E) (\<lambda>r. case r of None \<Rightarrow> retP None | Some _ \<Rightarrow> thenP (set_error None) (retP (Some ()))))
        (rollback n E) (\<lambda>r. case r of None \<Rightarrow> retP None | Some _ \<Rightarrow> commit E)) (change_outcome E old new) u"
    if u: "prepared old new u" for u
  proof -
    have kept: "recovers old (files v)" if "agree (files u) (files v)" for v
      using that prepared_recovers [OF u] agree_recovers by blast
    have undone: "wp (safe old) (rollback n E e) (change_outcome E old new) v" if "agree (files u) (files v)" for e v
      by (rule wp_mono [OF wp_rollback [OF assms(1) kept [OF that]]]) (auto intro: change_outcome_failed)
    have fwd: "wp (safe old) (commit E) (change_outcome E old new) (v\<lparr>sup_error := None\<rparr>)"
      if "agree (files u) (files v)" "healthy v" for v
      using that u by (intro commit) (auto simp: prepared_def agree_def)
    show ?thesis unfolding wp_try wp_bind
      by (rule wp_mono [OF wp_cycle [OF assms(1) prepared_recovers [OF u]]])
        (auto split: sum.splits option.splits intro: undone fwd kept change_outcome_failed)
  qed
  have "undisturbed old (files (s\<lparr>healthy := False\<rparr>))" using assms(2) by simp
  then show ?thesis unfolding restart_body_def wp_then wp_mod sum.case
    by (intro wp_mono [OF wp_prepare]) (auto split: sum.splits intro: body change_outcome_failed simp del: wp_try wp_bind)
qed

text \<open>
  C25. A change of the rating is atomic against crashes, failed disk writes, cancellation and a node
  that does not come up. In every state that the directory passes through while the lock is held
  the helper, started again, would run with the previous rating; the restart succeeds only with
  the new rating in place, the journal gone and a node that answered; after any other outcome the
  previous rating counts.
\<close>

theorem restart_is_atomic:
  assumes "files_kept E" and "undisturbed old (files s)"
  shows "list_all (\<lambda>(c, u). recovers old (files u)) (calls (restart_body n E (Some new)) s) \<and>
    (case (result (restart_body n E (Some new)) s, final (restart_body n E (Some new)) s) of
       (Inr (Some h), t) \<Rightarrow> files t rating_path = Some (Rating_doc new) \<and> files t applying = None \<and>
         healthy t \<and> h = sha256 E (Rating_doc new)
     | (_, t) \<Rightarrow> recovers old (files t))"
  using wp_restart_body [OF assms, of n new]
  by (auto simp: wp_def list_all_iff change_outcome_def split: sum.splits option.splits)

text \<open>
  C28. The rating of a stored policy reaches the node unchanged: the helper's own validation of the
  request, which normalises the weights and rebuilds the address lists, leaves it as the gateway
  sent it, and a restart that succeeds has exactly this rating in place. So the comparison of the
  rating in effect with that of the policy ends the pending change.
\<close>

theorem stored_rating_installed:
  assumes "validate_policy p = Some q" and "double_weights (weights p)"
    and "files_kept E" and "undisturbed old (files s)"
  shows "parse_rating (rating_of q) = Some (rating_of q) \<and>
    wp (\<lambda>_ _. True)
      (bindP (requested_rating \<lparr>req_rating = parse_rating (rating_of q), req_operation = i\<rparr>) (restart_body n E))
      (\<lambda>res t. case res of Inr (Some h) \<Rightarrow> files t rating_path = Some (Rating_doc (rating_of q)) | _ \<Rightarrow> True) s"
proof -
  note parts = validate_policy_parts [OF assms(1)]
  have w: "validate_weights (weights q) = Some (weights q)"
    using parts(3) assms(2) by (rule validate_weights_fixed)
  have parse: "parse_rating (rating_of q) = Some (rating_of q)"
    by (simp add: parse_rating_def rating_of_def w)
  have "validated (rating_of q) = Some (rating_of q)"
    using validated_rating [OF parts(2)] by simp
  moreover have "wp (\<lambda>_ _. True) (restart_body n E (Some (rating_of q)))
      (\<lambda>res t. case res of Inr (Some h) \<Rightarrow> files t rating_path = Some (Rating_doc (rating_of q)) | _ \<Rightarrow> True) s"
    by (rule wp_mono [OF wp_restart_body [OF assms(3,4)]]) (auto simp: change_outcome_def split: sum.splits option.splits)
  ultimately show ?thesis by (simp add: parse requested_rating_def)
qed

text \<open>
  C30. The start of the helper completes the recovery: from a directory that recovers a rating, it
  keeps recovering it at every step, and when it gets through, the rating file holds it and the
  journal is gone.
\<close>

theorem startup_recovers:
  assumes "files_kept E" and "recovers old (files s)"
  shows "wp (safe old) (startup E) (\<lambda>res u. recovers old (files u) \<and>
    (res = Inr () \<longrightarrow> files u rating_path = Some old \<and> files u applying = None)) s"
proof (cases "files s applying = None")
  case True
  with assms have "files s rating_path = Some old" by (simp add: recovers_def)
  then have "wp (safe old) (sup_start E) (\<lambda>res u. recovers old (files u) \<and>
      (res = Inr () \<longrightarrow> files u rating_path = Some old \<and> files u applying = None)) s"
    using True by (intro kept_safe [OF start_kept [OF assms(1)]]) (auto simp: recovers_def agree_def)
  with True \<open>files s rating_path = Some old\<close> show ?thesis by (simp add: startup_def)
next
  case False
  let ?Q = "\<lambda>res u. recovers old (files u) \<and> (res = Inr () \<longrightarrow> files u rating_path = Some old \<and> files u applying = None)"
  have b: "files s backup = Some old" using False assms(2) by (simp add: recovers_def)
  have start: "wp (safe old) (sup_start E) ?Q u" if "files u rating_path = Some old" "files u applying = None" for u
    using that by (intro kept_safe [OF start_kept [OF assms(1)]]) (auto simp: recovers_def agree_def)
  let ?rest = "bindP (getP (\<lambda>s. files s rating_path = None)) (\<lambda>fresh.
      thenP (whenP fresh (atomic_write E rating_path default_rating_doc)) (sup_start E))"
  have rest: "wp (safe old) ?rest ?Q u" if "files u rating_path = Some old" "files u applying = None" for u
    using start [OF that] that by simp
  have unlink: "wp (safe old) (thenP (fsS E (Unlink applying)) ?rest) ?Q u"
    if "agree ((files s)(rating_path := Some old)) (files u)" for u
  proof -
    have "wp (safe old) ?rest ?Q (u\<lparr>files := (files u)(applying := None)\<rparr>)"
      using that by (intro rest) (auto simp: agree_def)
    moreover have "recovers old (files u)" using that b False by (auto simp: agree_def recovers_def)
    ultimately show ?thesis by (simp del: wp_bind)
  qed
  have "wp (safe old) (thenP (atomic_write E rating_path old) (thenP (fsS E (Unlink applying)) ?rest)) ?Q s"
    using assms False b
    by (intro safe_write_then unlink) (auto simp: agree_def recovers_def)
  with False b show ?thesis by (simp add: startup_def sum.case_distrib cong: sum.case_cong)
qed

section \<open>A restart ends\<close>

text \<open>The clock of the event loop never goes back, and a sleep that is not cancelled lasts its time.\<close>

definition clock_runs :: "senv \<Rightarrow> bool" where
  "clock_runs E = (\<forall>c s. sup_mono s \<le> sup_mono (snd (srespond E c s)) \<and>
     (case c of Nap d \<Rightarrow> fst (srespond E c s) \<noteq> Cancel \<longrightarrow> sup_mono s + d \<le> sup_mono (snd (srespond E c s))
      | _ \<Rightarrow> True))"

lemma clock_runsD:
  assumes "clock_runs E" and "srespond E c s = (r, s')"
  shows "sup_mono s \<le> sup_mono s'" "c = Nap d \<Longrightarrow> r \<noteq> Cancel \<Longrightarrow> sup_mono s + d \<le> sup_mono s'"
proof -
  have "sup_mono s \<le> sup_mono s' \<and> (case c of Nap d \<Rightarrow> r \<noteq> Cancel \<longrightarrow> sup_mono s + d \<le> sup_mono s' | _ \<Rightarrow> True)"
    using assms unfolding clock_runs_def by (metis fst_conv snd_conv)
  then show "sup_mono s \<le> sup_mono s'" "c = Nap d \<Longrightarrow> r \<noteq> Cancel \<Longrightarrow> sup_mono s + d \<le> sup_mono s'" by auto
qed

definition ends :: "'a option sprog \<Rightarrow> sup \<Rightarrow> bool" where
  "ends p s = wp (\<lambda>_ _. True) p (\<lambda>r _. r \<noteq> Inr None) s"

lemma ends_bind: "(\<And>x s. ends (f x) s) \<Longrightarrow> ends (bindP p f) s"
  unfolding ends_def by (rule wp_bind_any) auto

lemma ends_bind_ends:
  assumes "\<And>s. ends p s" and "\<And>x s. x \<noteq> None \<Longrightarrow> ends (f x) s"
  shows "ends (bindP p f) s"
  unfolding ends_def wp_bind
  by (rule wp_mono [OF assms(1) [unfolded ends_def]]) (use assms(2) in \<open>auto simp: ends_def simp del: not_None_eq split: sum.splits\<close>)

lemma ends_then: "(\<And>s. ends q s) \<Longrightarrow> ends (thenP p q) s"
  unfolding thenP_def by (rule ends_bind)

lemma ends_try:
  assumes "\<And>s. ends p s" and "\<And>e s. ends (h e) s" and "\<And>x s. x \<noteq> None \<Longrightarrow> ends (f x) s"
  shows "ends (tryP p h f) s"
  unfolding ends_def wp_try
  by (rule wp_mono [OF assms(1) [unfolded ends_def]]) (use assms(2,3) in \<open>auto simp: ends_def simp del: not_None_eq split: sum.splits\<close>)

lemma ends_catch:
  assumes "\<And>s. ends p s" and "\<And>e s. ends (h e) s"
  shows "ends (catchP p h) s"
  unfolding ends_def wp_catch
  by (rule wp_mono [OF assms(1) [unfolded ends_def]]) (use assms(2) in \<open>auto simp: ends_def simp del: not_None_eq split: sum.splits\<close>)

lemma ends_simple: "ends (raiseP e) s" "ends (retP (Some x)) s" "ends (if b then p else q) s = (if b then ends p s else ends q s)"
  by (simp_all add: ends_def)

lemma ends_if: "(b \<Longrightarrow> ends p s) \<Longrightarrow> (\<not> b \<Longrightarrow> ends q s) \<Longrightarrow> ends (if b then p else q) s"
  by simp

lemma ends_finally: "ends (finallyP p f) s = ends p s"
  by (simp add: ends_def)

interpretation clock: state_interference "\<lambda>s u. sup_mono s \<le> sup_mono u"
  by unfold_locales auto

lemma probe_time:
  assumes "clock_runs E"
  shows "wp (\<lambda>_ _. True) (probe E) (\<lambda>_ u. sup_mono s \<le> sup_mono u) s"
proof -
  have "stays (\<lambda>s u. sup_mono s \<le> sup_mono u) (\<lambda>_. True) (awaitS E c)" for c
    using clock_runsD(1) [OF assms] by (auto simp: stays_def)
  then have "stays (\<lambda>s u. sup_mono s \<le> sup_mono u) (\<lambda>_. True) (probe E)"
    unfolding probe_def by (intro clock.rules)
  then show ?thesis unfolding stays_def by (blast intro: wp_mono)
qed

lemma ready_rounds_end:
  assumes "clock_runs E"
  shows "0 < n \<Longrightarrow> 2 * (deadline - sup_mono s) \<le> of_nat (n - 1) \<Longrightarrow> ends (ready_rounds n E deadline) s"
proof (induction n arbitrary: s)
  case (Suc n)
  have nap: "ends (bindP (awaitS E (Nap (1 / 2))) (\<lambda>_. ready_rounds n E deadline)) u"
    if "sup_mono s \<le> sup_mono u" "sup_mono s < deadline" for u
    unfolding ends_def wp_bind wp_awaitS
  proof (intro conjI allI impI)
    fix r v
    assume r: "srespond E (Nap (1 / 2)) u = (r, v)"
    show "case if r = Cancel then Inl Cancelled else Inr r of Inl e \<Rightarrow> Inl e \<noteq> Inr None
      | Inr x \<Rightarrow> wp (\<lambda>_ _. True) (ready_rounds n E deadline) (\<lambda>r _. r \<noteq> Inr None) v"
    proof (cases "r = Cancel")
      case False
      then have "sup_mono s + 1 / 2 \<le> sup_mono v" using clock_runsD(2) [OF assms r refl] that by simp
      moreover have "0 < n" using Suc.prems that by (cases n) auto
      ultimately have "ends (ready_rounds n E deadline) v"
        using Suc.prems by (intro Suc.IH) (auto simp: of_nat_diff)
      with False show ?thesis by (simp add: ends_def)
    qed simp
  qed simp
  show ?case
  proof (cases "sup_mono s < deadline \<and> child s = Running")
    case True
    have "wp (\<lambda>_ _. True) (probe E) (\<lambda>r u. case r of Inl e \<Rightarrow> True | Inr up \<Rightarrow>
        ends (if up then thenP (modP (\<lambda>s. s\<lparr>healthy := True\<rparr>)) (retP (Some ()))
              else bindP (awaitS E (Nap (1 / 2))) (\<lambda>_. ready_rounds n E deadline)) u) s"
      using True nap
      by (intro wp_mono [OF probe_time [OF assms]])
        (auto simp: ends_simple intro!: ends_then split: sum.split)
    with True show ?thesis
      unfolding ends_def ready_rounds.simps wp_get_bind
      by (simp del: wp_if wp_then) (erule wp_mono; auto split: sum.splits)
  qed (auto simp: ends_def)
qed simp

text \<open>
  C26. A restart always ends: with a clock that runs, one round more than two for each second of the
  readiness limit is all that the readiness loop takes, however the node behaves; so the restart
  returns or raises.
\<close>

theorem restart_ends:
  assumes "clock_runs E" and "2 * readiness_seconds E \<le> of_nat n"
  shows "result (sup_restart (Suc n) E rating) s \<noteq> Inr None"
proof -
  have ready: "ends (sup_ready (Suc n) E) u" for u
    unfolding sup_ready_def ends_def wp_get_bind
    using ready_rounds_end [OF assms(1), of "Suc n" "sup_mono u + readiness_seconds E" u] assms(2)
    by (simp add: ends_def)
  have cycle: "ends (cycle (Suc n) E) u" for u
    unfolding cycle_def by (intro ends_then ready)
  have rr: "ends (rollback_ready (Suc n) E) u" for u
    unfolding rollback_ready_def
    by (intro ends_catch ends_bind_ends ready) (auto simp: ends_simple intro!: ends_then split: exn.splits)
  have rb: "ends (rollback (Suc n) E e) u" for e u
    unfolding rollback_def
    by (intro ends_then ends_bind ends_if ends_simple ends_bind_ends [OF rr])
      (auto simp: ends_simple)
  have "ends (restart_body (Suc n) E rating) u" for u
    unfolding restart_body_def
    by (intro ends_then ends_try ends_bind_ends cycle rb) (auto simp: ends_simple commit_def intro!: ends_then ends_bind)
  then have "ends (sup_restart (Suc n) E rating) s"
    unfolding sup_restart_def lockedS_def by (intro ends_bind ends_then) (simp add: ends_finally)
  then show ?thesis by (simp add: ends_def wp_def)
qed

section \<open>Operations are recorded before they run, and run once\<close>

lemma op_path_distinct [simp]: "op_path i \<noteq> applying" "applying \<noteq> op_path i"
proof -
  have "last (op_path i) \<noteq> last applying" by (simp add: op_path_def applying_def)
  then show "op_path i \<noteq> applying" "applying \<noteq> op_path i" by metis+
qed

definition keeps_op :: "string \<Rightarrow> sup \<Rightarrow> sup \<Rightarrow> bool" where
  "keeps_op i s t = (files s (op_path i) \<noteq> None \<longrightarrow> files t (op_path i) \<noteq> None)"

interpretation op_file: state_interference "keeps_op i"
  by unfold_locales (auto simp: keeps_op_def)

text \<open>Nobody deletes the record of an operation.\<close>

definition records_kept :: "string \<Rightarrow> senv \<Rightarrow> bool" where
  "records_kept i E = (\<forall>c s. keeps_op i s (snd (srespond E c s)))"

lemma op_await: "records_kept i E \<Longrightarrow> stays (keeps_op i) (\<lambda>_. True) (awaitS E c)"
  by (auto simp: stays_def op_file.refl) (metis records_kept_def snd_conv)

lemma op_fs: "op \<noteq> Unlink (op_path i) \<Longrightarrow> stays (keeps_op i) (\<lambda>_. True) (fsS E op)"
  by (cases op) (auto simp: stays_def keeps_op_def split: option.splits)

lemma op_write: "stays (keeps_op i) (\<lambda>_. True) (atomic_write E p c)"
  unfolding atomic_write_def by (intro op_file.rules op_fs) auto

lemma op_read: "stays (keeps_op i) (\<lambda>_. True) (read_file p)"
  unfolding read_file_def by (intro op_file.rules)

lemma op_error: "stays (keeps_op i) (\<lambda>_. True) (set_error m)"
  unfolding set_error_def by (intro op_file.update) (simp add: keeps_op_def)

lemmas op_rules = op_file.rules op_file.update op_await op_write op_read op_error

lemma op_stop: "records_kept i E \<Longrightarrow> stays (keeps_op i) (\<lambda>_. True) (sup_stop E)"
  unfolding sup_stop_def by (intro op_rules)

lemma op_start: "records_kept i E \<Longrightarrow> stays (keeps_op i) (\<lambda>_. True) (sup_start E)"
  unfolding sup_start_def by (intro op_rules) (auto simp: keeps_op_def)

lemma op_ready: "records_kept i E \<Longrightarrow> stays (keeps_op i) (\<lambda>_. True) (sup_ready n E)"
proof -
  assume E: "records_kept i E"
  have "stays (keeps_op i) (\<lambda>_. True) (ready_rounds n E d)" for d
    unfolding probe_def using E
    by (induction n) (auto intro!: op_rules simp: keeps_op_def probe_def)
  then show ?thesis unfolding sup_ready_def by (intro op_rules)
qed

lemma op_restart: "records_kept i E \<Longrightarrow> stays (keeps_op i) (\<lambda>_. True) (sup_restart n E r)"
  unfolding sup_restart_def lockedS_def restart_body_def prepare_def cycle_def rollback_def rollback_ready_def commit_def
  by (intro op_rules op_stop op_start op_ready op_fs) (auto simp: keeps_op_def)

lemma op_attempt: "records_kept i E \<Longrightarrow> stays (keeps_op i) (\<lambda>_. True) (restart_attempt n E q rec)"
  unfolding restart_attempt_def requested_rating_def save_op_def
  by (intro op_rules op_restart)

lemma op_failed: "stays (keeps_op i) (\<lambda>_. True) (restart_attempt_failed E k rec e)"
  unfolding restart_attempt_failed_def save_op_def Let_def by (intro op_rules)

text \<open>The calls that touch the node.\<close>

definition process_call :: "scall \<Rightarrow> bool" where
  "process_call c = (c = Spawn \<or> c = Terminate \<or> c = Kill)"

lemma replay_calls: "calls (replay fp c) s = []"
  by (auto simp: calls_def replay_def retP_def raiseP_def split: content.splits option.splits)

text \<open>
  C29. The node is never stopped or started on behalf of an operation that is not on record: whatever
  interrupts the helper from then on, a retry finds the record.
\<close>

theorem restart_recorded_first:
  assumes "records_kept i E" and "req_operation q = Some i"
  shows "wp (\<lambda>c u. process_call c \<longrightarrow> files u (op_path i) \<noteq> None) (restart_endpoint n E q) (\<lambda>_ _. True) s"
proof (cases "files s (op_path i)")
  case (Some c)
  have "wp (\<lambda>c u. process_call c \<longrightarrow> files u (op_path i) \<noteq> None) (replay (fingerprint_of E q) c) (\<lambda>_ _. True) s"
    by (simp add: wp_def replay_calls)
  with Some assms(2) show ?thesis by (simp add: restart_endpoint_def Let_def previous_def)
next
  case None
  let ?rec = "running_record (fingerprint_of E q)"
  have body: "stays (keeps_op i) (\<lambda>_. True) (catchP (restart_attempt n E q ?rec) (restart_attempt_failed E (Some i) ?rec))"
    by (intro op_file.handler op_attempt [OF assms(1)] op_failed)
  have "wp (\<lambda>c u. process_call c \<longrightarrow> files u (op_path i) \<noteq> None)
      (catchP (restart_attempt n E q ?rec) (restart_attempt_failed E (Some i) ?rec)) (\<lambda>_ _. True) u"
    if "files u (op_path i) \<noteq> None" for u
    by (rule op_file.use [OF body]) (use that in \<open>auto simp: keeps_op_def\<close>)
  then show ?thesis using assms(2) None
    by (simp add: restart_endpoint_def Let_def previous_def save_op_def atomic_write_def process_call_def del: wp_catch)
qed

text \<open>
  A retried operation runs nothing and changes nothing: the recorded answer is given back, the
  conflict is reported when the settings differ, and an attempt that did not succeed is not
  repeated.
\<close>

theorem retried_operation:
  assumes "req_operation q = Some i" and "files s (op_path i) = Some (Op_doc r)"
  shows "restart_endpoint n E q s =
    ((if op_fingerprint r \<noteq> fingerprint_of E q then Inr (Some Reused_id)
      else if rec_state r = Op_succeeded
        then (case op_result r of None \<Rightarrow> Inl (Python KeyError) | Some h \<Rightarrow> Inr (Some (Rating_hash h)))
      else Inr (Some (Already_attempted r))), s, [])"
  using assms
  by (simp add: restart_endpoint_def Let_def previous_def replay_def bindP_def getP_def retP_def raiseP_def split: option.split)

text \<open>What the record says of an outcome.\<close>

definition recorded :: "string \<Rightarrow> string \<Rightarrow> exn + answer option \<Rightarrow> sup \<Rightarrow> bool" where
  "recorded i fp res u = (case res of
     Inr (Some (Rating_hash h)) \<Rightarrow> files u (op_path i) =
       Some (Op_doc \<lparr>rec_state = Op_succeeded, op_fingerprint = fp, op_result = Some h, op_message = None\<rparr>)
   | Inr (Some (Restart_failed m)) \<Rightarrow> files u (op_path i) =
       Some (Op_doc \<lparr>rec_state = Op_failed, op_fingerprint = fp, op_result = None, op_message = Some m\<rparr>)
   | Inl Cancelled \<Rightarrow> (\<exists>m. files u (op_path i) =
       Some (Op_doc \<lparr>rec_state = Op_interrupted, op_fingerprint = fp, op_result = None, op_message = Some m\<rparr>))
   | _ \<Rightarrow> True)"

lemma recorded_attempt:
  assumes "req_operation q = Some i"
  shows "wp (\<lambda>_ _. True) (restart_attempt n E q (running_record fp)) (\<lambda>res u. res \<in> range Inr \<longrightarrow> recorded i fp res u) s"
  unfolding restart_attempt_def
  by (intro wp_bind_any)
    (auto simp: assms save_op_def atomic_write_def recorded_def running_record_def split: option.split)

lemma recorded_failed:
  "wp (\<lambda>_ _. True) (restart_attempt_failed E (Some i) (running_record fp) e) (recorded i fp) s"
  by (auto simp: restart_attempt_failed_def Let_def save_op_def atomic_write_def recorded_def running_record_def split: option.split)

text \<open>
  Every outcome of a first attempt is on record when the endpoint answers: success with its
  digest, failure with its message, and an interruption as such.
\<close>

theorem restart_outcome_recorded:
  assumes "req_operation q = Some i" and "files s (op_path i) = None"
  shows "wp (\<lambda>_ _. True) (restart_endpoint n E q) (recorded i (fingerprint_of E q)) s"
proof -
  let ?fp = "fingerprint_of E q" and ?rec = "running_record (fingerprint_of E q)"
  have "wp (\<lambda>_ _. True) (catchP (restart_attempt n E q ?rec) (restart_attempt_failed E (Some i) ?rec)) (recorded i ?fp) u" for u
    unfolding wp_catch
    by (rule wp_mono [OF recorded_attempt [OF assms(1)]]) (auto split: sum.splits intro: recorded_failed)
  then show ?thesis using assms
    by (simp add: restart_endpoint_def Let_def previous_def save_op_def atomic_write_def recorded_def del: wp_catch)
qed

section \<open>Requests and the environment of the node\<close>

fun chunk_total :: "string option list \<Rightarrow> int" where
  "chunk_total [] = 0"
| "chunk_total (None # cs) = chunk_total cs"
| "chunk_total (Some c # cs) = int (length c) + chunk_total cs"

lemma body_admitted_total: "body_admitted n cs = None \<Longrightarrow> n \<le> 128 * 1024 \<Longrightarrow> None \<notin> set cs \<and> n + chunk_total cs \<le> 128 * 1024"
  by (induction n cs rule: body_admitted.induct) (auto split: if_splits)

text \<open>
  With a token configured, a request other than the health probe reaches an endpoint only with
  that token, from no browser, and with a complete body of at most 128 KiB.
\<close>

theorem boundary_authenticates:
  assumes "helper_boundary token r = None" and "token \<noteq> []" and "\<not> (hr_path r = ''/healthz'' \<and> hr_method r = ''GET'')"
  shows "hr_authorization r = ''Bearer '' @ token \<and> hr_origin r = [] \<and> None \<notin> set (hr_chunks r) \<and>
    chunk_total (hr_chunks r) \<le> 128 * 1024"
  using assms body_admitted_total [of 0 "hr_chunks r"] by (auto simp: helper_boundary_def split: if_splits)

theorem boundary_authenticates_witness:
  "helper_boundary ''t'' \<lparr>hr_path = ''/restart'', hr_method = ''POST'', hr_authorization = ''Bearer t'', hr_origin = [],
     hr_chunks = [Some ''{}'']\<rparr> = None \<and> chunk_total [Some ''{}''] \<le> 128 * 1024"
proof -
  let ?r = "\<lparr>hr_path = ''/restart'', hr_method = ''POST'', hr_authorization = ''Bearer t'', hr_origin = [],
     hr_chunks = [Some ''{}'']\<rparr>"
  have "helper_boundary ''t'' ?r = None" by (simp add: helper_boundary_def)
  with boundary_authenticates [OF this] show ?thesis by simp
qed

lemma remove_all_outside: "n \<notin> set ns \<Longrightarrow> remove_all ns e n = e n"
  by (induction ns arbitrary: e) auto

lemma remove_all_inside: "n \<in> set ns \<Longrightarrow> remove_all ns e n = None"
proof (induction ns arbitrary: e)
  case (Cons m ns)
  then show ?case by (cases "n \<in> set ns") (auto simp: remove_all_outside)
qed simp

lemma network_defaults_diamond:
  "network_defaults n env ''DIAMOND_CONTRACT_ADDRESS'' =
    (if unset env ''DIAMOND_CONTRACT_ADDRESS'' then Some (fst (snd n)) else env ''DIAMOND_CONTRACT_ADDRESS'')"
  by (cases n) (simp add: network_defaults_def set_default_def unset_def)

lemma node_settings_at:
  "node_settings dir password key env ''WALLET_PRIVATE_KEY'' = Some key"
  "node_settings dir password key env ''RATING_CONFIG_PATH'' = Some (dir @ ''/rating-config.json'')"
  "node_settings dir password key env ''DIAMOND_CONTRACT_ADDRESS'' = env ''DIAMOND_CONTRACT_ADDRESS''"
  by (simp_all add: node_settings_def)

lemma private_names_at:
  "remove_all private_names e ''HELPER_TOKEN'' = None" "remove_all private_names e ''HELPER_TOKEN_FILE'' = None"
  "remove_all private_names e ''WALLET_PRIVATE_KEY'' = e ''WALLET_PRIVATE_KEY''"
  "remove_all private_names e ''RATING_CONFIG_PATH'' = e ''RATING_CONFIG_PATH''"
  "remove_all private_names e ''DIAMOND_CONTRACT_ADDRESS'' = e ''DIAMOND_CONTRACT_ADDRESS''"
  by (simp_all add: remove_all_inside remove_all_outside private_names_def)

text \<open>
  The node gets the wallet's key and its own paths, keeps the explicit network settings of the
  deployment and the defaults of the chain otherwise, and never sees the helper's token.
\<close>

theorem node_environment_sound:
  assumes "node_environment dir password key env = Inr e"
  shows "e ''HELPER_TOKEN'' = None \<and> e ''HELPER_TOKEN_FILE'' = None \<and> e ''WALLET_PRIVATE_KEY'' = Some key \<and>
    key \<noteq> [] \<and> e ''RATING_CONFIG_PATH'' = Some (dir @ ''/rating-config.json'') \<and>
    e ''DIAMOND_CONTRACT_ADDRESS'' =
      (if unset env ''DIAMOND_CONTRACT_ADDRESS''
       then map_option (fst \<circ> snd) (networks (case env ''ETH_NODE_CHAIN_ID'' of None \<Rightarrow> ''8453'' | Some c \<Rightarrow> c))
       else env ''DIAMOND_CONTRACT_ADDRESS'')"
  using assms
  by (auto simp: node_environment_def private_names_at node_settings_at network_defaults_diamond
      split: if_splits option.splits)

theorem node_environment_sound_witness:
  "\<exists>e. node_environment ''/d'' (replicate 32 CHR ''p'') ''k'' (\<lambda>_. None) = Inr e \<and> e ''HELPER_TOKEN'' = None \<and>
     e ''DIAMOND_CONTRACT_ADDRESS'' = Some ''0x6aBE1d282f72B474E54527D93b979A4f64d3030a''"
proof -
  obtain e where e: "node_environment ''/d'' (replicate 32 CHR ''p'') ''k'' (\<lambda>_. None) = Inr e"
    by (simp add: node_environment_def networks_def Let_def)
  from node_environment_sound [OF this] e show ?thesis by (simp add: unset_def networks_def)
qed

section \<open>A concrete helper\<close>

definition calm_reply :: "bool \<Rightarrow> scall \<Rightarrow> reply" where
  "calm_reply up c = (if c = Probe_config then Body (if up then 200 else 503) JNull
     else if c = Probe_balance then Body 200 JNull else Task_done)"

definition calm_env :: "bool \<Rightarrow> senv" where
  "calm_env up = \<lparr>srespond = (\<lambda>c s. (calm_reply up c, case c of Nap d \<Rightarrow> s\<lparr>sup_mono := sup_mono s + max 0 d\<rparr> | _ \<Rightarrow> s)),
     sha256 = (\<lambda>_. ''digest''), fingerprint_of = (\<lambda>_. ''fp''), readiness_seconds = 1\<rparr>"

definition old_rating :: rating where
  "old_rating = rating_of default_policy"

definition new_rating :: rating where
  "new_rating = old_rating\<lparr>providerDenylist := [''0xd'']\<rparr>"

definition calm_sup :: sup where
  "calm_sup = \<lparr>files = (\<lambda>p. if p = rating_path then Some (Rating_doc old_rating) else None), child = Running,
     sup_locked = False, sup_error = None, healthy = True, sup_mono = 0\<rparr>"

lemma calm_facts: "files_kept (calm_env up)" "clock_runs (calm_env up)" "records_kept i (calm_env up)"
  by (auto simp: files_kept_def clock_runs_def records_kept_def calm_env_def keeps_files_def keeps_op_def
      split: scall.splits)

lemma calm_undisturbed: "undisturbed (Rating_doc old_rating) (files calm_sup)"
  by (simp add: undisturbed_def calm_sup_def)

lemma calm_runs:
  "result (restart_body 1 (calm_env True) (Some new_rating)) calm_sup = Inr (Some ''digest'')"
  "result (restart_body 3 (calm_env False) (Some new_rating)) calm_sup = Inl (Python RuntimeError)"
  by code_simp+

theorem restart_is_atomic_witness:
  "list_all (\<lambda>(c, u). recovers (Rating_doc old_rating) (files u))
     (calls (restart_body 3 (calm_env False) (Some new_rating)) calm_sup) \<and>
   recovers (Rating_doc old_rating) (files (final (restart_body 3 (calm_env False) (Some new_rating)) calm_sup)) \<and>
   files (final (restart_body 1 (calm_env True) (Some new_rating)) calm_sup) rating_path = Some (Rating_doc new_rating)"
  using restart_is_atomic [OF calm_facts(1) calm_undisturbed, of 3 False new_rating]
    restart_is_atomic [OF calm_facts(1) calm_undisturbed, of 1 True new_rating] calm_runs
  by simp

theorem stored_rating_installed_witness:
  "parse_rating (rating_of default_policy) = Some (rating_of default_policy) \<and>
   files (final (restart_body 1 (calm_env True) (Some (rating_of default_policy))) calm_sup) rating_path =
     Some (Rating_doc (rating_of default_policy))"
proof -
  have v: "validate_policy default_policy = Some default_policy"
    using validate_sample [of "[]" "[]"] by (simp add: sample_policy_def default_policy_def)
  have d: "double_weights (weights default_policy)" by (simp add: default_policy_def default_weights_double)
  have r: "result (restart_body 1 (calm_env True) (Some (rating_of default_policy))) calm_sup = Inr (Some ''digest'')"
    by code_simp
  have ps: "validate_providers (providers default_policy) = Some (providers default_policy)" by code_simp
  note here = stored_rating_installed [OF v d calm_facts(1) [of True] calm_undisturbed, where n = 1 and i = None]
  then have p: "parse_rating (rating_of default_policy) = Some (rating_of default_policy)" by blast
  have "wp (\<lambda>_ _. True) (restart_body 1 (calm_env True) (Some (rating_of default_policy)))
      (\<lambda>res t. case res of Inr (Some h) \<Rightarrow> files t rating_path = Some (Rating_doc (rating_of default_policy)) | _ \<Rightarrow> True) calm_sup"
    using here validated_rating [OF ps] by (simp add: p requested_rating_def)
  with p r show ?thesis by (simp add: wp_def)
qed

theorem startup_recovers_witness:
  "result (startup (calm_env True)) (calm_sup\<lparr>files := (files calm_sup)(applying := Some Pending,
     backup := Some (Rating_doc new_rating))\<rparr>) = Inr () \<and>
   files (final (startup (calm_env True)) (calm_sup\<lparr>files := (files calm_sup)(applying := Some Pending,
     backup := Some (Rating_doc new_rating))\<rparr>)) rating_path = Some (Rating_doc new_rating)"
proof -
  let ?s = "calm_sup\<lparr>files := (files calm_sup)(applying := Some Pending, backup := Some (Rating_doc new_rating))\<rparr>"
  have r: "result (startup (calm_env True)) ?s = Inr ()" by code_simp
  have "recovers (Rating_doc new_rating) (files ?s)" by (simp add: recovers_def)
  from startup_recovers [OF calm_facts(1) this, of True] r show ?thesis by (simp add: wp_def)
qed

theorem restart_ends_witness:
  "result (sup_restart 3 (calm_env False) (Some new_rating)) calm_sup \<noteq> Inr None"
  using restart_ends [OF calm_facts(2), of False 2 "Some new_rating" calm_sup]
  by (simp add: calm_env_def numeral_3_eq_3)

definition calm_request :: restart_request where
  "calm_request = \<lparr>req_rating = Some new_rating, req_operation = Some ''0a''\<rparr>"

theorem restart_recorded_first_witness:
  "wp (\<lambda>c u. process_call c \<longrightarrow> files u (op_path ''0a'') \<noteq> None)
     (restart_endpoint 1 (calm_env True) calm_request) (\<lambda>_ _. True) calm_sup \<and>
   result (restart_endpoint 1 (calm_env True) (calm_request\<lparr>req_rating := None\<rparr>)) calm_sup = Inr (Some (Rating_hash ''digest''))"
proof
  show "wp (\<lambda>c u. process_call c \<longrightarrow> files u (op_path ''0a'') \<noteq> None)
     (restart_endpoint 1 (calm_env True) calm_request) (\<lambda>_ _. True) calm_sup"
    by (rule restart_recorded_first [OF calm_facts(3)]) (simp add: calm_request_def)
  show "result (restart_endpoint 1 (calm_env True) (calm_request\<lparr>req_rating := None\<rparr>)) calm_sup = Inr (Some (Rating_hash ''digest''))"
    by code_simp
qed

abbreviation done_record :: op_record where
  "done_record \<equiv> \<lparr>rec_state = Op_succeeded, op_fingerprint = ''fp'', op_result = Some ''digest'', op_message = None\<rparr>"

theorem retried_operation_witness:
  "restart_endpoint 1 (calm_env True) calm_request (calm_sup\<lparr>files := (\<lambda>_. Some (Op_doc done_record))\<rparr>) =
    (Inr (Some (Rating_hash ''digest'')), calm_sup\<lparr>files := (\<lambda>_. Some (Op_doc done_record))\<rparr>, [])"
  using retried_operation [of calm_request "''0a''" "calm_sup\<lparr>files := (\<lambda>_. Some (Op_doc done_record))\<rparr>" done_record 1 "calm_env True"]
  by (simp add: calm_request_def calm_env_def)

theorem restart_outcome_recorded_witness:
  "result (restart_endpoint 1 (calm_env True) (calm_request\<lparr>req_rating := None\<rparr>)) calm_sup = Inr (Some (Rating_hash ''digest'')) \<and>
   files (final (restart_endpoint 1 (calm_env True) (calm_request\<lparr>req_rating := None\<rparr>)) calm_sup) (op_path ''0a'') =
     Some (Op_doc done_record)"
proof -
  let ?q = "calm_request\<lparr>req_rating := None\<rparr>"
  have r: "result (restart_endpoint 1 (calm_env True) ?q) calm_sup = Inr (Some (Rating_hash ''digest''))" by code_simp
  have "files calm_sup (op_path ''0a'') = None" by (simp add: calm_sup_def op_path_def rating_path_def)
  from restart_outcome_recorded [OF _ this, of ?q 1 "calm_env True"] r show ?thesis
    by (simp add: wp_def recorded_def calm_request_def calm_env_def)
qed

end
