(* ===== verification/NodeApi.thy ===== *)
theory NodeApi
  imports Effects
begin

text \<open>
  gateway/node.py: the adapter for the consumer node's HTTP API, the recovery RPC and the local
  management helper. \<open>classify\<close> is the error translation at the heart of \<open>Node.request\<close>; the
  methods validate what the node returns before the session manager may use it. The node, the
  RPC and the helper themselves are the environment.
\<close>

section \<open>Node.request\<close>

definition object_response :: "json \<Rightarrow> exn + json" where
  "object_response j = (if is_dict j then Inr j else Inl (err_status ''node_protocol'' 502))"

text \<open>Decimal text of at most 78 digits, or a natural number; the result is what it denotes.\<close>

fun amount :: "json \<Rightarrow> exn + int" where
  "amount (JStr s) =
     (if s \<noteq> [] \<and> list_all is_digit s \<and> length s \<le> 78
      then (case int_of_text s of Some i \<Rightarrow> Inr i | None \<Rightarrow> Inl (err_status ''node_protocol'' 502))
      else Inl (err_status ''node_protocol'' 502))"
| "amount (JInt i) =
     (if 0 \<le> i \<and> length (dec i) \<le> 78 then Inr i else Inl (err_status ''node_protocol'' 502))"
| "amount _ = Inl (err_status ''node_protocol'' 502)"

fun is_post :: "call \<Rightarrow> bool" where
  "is_post (Post_open _ _ _ _) = True"
| "is_post (Post_close _ _) = True"
| "is_post (Post_withdraw _) = True"
| "is_post _ = False"

fun is_opening :: "call \<Rightarrow> bool" where
  "is_opening (Post_open _ _ _ _) = True"
| "is_opening _ = False"

fun is_closing :: "call \<Rightarrow> bool" where
  "is_closing (Post_close _ _) = True"
| "is_closing _ = False"

definition declined_prefixes :: "string list" where
  "declined_prefixes = [''provider healthcheck ping failed'',
     ''provider self-reports model as not serviceable'', ''failed to initiate session'',
     ''TEE attestation failed'']"

definition preflight_prefixes :: "string list" where
  "preflight_prefixes = [''failed to parse token supply'', ''failed to parse token budget'',
     ''failed to get bid'', ''failed to get provider'', ''failed to get my address'',
     ''cannot open session with own bid'', ''gateway stake limit exceeded'',
     ''invalid token supply'', ''invalid emissions budget'']"

definition close_prefixes :: "string list" where
  "close_prefixes = [''cannot get private key'', ''failed to get session report from user'']"

definition starts_with :: "string \<Rightarrow> string list \<Rightarrow> bool" where
  "starts_with s ps = list_ex (\<lambda>p. prefix p s) ps"

definition too_short :: "string \<Rightarrow> bool" where
  "too_short text = (sublist ''SessionTooShort'' text \<or>
     sublist ''gateway session duration below contract minimum'' text)"

text \<open>An error status with a JSON object: what may be concluded about the wallet.\<close>

definition progress_outcome :: "json \<Rightarrow> outcome" where
  "progress_outcome progress =
    (if is_dict progress \<and> jget ''stage'' progress = Some (JStr ''not_submitted'')
     then Not_submitted else Unknown)"

definition progress_txs :: "json \<Rightarrow> json" where
  "progress_txs progress = (if is_dict progress then jget_or ''transactions'' (JArr []) progress else JArr [])"

definition rejected :: "call \<Rightarrow> json \<Rightarrow> outcome \<Rightarrow> json \<Rightarrow> gerror" where
  "rejected c message out t =
    (let text = (case message of JStr m \<Rightarrow> m | _ \<Rightarrow> [])
     in if is_opening c \<and> is_str message \<and> too_short text
        then gateway_error ''session_duration_invalid'' 400 out t
        else if is_opening c \<and> is_str message \<and> starts_with text declined_prefixes
        then gateway_error ''provider_declined'' 503 Not_submitted t
        else if is_opening c \<and> is_str message \<and> starts_with text preflight_prefixes
        then gateway_error ''open_preflight_failed'' 503 Not_submitted t
        else gateway_error ''node_rejected'' 502
          (if is_closing c \<and> is_str message \<and> starts_with text close_prefixes \<or> \<not> is_post c
           then Not_submitted else out) t)"

fun classify :: "call \<Rightarrow> reply \<Rightarrow> exn + json" where
  "classify c (Body st data) =
     (if \<not> is_dict data then Inl (err_status ''node_protocol'' 502)
      else if \<not> (400 \<le> st \<and> st \<le> 599) then Inr data
      else if is_opening c \<and> nonzero_hash (py_str (jget_or ''sessionID'' (JStr []) data)) then Inr data
      else (let progress = jget_or ''progress'' (JObj []) data
            in Inl (Gateway (rejected c (jget_or ''error'' (JStr []) data)
                 (progress_outcome progress) (progress_txs progress)))))"
| "classify c (Garbled st) = Inl (err_status ''node_protocol'' 502)"
| "classify c (Oversized st) = Inl (err_status ''node_protocol'' 502)"
| "classify c _ = Inl (Gateway (gateway_error ''node_unreachable'' 503
     (if is_post c then Unknown else Not_submitted) JNull))"

definition node_request :: "env \<Rightarrow> call \<Rightarrow> json prog" where
  "node_request E c = bindP (callP E c) (\<lambda>r. liftP (classify c r))"

section \<open>Reading\<close>

definition parse_identity :: "json \<Rightarrow> exn + ident" where
  "parse_identity data =
    (case object_response (jget_null ''DerivedConfig'' data) of
       Inl e \<Rightarrow> Inl e
     | Inr derived \<Rightarrow>
         (let w = lower (py_str (jget_or ''WalletAddress'' (JStr []) derived))
          in if \<not> ADDRESS w \<or> hex_of_text w = Some 0 then Inl (err ''wallet_not_ready'')
             else (case amount (jget_null ''ChainID'' derived) of
                 Inl e \<Rightarrow> Inl e
               | Inr ch \<Rightarrow>
                   (case jget_null ''Version'' data of
                      JStr v \<Rightarrow> if ch = 0 then Inl (err ''node_protocol'')
                        else Inr \<lparr>wallet = w, chain = ch, version = v,
                                  capabilities = jget_or ''GatewayCapabilities'' (JArr []) data\<rparr>
                    | _ \<Rightarrow> Inl (err ''node_protocol'')))))"

definition node_identity :: "env \<Rightarrow> ident prog" where
  "node_identity E = bindP (node_request E Get_config) (\<lambda>data. liftP (parse_identity data))"

text \<open>\<open>range(0, 10000, 100)\<close>.\<close>

definition page_offsets :: "int list" where
  "page_offsets = map (\<lambda>k. 100 * k) [0..99]"

definition models_batch :: "json \<Rightarrow> exn + json list" where
  "models_batch data = (case jget_null ''models'' data of
     JArr batch \<Rightarrow> Inr batch | _ \<Rightarrow> Inl (err_status ''node_protocol'' 502))"

fun catalog_batch :: "json list \<Rightarrow> exn + json list" where
  "catalog_batch [] = Inr []"
| "catalog_batch (m # ms) =
    (if \<not> is_dict m \<or> \<not> HASH (py_str (jget_or ''Id'' (JStr []) m)) then Inl (err_status ''node_protocol'' 502)
     else (case catalog_batch ms of
         Inl e \<Rightarrow> Inl e
       | Inr rest \<Rightarrow> Inr (if \<not> truthy (jget_null ''IsDeleted'' m) \<and> jget ''ModelType'' m = Some (JStr ''LLM'')
                         then m # rest else rest)))"

fun catalog_pages :: "env \<Rightarrow> int list \<Rightarrow> json list \<Rightarrow> json list prog" where
  "catalog_pages E [] acc = raiseP (err ''catalog_limit'')"
| "catalog_pages E (offset # rest) acc =
    bindP (node_request E (Get_models offset False)) (\<lambda>data.
    bindP (liftP (models_batch data)) (\<lambda>batch.
    bindP (liftP (catalog_batch batch)) (\<lambda>found.
    if length batch < 100 then retP (acc @ found) else catalog_pages E rest (acc @ found))))"

definition catalog :: "env \<Rightarrow> json list prog" where
  "catalog E = catalog_pages E page_offsets []"

text \<open>One page of the search for a model: None when the page does not hold it.\<close>

fun find_model :: "string \<Rightarrow> json list \<Rightarrow> exn + json option" where
  "find_model i [] = Inr None"
| "find_model i (m # ms) =
    (if \<not> is_dict m then Inl (err_status ''node_protocol'' 502)
     else if lower (py_str (jget_or ''Id'' (JStr []) m)) \<noteq> lower i then find_model i ms
     else if truthy (jget_null ''IsDeleted'' m) \<or> jget ''ModelType'' m \<noteq> Some (JStr ''LLM'')
     then Inl (Gateway (gateway_error ''unsupported_model'' 400 Not_submitted JNull))
     else Inr (Some m))"

fun model_pages :: "env \<Rightarrow> string \<Rightarrow> int list \<Rightarrow> json prog" where
  "model_pages E i [] = raiseP (err ''catalog_limit'')"
| "model_pages E i (offset # rest) =
    bindP (node_request E (Get_models offset True)) (\<lambda>data.
    bindP (liftP (models_batch data)) (\<lambda>batch.
    bindP (liftP (find_model i batch)) (\<lambda>found.
    case found of
      Some m \<Rightarrow> retP m
    | None \<Rightarrow> if length batch < 100
        then raiseP (Gateway (gateway_error ''model_not_found'' 404 Not_submitted JNull))
        else model_pages E i rest)))"

definition node_model :: "env \<Rightarrow> string \<Rightarrow> json prog" where
  "node_model E i = model_pages E i page_offsets"

fun finite_number :: "json \<Rightarrow> bool" where
  "finite_number (JInt i) = True"
| "finite_number (JFloat f) = (f \<notin> {PosInf, NegInf, NaN})"
| "finite_number _ = False"

definition check_rated_bid :: "json \<Rightarrow> exn + unit" where
  "check_rated_bid entry =
    (if \<not> is_dict entry \<or> \<not> is_dict (jget_null ''Bid'' entry) then Inl (err_status ''node_protocol'' 502)
     else let bid = jget_null ''Bid'' entry
       in if \<not> HASH (py_str (jget_or ''Id'' (JStr []) bid)) \<or>
             \<not> ADDRESS (py_str (jget_or ''Provider'' (JStr []) bid)) \<or>
             \<not> finite_number (jget_null ''Score'' entry)
          then Inl (err_status ''node_protocol'' 502)
          else (case amount (jget_null ''PricePerSecond'' bid) of Inl e \<Rightarrow> Inl e | Inr _ \<Rightarrow> Inr ()))"

fun check_all :: "('a \<Rightarrow> exn + unit) \<Rightarrow> 'a list \<Rightarrow> exn + unit" where
  "check_all f [] = Inr ()"
| "check_all f (x # xs) = (case f x of Inl e \<Rightarrow> Inl e | Inr _ \<Rightarrow> check_all f xs)"

definition parse_bids :: "json \<Rightarrow> exn + json list" where
  "parse_bids data = (case jget_null ''bids'' data of
     JArr entries \<Rightarrow> (case check_all check_rated_bid entries of Inl e \<Rightarrow> Inl e | Inr _ \<Rightarrow> Inr entries)
   | _ \<Rightarrow> Inl (err_status ''node_protocol'' 502))"

definition node_bids :: "env \<Rightarrow> string \<Rightarrow> json list prog" where
  "node_bids E i = bindP (node_request E (Get_rated_bids i)) (\<lambda>data. liftP (parse_bids data))"

definition node_bid :: "env \<Rightarrow> string \<Rightarrow> json prog" where
  "node_bid E i = bindP (node_request E (Get_bid i)) (\<lambda>data. liftP (object_response (jget_null ''bid'' data)))"

definition node_session :: "env \<Rightarrow> string \<Rightarrow> json prog" where
  "node_session E i =
    bindP (node_request E (Get_session i)) (\<lambda>data. liftP (object_response (jget_null ''session'' data)))"

definition parse_wallet_sessions :: "json \<Rightarrow> exn + json list" where
  "parse_wallet_sessions data = (case jget_null ''sessions'' data of
     JArr xs \<Rightarrow> if list_all is_dict xs then Inr xs else Inl (err_status ''node_protocol'' 502)
   | _ \<Rightarrow> Inl (err_status ''node_protocol'' 502))"

definition wallet_sessions :: "env \<Rightarrow> string \<Rightarrow> int \<Rightarrow> json list prog" where
  "wallet_sessions E w offset =
    bindP (node_request E (Get_user_sessions w offset)) (\<lambda>data. liftP (parse_wallet_sessions data))"

definition pair_of :: "string \<Rightarrow> string \<Rightarrow> json \<Rightarrow> exn + int \<times> int" where
  "pair_of a b data = (case amount (jget_null a data) of
     Inl e \<Rightarrow> Inl e
   | Inr x \<Rightarrow> (case amount (jget_null b data) of Inl e \<Rightarrow> Inl e | Inr y \<Rightarrow> Inr (x, y)))"

text \<open>\<open>(mor, eth)\<close> and \<open>(available, hold)\<close>.\<close>

definition balances :: "env \<Rightarrow> (int \<times> int) prog" where
  "balances E = bindP (node_request E Get_balance) (\<lambda>data. liftP (pair_of ''mor'' ''eth'' data))"

definition stakes :: "env \<Rightarrow> (int \<times> int) prog" where
  "stakes E = bindP (node_request E Get_stakes) (\<lambda>data. liftP (pair_of ''available'' ''hold'' data))"

text \<open>\<open>(numerator + denominator - 1) // denominator\<close>.\<close>

definition stake_estimate :: "int \<Rightarrow> int \<Rightarrow> int \<Rightarrow> int \<Rightarrow> int" where
  "stake_estimate supply emissions price dur =
    (let numerator = supply * price * dur * 10001; denominator = emissions * 10000
     in (numerator + denominator - 1) div denominator)"

definition estimate :: "env \<Rightarrow> json \<Rightarrow> int \<Rightarrow> int prog" where
  "estimate E bid dur =
    bindP (node_request E Get_supply) (\<lambda>d1.
    bindP (liftP (amount (jget_null ''supply'' d1))) (\<lambda>supply.
    bindP (node_request E Get_budget) (\<lambda>d2.
    bindP (liftP (amount (jget_null ''budget'' d2))) (\<lambda>emissions.
    if emissions = 0 then raiseP (err_not_submitted ''budget_unavailable'')
    else bindP (liftP (amount (jget_null ''PricePerSecond'' bid))) (\<lambda>price.
      retP (stake_estimate supply emissions price dur))))))"

section \<open>Wallet mutations\<close>

definition node_open :: "env \<Rightarrow> string \<Rightarrow> int \<Rightarrow> int \<Rightarrow> string \<Rightarrow> json prog" where
  "node_open E bid dur max_stake operation_id = node_request E (Post_open bid dur max_stake operation_id)"

definition node_close :: "env \<Rightarrow> string \<Rightarrow> string \<Rightarrow> json prog" where
  "node_close E i operation_id = node_request E (Post_close i operation_id)"

definition node_withdraw :: "env \<Rightarrow> string \<Rightarrow> json prog" where
  "node_withdraw E operation_id = node_request E (Post_withdraw operation_id)"

section \<open>Recovery RPC and helper\<close>

fun rpc_result :: "reply \<Rightarrow> exn + json" where
  "rpc_result (Body st data) =
    (if 400 \<le> st \<and> st \<le> 599 \<or> \<not> is_dict data \<or> jget ''error'' data \<noteq> None
     then Inl (err ''rpc_unavailable'')
     else (case jget ''result'' data of None \<Rightarrow> Inl (err ''rpc_unavailable'') | Some v \<Rightarrow> Inr v))"
| "rpc_result _ = Inl (err ''rpc_unavailable'')"

definition rpc_call :: "env \<Rightarrow> string \<Rightarrow> json list \<Rightarrow> json prog" where
  "rpc_call E m params =
    (if \<not> rpc_configured (cfg E) then raiseP (err ''rpc_not_configured'')
     else bindP (callP E (Rpc m params)) (\<lambda>r. liftP (rpc_result r)))"

definition receipt_of :: "env \<Rightarrow> string \<Rightarrow> json prog" where
  "receipt_of E tx =
    bindP (rpc_call E ''eth_getTransactionReceipt'' [JStr tx]) (\<lambda>v.
    if v = JNull then retP v else liftP (object_response v))"

definition receipt :: "env \<Rightarrow> string \<Rightarrow> int \<Rightarrow> json prog" where
  "receipt E tx ch =
    (if \<not> HASH tx then raiseP (err_status ''invalid_transaction'' 400)
     else bindP (rpc_call E ''eth_chainId'' []) (\<lambda>rpc_chain.
       bindP (pyP (to_int16 rpc_chain)) (\<lambda>n.
       if n \<noteq> ch then raiseP (err ''rpc_chain_mismatch'') else receipt_of E tx)))"

fun helper_result :: "reply \<Rightarrow> exn + json" where
  "helper_result (Body st data) =
    (if st = 401 \<or> st = 403 then Inl (err ''helper_auth'')
     else if \<not> (200 \<le> st \<and> st < 300) then Inl (err ''helper_rejected'')
     else object_response data)"
| "helper_result (Garbled st) =
    (if st = 401 \<or> st = 403 then Inl (err ''helper_auth'')
     else if \<not> (200 \<le> st \<and> st < 300) then Inl (err ''helper_rejected'')
     else Inl (err ''helper_unreachable''))"
| "helper_result (Oversized st) =
    (if st = 401 \<or> st = 403 then Inl (err ''helper_auth'')
     else if \<not> (200 \<le> st \<and> st < 300) then Inl (err ''helper_rejected'')
     else Inl (err ''helper_protocol''))"
| "helper_result _ = Inl (err ''helper_unreachable'')"

definition helper_request :: "env \<Rightarrow> call \<Rightarrow> json prog" where
  "helper_request E c =
    (if \<not> helper_configured (cfg E) then raiseP (err ''helper_missing'')
     else bindP (callP E c) (\<lambda>r. liftP (helper_result r)))"

section \<open>The adapter only reads, except through the three mutations\<close>

context interference
begin

lemma request: "rely E R \<Longrightarrow> C c \<Longrightarrow> stays R C (node_request E c)"
  unfolding node_request_def by (intro rules await)

lemma identity: "rely E R \<Longrightarrow> stays R background_call (node_identity E)"
  unfolding node_identity_def by (intro rules request) auto

lemma catalog_loop: "rely E R \<Longrightarrow> stays R background_call (catalog_pages E os acc)"
  by (induction os arbitrary: acc) (auto intro!: rules request)

lemma model_loop: "rely E R \<Longrightarrow> stays R background_call (model_pages E i os)"
  by (induction os) (auto intro!: rules request)

lemma model: "rely E R \<Longrightarrow> stays R background_call (node_model E i)"
  unfolding node_model_def by (rule model_loop)

lemma bids: "rely E R \<Longrightarrow> stays R background_call (node_bids E i)"
  unfolding node_bids_def by (intro rules request) auto

lemma bid: "rely E R \<Longrightarrow> stays R background_call (node_bid E i)"
  unfolding node_bid_def by (intro rules request) auto

lemma session: "rely E R \<Longrightarrow> stays R background_call (node_session E i)"
  unfolding node_session_def by (intro rules request) auto

lemma wallet_list: "rely E R \<Longrightarrow> stays R background_call (wallet_sessions E w n)"
  unfolding wallet_sessions_def by (intro rules request) auto

lemma balance: "rely E R \<Longrightarrow> stays R background_call (balances E)"
  unfolding balances_def by (intro rules request) auto

lemma stake: "rely E R \<Longrightarrow> stays R background_call (stakes E)"
  unfolding stakes_def by (intro rules request) auto

lemma quote: "rely E R \<Longrightarrow> stays R background_call (estimate E b d)"
  unfolding estimate_def by (intro rules request) auto

lemma rpc: "rely E R \<Longrightarrow> stays R background_call (rpc_call E m ps)"
  unfolding rpc_call_def by (intro rules await) auto

lemma receipts: "rely E R \<Longrightarrow> stays R background_call (receipt E tx ch)"
  unfolding receipt_def receipt_of_def by (intro rules rpc)

lemma helper: "rely E R \<Longrightarrow> background_call c \<Longrightarrow> stays R background_call (helper_request E c)"
  unfolding helper_request_def by (intro rules await) auto

lemmas node_reads = identity model bids bid session wallet_list balance stake quote receipts helper

end

section \<open>Facts\<close>

lemma amount_nonneg: "amount j = Inr x \<Longrightarrow> 0 \<le> x"
  by (cases j) (auto dest: int_of_text_digits_nonneg split: if_splits option.splits)

lemma stakes_nonneg:
  "wp (\<lambda>_ _. True) (stakes E) (\<lambda>r _. \<forall>x. r = Inr x \<longrightarrow> 0 \<le> fst x \<and> 0 \<le> snd x) s"
  by (auto simp: stakes_def node_request_def pair_of_def dest: amount_nonneg split: sum.splits)

lemma rejected_evidence:
  assumes "is_post c" and "outcome (rejected c message out t) = Not_submitted"
  shows "out = Not_submitted \<or>
    (\<exists>text. message = JStr text \<and>
         (is_opening c \<and> (starts_with text declined_prefixes \<or> starts_with text preflight_prefixes) \<or>
          is_closing c \<and> starts_with text close_prefixes))"
  using assms by (cases message) (auto simp: rejected_def gateway_error_def Let_def split: if_splits)

lemma classify_error:
  assumes "classify c (Body st data) = Inl (Gateway g)" and "outcome g = Not_submitted"
  shows "is_dict data \<and> 400 \<le> st \<and> st \<le> 599 \<and>
    g = rejected c (jget_or ''error'' (JStr []) data)
      (progress_outcome (jget_or ''progress'' (JObj []) data)) (progress_txs (jget_or ''progress'' (JObj []) data))"
  using assms by (auto simp: Let_def err_status_def gateway_error_def simp del: jget_or_simps split: if_splits)

lemma progress_evidence:
  "progress_outcome p = Not_submitted \<Longrightarrow> jget ''stage'' p = Some (JStr ''not_submitted'')"
  by (simp add: progress_outcome_def split: if_splits)

section \<open>Properties\<close>

text \<open>
  C38. A wallet submission counts as not submitted only on positive evidence: the node answered
  with an error status and a JSON object that says so, through its progress record or through one
  of the error texts that precede submission. A lost, cancelled, oversized or unreadable answer
  never does.
\<close>

theorem not_submitted_needs_evidence:
  assumes "is_post c" and "classify c r = Inl (Gateway g)" and "outcome g = Not_submitted"
  shows "\<exists>st data message. r = Body st data \<and> is_dict data \<and> 400 \<le> st \<and> st \<le> 599 \<and>
     jget_or ''error'' (JStr []) data = message \<and>
     (jget ''stage'' (jget_or ''progress'' (JObj []) data) = Some (JStr ''not_submitted'') \<or>
      (\<exists>text. message = JStr text \<and>
         (is_opening c \<and> (starts_with text declined_prefixes \<or> starts_with text preflight_prefixes) \<or>
          is_closing c \<and> starts_with text close_prefixes)))"
proof (cases r)
  case (Body st data)
  from assms(2,3) have e: "is_dict data" "400 \<le> st" "st \<le> 599"
    "g = rejected c (jget_or ''error'' (JStr []) data)
      (progress_outcome (jget_or ''progress'' (JObj []) data)) (progress_txs (jget_or ''progress'' (JObj []) data))"
    unfolding Body by (metis classify_error)+
  with rejected_evidence [OF assms(1)] assms(3) progress_evidence Body show ?thesis by metis
qed (use assms in \<open>auto simp: err_status_def gateway_error_def\<close>)

theorem not_submitted_needs_evidence_witness:
  "\<exists>st data. Body 500 (JObj [(''error'', JStr ''failed to get bid: rpc'')]) = Body st data \<and> 400 \<le> st"
proof -
  let ?c = "Post_open ''0xb'' 300 5 ''op''"
  let ?r = "Body 500 (JObj [(''error'', JStr ''failed to get bid: rpc'')])"
  have "classify ?c ?r = Inl (Gateway (gateway_error ''open_preflight_failed'' 503 Not_submitted (JArr [])))"
    by code_simp
  from not_submitted_needs_evidence [OF _ this] show ?thesis by (auto simp: gateway_error_def)
qed

text \<open>
  The stake estimate is the cost of the session at the quoted price, \<open>supply * price * duration /
  budget\<close>, with a margin of one ten-thousandth, rounded up to the next integer: it never falls below that
  value and exceeds it by less than one.
\<close>

theorem stake_estimate_rounds_up:
  assumes "0 < emissions"
  shows "supply * price * dur * 10001 \<le> stake_estimate supply emissions price dur * (emissions * 10000) \<and>
    (stake_estimate supply emissions price dur - 1) * (emissions * 10000) < supply * price * dur * 10001"
proof -
  define n where "n = supply * price * dur * 10001"
  define d where "d = emissions * 10000"
  have d: "0 < d" using assms by (simp add: d_def)
  define q where "q = (n + d - 1) div d"
  have "q * d + (n + d - 1) mod d = n + d - 1" by (simp add: q_def)
  moreover have "0 \<le> (n + d - 1) mod d" "(n + d - 1) mod d < d" using d by simp_all
  ultimately have "n \<le> q * d" "q * d - d < n" by linarith+
  then show ?thesis
    by (simp add: stake_estimate_def Let_def n_def d_def q_def left_diff_distrib)
qed

theorem stake_estimate_rounds_up_witness:
  "(1000 * 3 * 300 * 10001 :: int) \<le> stake_estimate 1000 70 3 300 * (70 * 10000)"
  using stake_estimate_rounds_up [of 70 1000 3 300] by simp

end
