(* ===== verification/SessionCore.thy ===== *)
theory SessionCore
  imports NodeApi "HOL-Library.Product_Lexorder"
begin

text \<open>
  gateway/sessions.py, the parts every lifecycle operation shares: identity verification, error
  accounting with backoff, candidate selection, the pool limits, lease release, and the checks
  that guard wallet mutations.
\<close>

section \<open>Identity\<close>

text \<open>\<open>text in value\<close> for a JSON value.\<close>

fun json_in :: "string \<Rightarrow> json \<Rightarrow> pyexc + bool" where
  "json_in x (JArr ys) = Inr (JStr x \<in> set ys)"
| "json_in x (JStr t) = Inr (sublist x t)"
| "json_in x (JObj m) = Inr (x \<in> set (map fst m))"
| "json_in x _ = Inl TypeError"

definition removeprefix :: "string \<Rightarrow> string \<Rightarrow> string" where
  "removeprefix p s = (if prefix p s then drop (length p) s else s)"

definition installation :: "database \<Rightarrow> ident option" where
  "installation rs = (case db_get rs KSettings ''installation'' of Some (DInstallation i) \<Rightarrow> Some i | _ \<Rightarrow> None)"

definition not_ready :: "string \<Rightarrow> 'a prog" where
  "not_ready c = thenP (modP (\<lambda>s. s\<lparr>ready := False\<rparr>)) (raiseP (err c))"

definition same_installation :: "ident option \<Rightarrow> ident \<Rightarrow> bool" where
  "same_installation expected i =
    (case expected of None \<Rightarrow> True | Some x \<Rightarrow> wallet x = wallet i \<and> chain x = chain i)"

definition has_guards :: "config \<Rightarrow> ident \<Rightarrow> pyexc + bool" where
  "has_guards c i = (if require_guards c then json_in ''stake-limit-v1'' (capabilities i) else Inr True)"

definition verify_identity :: "env \<Rightarrow> ident prog" where
  "verify_identity E =
    bindP (node_identity E) (\<lambda>i.
    bindP (getP (\<lambda>s. installation (db s))) (\<lambda>expected.
    if \<not> same_installation expected i then not_ready ''node_identity_changed''
    else if removeprefix ''v'' (version i) \<noteq> ''7.11.0'' then not_ready ''unsupported_node''
    else bindP (pyP (has_guards (cfg E) i)) (\<lambda>ok.
      if \<not> ok then not_ready ''node_guard_missing''
      else thenP (whenP (expected = None) (put_settingP ''installation'' (DInstallation i)))
        (thenP (modP (\<lambda>s. s\<lparr>identity := Some i, ready := True\<rparr>)) (retP i)))))"

section \<open>Rows\<close>

definition sessions_model :: "string \<Rightarrow> model_policy prog" where
  "sessions_model i = bindP (getP (\<lambda>s. resolve (db_policy (db s)) i)) (\<lambda>m.
     case m of None \<Rightarrow> raiseP (err_status ''model_not_found'' 404) | Some x \<Rightarrow> retP x)"

text \<open>\<open>min(300, 2 ** min(failures, 8))\<close>.\<close>

definition backoff :: "nat \<Rightarrow> time" where
  "backoff n = min 300 (2 ^ min n 8)"

definition error_row :: "time \<Rightarrow> exn \<Rightarrow> srow \<Rightarrow> srow" where
  "error_row now e row = row\<lparr>
     row_error := Some (case e of Gateway g \<Rightarrow> Error_code (code g) | _ \<Rightarrow> Invalid_node_response),
     failures := Suc (failures row),
     retry_at := now + backoff (Suc (failures row))\<rparr>"

definition mark_error :: "env \<Rightarrow> srow \<Rightarrow> exn \<Rightarrow> srow prog" where
  "mark_error E row e =
    bindP (getP clock) (\<lambda>now.
    let row' = error_row now e row
    in thenP (saveP row') (thenP (eventP E (Session_error (sid row) (exn_code ''node_protocol'' e))) (retP row')))"

definition cooldown :: "gw \<Rightarrow> string \<Rightarrow> string \<Rightarrow> bool" where
  "cooldown s m p = (case db_get (db s) KProvider (m @ p) of Some (DProvider until _) \<Rightarrow> clock s < until | _ \<Rightarrow> False)"

definition cool_provider :: "srow \<Rightarrow> string \<Rightarrow> unit prog" where
  "cool_provider row why = modP (\<lambda>s. s\<lparr>db := db_put KProvider (row_model row @ row_provider row)
     (DProvider (clock s + of_int (provider_cooldown_seconds (recovery (db_policy (db s))))) why) (db s)\<rparr>)"

section \<open>Candidates\<close>

datatype verdict = Allowed | Excluded_by_policy | Cooling_down | Above_price_limit

record candidate =
  cand_id :: string
  cand_provider :: string
  cand_score :: json
  cand_price :: int
  eligible :: bool
  cand_reason :: verdict

definition candidate_of :: "gw \<Rightarrow> string \<Rightarrow> json \<Rightarrow> exn + candidate" where
  "candidate_of s m entry =
    (if \<not> is_dict entry \<or> \<not> is_dict (jget_null ''Bid'' entry) then Inl (err_status ''node_protocol'' 502)
     else let bid = jget_null ''Bid'' entry;
              provider = lower (py_str (jget_or ''Provider'' (JStr []) bid));
              pol = db_policy (db s);
              permitted = permits (providers pol) provider;
              cooling = cooldown s m provider
       in (case to_int (jget_or ''PricePerSecond'' (JInt 0) bid) of
             Inl x \<Rightarrow> Inl (Python x)
           | Inr price \<Rightarrow>
               (let affordable = (0 < price \<and> price \<le> max_price_per_second_wei (budget pol))
                in Inr \<lparr>cand_id = py_str (jget_null ''Id'' bid), cand_provider = provider,
                        cand_score = jget_null ''Score'' entry, cand_price = price,
                        eligible = (permitted \<and> \<not> cooling \<and> affordable),
                        cand_reason = (if \<not> permitted then Excluded_by_policy
                          else if cooling then Cooling_down
                          else if \<not> affordable then Above_price_limit else Allowed)\<rparr>)))"

fun map_ok :: "('a \<Rightarrow> exn + 'b) \<Rightarrow> 'a list \<Rightarrow> exn + 'b list" where
  "map_ok f [] = Inr []"
| "map_ok f (x # xs) = (case f x of Inl e \<Rightarrow> Inl e
     | Inr y \<Rightarrow> (case map_ok f xs of Inl e \<Rightarrow> Inl e | Inr ys \<Rightarrow> Inr (y # ys)))"

definition candidates :: "env \<Rightarrow> string \<Rightarrow> candidate list prog" where
  "candidates E m =
    bindP (node_bids E m) (\<lambda>rated.
    bindP (getP (\<lambda>s. map_ok (candidate_of s m) rated)) liftP)"

section \<open>Closing in the background, pool limits\<close>

definition schedule_close :: "srow \<Rightarrow> unit prog" where
  "schedule_close row =
    bindP (getP (\<lambda>s. sid row \<in> active s \<or> sid row \<in> closing s \<or> clock s < retry_at row \<or> maintenance s)) (\<lambda>skip.
    if skip then retP ()
    else thenP (modP (\<lambda>s. s\<lparr>closing := insert (sid row) (closing s)\<rparr>))
      (bindP (spawnP (Close_job (sid row))) (\<lambda>_. retP ())))"

text \<open>The loop of \<open>rebalance\<close> over the open rows, with its two counters.\<close>

definition over_limit :: "policy \<Rightarrow> srow \<Rightarrow> int \<Rightarrow> (string \<Rightarrow> int) \<Rightarrow> bool" where
  "over_limit pol row tot counts =
    (case resolve pol (row_model row) of
       None \<Rightarrow> True
     | Some m \<Rightarrow> \<not> permits (providers pol) (row_provider row) \<or> max_sessions pol \<le> tot \<or>
         model_max_sessions m \<le> counts (row_model row))"

fun rebalance_rows :: "policy \<Rightarrow> srow list \<Rightarrow> int \<Rightarrow> (string \<Rightarrow> int) \<Rightarrow> unit prog" where
  "rebalance_rows pol [] tot counts = retP ()"
| "rebalance_rows pol (row # rows) tot counts =
    (if sstate row \<noteq> Open then rebalance_rows pol rows tot counts
     else if over_limit pol row tot counts
     then (let row' = row\<lparr>sstate := Draining, close_reason := Some Pool_limit\<rparr>
           in thenP (saveP row') (thenP (schedule_close row') (rebalance_rows pol rows tot counts)))
     else rebalance_rows pol rows (tot + 1) (counts(row_model row := counts (row_model row) + 1)))"

definition rebalance :: "unit prog" where
  "rebalance =
    bindP (getP (\<lambda>s. (db_policy (db s), sort_key (\<lambda>r. (sid r \<notin> active s, created_at r)) (db_sessions (db s)))))
      (\<lambda>(pol, rows). rebalance_rows pol rows 0 (\<lambda>_. 0))"

section \<open>Opening failures\<close>

definition opening_error :: "string \<Rightarrow> gw \<Rightarrow> gerror option" where
  "opening_error m s =
    (case db_get (db s) KOpening_failure m of
       Some (DOpening_failure f) \<Rightarrow>
         if of_revision f = revision (db_policy (db s)) \<and> clock s < of_retry_at f then Some (of_error f) else None
     | _ \<Rightarrow> None)"

definition can_wait_for_hot :: "config \<Rightarrow> string \<Rightarrow> gerror \<Rightarrow> gw \<Rightarrow> bool" where
  "can_wait_for_hot c m g s =
    (outcome g = Not_submitted \<and>
     code g \<in> {''provider_declined'', ''no_eligible_provider'', ''wallet_budget'', ''open_preflight_failed''} \<and>
     (\<exists>row \<in> set (db_sessions (db s)). row_model row = m \<and> sstate row = Open \<and>
        permits (providers (db_policy (db s))) (row_provider row) \<and>
        clock s + request_timeout c + 15 < of_int (ends_at row)))"

section \<open>The guard on wallet mutations\<close>

definition wallet_pending :: "sstate \<Rightarrow> bool" where
  "wallet_pending st = (st \<in> {Opening, Open_unknown, Closing, Close_pending})"

definition withdrawal_pending :: "operation \<Rightarrow> bool" where
  "withdrawal_pending op = (op_kind op = Withdraw \<and> op_state op \<in> {Uncertain, Pending, Submitting})"

definition wallet_blocked :: "database \<Rightarrow> string option \<Rightarrow> string option" where
  "wallet_blocked rs excluding =
    (if \<exists>r \<in> set (db_sessions rs). Some (sid r) \<noteq> excluding \<and> wallet_pending (sstate r)
     then Some ''wallet_pending''
     else if \<exists>op \<in> set (db_operations rs). withdrawal_pending op then Some ''withdrawal_pending''
     else None)"

definition require_clear_wallet :: "string option \<Rightarrow> unit prog" where
  "require_clear_wallet excluding =
    bindP (getP (\<lambda>s. wallet_blocked (db s) excluding)) (\<lambda>b.
    case b of None \<Rightarrow> retP () | Some c \<Rightarrow> raiseP (err c))"

section \<open>Chain truth\<close>

text \<open>
  \<open>_validate_truth\<close>. On success the model returns the four integers that later code reads with
  \<open>int(truth[...])\<close>, and the text of the stake.
\<close>

record truth =
  t_ends :: int
  t_closed :: int
  t_stake :: int
  t_opened :: int
  t_stake_text :: string

definition truth_text :: "json \<Rightarrow> string \<Rightarrow> string" where
  "truth_text j k = lower (py_str (jget_or k (JStr []) j))"

definition truth_matches :: "ident \<Rightarrow> srow \<Rightarrow> json \<Rightarrow> bool" where
  "truth_matches i row j =
    (truth_text j ''User'' = lower (wallet i) \<and>
     truth_text j ''ModelAgentId'' = lower (row_model row) \<and>
     truth_text j ''Provider'' = lower (row_provider row) \<and>
     truth_text j ''BidID'' = lower (row_bid row) \<and>
     truth_text j ''Id'' = lower (case chain_id row of None \<Rightarrow> ''None'' | Some c \<Rightarrow> c))"

fun nonneg_members :: "string list \<Rightarrow> json \<Rightarrow> pyexc + int list" where
  "nonneg_members [] j = Inr []"
| "nonneg_members (k # ks) j =
    (case int_member k j of
       Inl x \<Rightarrow> Inl x
     | Inr n \<Rightarrow> if n < 0 then Inl ValueError
         else (case nonneg_members ks j of Inl x \<Rightarrow> Inl x | Inr ns \<Rightarrow> Inr (n # ns)))"

definition validate_truth :: "ident option \<Rightarrow> srow \<Rightarrow> json \<Rightarrow> exn + truth" where
  "validate_truth ident row j =
    (case ident of
       None \<Rightarrow> Inl (err ''session_mismatch'')
     | Some i \<Rightarrow>
         if \<not> is_dict j \<or> \<not> truth_matches i row j then Inl (err ''session_mismatch'')
         else (case nonneg_members [''EndsAt'', ''ClosedAt'', ''Stake'', ''OpenedAt''] j of
             Inl OverflowError \<Rightarrow> Inl (Python OverflowError)
           | Inr [e, c, st, op] \<Rightarrow> Inr \<lparr>t_ends = e, t_closed = c, t_stake = st, t_opened = op,
                 t_stake_text = py_str (jget_null ''Stake'' j)\<rparr>
           | _ \<Rightarrow> Inl (err ''session_mismatch'')))"

definition check_truth :: "srow \<Rightarrow> json \<Rightarrow> truth prog" where
  "check_truth row j = bindP (getP (\<lambda>s. validate_truth (identity s) row j)) liftP"

section \<open>Leases\<close>

definition release :: "srow \<Rightarrow> unit prog" where
  "release row =
    thenP (modP (\<lambda>s. s\<lparr>active := active s - {sid row}\<rparr>))
    (bindP (getP (\<lambda>s. (get_session (db s) (sid row), clock s))) (\<lambda>(current, now).
     case current of
       None \<Rightarrow> retP ()
     | Some r \<Rightarrow>
         (let r' = r\<lparr>last_used := now\<rparr>
          in thenP (saveP r') (whenP (sstate r' = Draining) (schedule_close r')))))"

definition invalidate :: "env \<Rightarrow> srow \<Rightarrow> string \<Rightarrow> unit prog" where
  "invalidate E row why =
    bindP (getP (\<lambda>s. get_session (db s) (sid row))) (\<lambda>current.
    case current of
      None \<Rightarrow> retP ()
    | Some r \<Rightarrow>
        if sstate r \<in> {Closed, Closing, Close_pending} then retP ()
        else (let r' = r\<lparr>sstate := Draining, close_reason := Some (Invalidated why)\<rparr>
          in thenP (saveP r') (thenP (cool_provider r' why)
             (thenP (eventP E (Session_invalidated (sid row) (row_provider row) why))
               (schedule_close r')))))"

text \<open>\<open>record_closed\<close>: the settlement estimate is the share of the stake for the time lived.\<close>

definition lived_share :: "truth \<Rightarrow> int" where
  "lived_share t =
    (let dur = max 1 (t_ends t - t_opened t);
         lived = min dur (max 0 (t_closed t - t_opened t))
     in t_stake t * lived div dur)"

definition closed_row :: "truth \<Rightarrow> srow \<Rightarrow> srow" where
  "closed_row t row = row\<lparr>sstate := Closed, closed_at := Some (t_closed t), stake_wei := t_stake_text t,
     row_error := None, estimated_daylocked_wei := Some (dec (lived_share t))\<rparr>"

definition record_closed :: "env \<Rightarrow> srow \<Rightarrow> truth \<Rightarrow> srow prog" where
  "record_closed E row t =
    (let row' = closed_row t row
     in thenP (saveP row') (thenP (eventP E (Session_closed (sid row) (close_tx row))) (retP row')))"

section \<open>What the shared operations leave alone\<close>

text \<open>
  None of the operations above touches the policy, the wallet lock or the set of leases, except
  \<open>release\<close>, which ends a lease, and none breaks the table. So each stays within every interference
  relation that looks at these parts of the state and at the operations only.
\<close>

locale quiet_interference = interference +
  assumes quiet: "db_policy (db t) = db_policy (db s) \<Longrightarrow> locked t = locked s \<Longrightarrow> active t = active s \<Longrightarrow>
    db_operations (db t) = db_operations (db s) \<Longrightarrow> (db_wf (db s) \<Longrightarrow> db_wf (db t)) \<Longrightarrow> R s t"
begin

lemma local: "(\<And>s. db_policy (db (f s)) = db_policy (db s) \<and> locked (f s) = locked s \<and> active (f s) = active s \<and>
    db_operations (db (f s)) = db_operations (db s) \<and> (db_wf (db s) \<longrightarrow> db_wf (db (f s)))) \<Longrightarrow> stays R C (modP f)"
  by (rule update) (simp add: quiet)

lemma uuids: "stays R C (uuidP E)"
  by (simp add: stays_def quiet)

lemma spawn: "stays R C (spawnP j)"
  by (simp add: stays_def quiet)

lemma save: "stays R C (saveP r)"
  unfolding saveP_def by (rule local) simp

lemma setting: "i \<noteq> ''policy'' \<Longrightarrow> doc_ok KSettings i d \<Longrightarrow> stays R C (put_settingP i d)"
  unfolding put_settingP_def by (rule local) simp

lemma event: "stays R C (eventP E a)"
  unfolding eventP_def by (intro rules uuids local) simp

lemmas local_rules = rules uuids spawn save event

lemma fail: "stays R C (not_ready c)"
  unfolding not_ready_def by (intro rules local) simp

lemma verify: "rely E R \<Longrightarrow> stays R background_call (verify_identity E)"
  unfolding verify_identity_def by (intro local_rules identity fail setting local) simp_all

lemma lookup: "stays R C (sessions_model i)"
  unfolding sessions_model_def by (intro rules)

lemma mark: "stays R C (mark_error E row e)"
  unfolding mark_error_def Let_def by (intro local_rules)

lemma cool: "stays R C (cool_provider row why)"
  unfolding cool_provider_def by (rule local) simp

lemma choose: "rely E R \<Longrightarrow> stays R background_call (candidates E m)"
  unfolding candidates_def by (intro rules bids)

lemma schedule: "stays R C (schedule_close row)"
  unfolding schedule_close_def by (intro local_rules local) simp

lemma rebalance_loop: "stays R C (rebalance_rows pol rows n counts)"
  by (induction rows arbitrary: n counts) (auto simp: Let_def intro!: local_rules schedule)

lemma balance_pool: "stays R C rebalance"
  unfolding rebalance_def case_prod_beta by (intro rules rebalance_loop)

lemma clear_wallet: "stays R C (require_clear_wallet x)"
  unfolding require_clear_wallet_def by (intro rules)

lemma check: "stays R C (check_truth row j)"
  unfolding check_truth_def by (intro rules)

lemma invalid: "stays R C (invalidate E row why)"
  unfolding invalidate_def Let_def by (intro local_rules cool schedule)

lemma closed: "stays R C (record_closed E row t)"
  unfolding record_closed_def Let_def by (intro local_rules)

end

text \<open>Relations that do not look at the operations either.\<close>

locale frame_interference = quiet_interference +
  assumes frame: "db_policy (db t) = db_policy (db s) \<Longrightarrow> locked t = locked s \<Longrightarrow> active t = active s \<Longrightarrow>
    (db_wf (db s) \<Longrightarrow> db_wf (db t)) \<Longrightarrow> R s t"
begin

lemma save_op: "stays R C (save_opP op)"
  unfolding save_opP_def by (rule update) (simp add: frame)

end

text \<open>
  The contract of the policy document: a saved policy carries a larger revision than the one it
  replaces, so between two reads with equal revisions the policy is the same.
\<close>

definition policy_grows :: "gw \<Rightarrow> gw \<Rightarrow> bool" where
  "policy_grows s t = (db_policy (db t) = db_policy (db s) \<or> revision (db_policy (db s)) < revision (db_policy (db t)))"

interpretation any: frame_interference anything
  by unfold_locales (simp_all add: anything_def)

interpretation lock: frame_interference keeps_lock
  by unfold_locales (simp_all add: keeps_lock_def)

interpretation lease: frame_interference "keeps_active i"
  by unfold_locales (simp_all add: keeps_active_def)

interpretation policy: frame_interference policy_grows
  by unfold_locales (auto simp: policy_grows_def)

lemma policy_grows_same:
  "policy_grows s t \<Longrightarrow> revision (db_policy (db t)) = revision (db_policy (db s)) \<Longrightarrow> db_policy (db t) = db_policy (db s)"
  by (auto simp: policy_grows_def)

lemma wp_clear_wallet:
  assumes "wallet_blocked (db s) x = None \<Longrightarrow> wp G q Q s" and "\<And>c. Q (Inl (err c)) s"
  shows "wp G (thenP (require_clear_wallet x) q) Q s"
  using assms by (cases "wallet_blocked (db s) x") (auto simp: require_clear_wallet_def)

end
