(* ===== verification/Scenario.thy ===== *)
theory Scenario
  imports NodeApi
begin

text \<open>
  A concrete node and gateway, for the witnesses: one model, one provider with one bid, a funded
  wallet. The node answers every call at once and nothing else runs meanwhile.
\<close>

abbreviation the_model :: string where "the_model \<equiv> hash_of (CHR ''a'')"
abbreviation the_provider :: string where "the_provider \<equiv> address_of (CHR ''b'')"
abbreviation the_bid :: string where "the_bid \<equiv> hash_of (CHR ''c'')"
abbreviation the_session :: string where "the_session \<equiv> hash_of (CHR ''5'')"
abbreviation the_wallet :: string where "the_wallet \<equiv> address_of (CHR ''d'')"

definition bid_json :: json where
  "bid_json = JObj [(''Id'', JStr the_bid), (''Provider'', JStr the_provider),
     (''ModelAgentId'', JStr the_model), (''PricePerSecond'', JStr ''1''), (''DeletedAt'', JStr ''0'')]"

definition session_json :: "int \<Rightarrow> json" where
  "session_json ct = JObj [(''User'', JStr the_wallet), (''ModelAgentId'', JStr the_model),
     (''Provider'', JStr the_provider), (''BidID'', JStr the_bid), (''Id'', JStr the_session),
     (''EndsAt'', JInt 5000), (''ClosedAt'', JInt ct), (''Stake'', JStr ''10''), (''OpenedAt'', JInt 1000)]"

fun node_answer :: "int \<Rightarrow> call \<Rightarrow> reply" where
  "node_answer ct Get_config = Body 200 (JObj [(''Version'', JStr ''v7.11.0''),
     (''GatewayCapabilities'', JArr [JStr ''stake-limit-v1'']),
     (''DerivedConfig'', JObj [(''WalletAddress'', JStr the_wallet), (''ChainID'', JInt 8453)])])"
| "node_answer ct (Get_models _ _) = Body 200 (JObj [(''models'', JArr [JObj [(''Id'', JStr the_model),
     (''ModelType'', JStr ''LLM''), (''IsDeleted'', JBool False)]])])"
| "node_answer ct (Get_rated_bids _) = Body 200 (JObj [(''bids'', JArr [JObj [(''Score'', JInt 1), (''Bid'', bid_json)]])])"
| "node_answer ct (Get_bid _) = Body 200 (JObj [(''bid'', bid_json)])"
| "node_answer ct (Get_session _) = Body 200 (JObj [(''session'', session_json ct)])"
| "node_answer ct (Get_user_sessions _ _) = Body 200 (JObj [(''sessions'', JArr [])])"
| "node_answer ct Get_balance = Body 200 (JObj [(''mor'', JStr ''100''), (''eth'', JStr ''1'')])"
| "node_answer ct Get_stakes = Body 200 (JObj [(''available'', JStr ''5''), (''hold'', JStr ''0'')])"
| "node_answer ct Get_supply = Body 200 (JObj [(''supply'', JStr ''1'')])"
| "node_answer ct Get_budget = Body 200 (JObj [(''budget'', JStr ''1000'')])"
| "node_answer ct (Post_open _ _ _ _) = Body 200 (JObj [(''sessionID'', JStr the_session)])"
| "node_answer ct (Post_close _ _) = Body 200 (JObj [(''tx'', JStr (hash_of (CHR ''7'')))])"
| "node_answer ct (Post_withdraw _) = Body 200 (JObj [(''tx'', JStr (hash_of (CHR ''8'')))])"
| "node_answer ct (Rpc m _) = Body 200 (JObj [(''result'',
     if m = ''eth_chainId'' then JStr ''0x2105'' else JObj [(''status'', JStr ''0x0'')])])"
| "node_answer ct Helper_status = Unreachable"
| "node_answer ct (Helper_journal _) = Unreachable"
| "node_answer ct (Helper_operation _) = Unreachable"
| "node_answer ct (Helper_restart _ _) = Unreachable"
| "node_answer ct Await_lock = Task_done"
| "node_answer ct (Await_opening _ _ _) = Task_timeout"
| "node_answer ct (Sleep _) = Task_done"
| "node_answer ct (Post_completion _ _ _ _) = Upstream 503"
| "node_answer ct (Read_upstream _) = Unreachable"
| "node_answer ct Close_upstream = Task_done"

text \<open>\<open>ct\<close> is the closing time the chain reports for the session, 0 while it is open.\<close>

definition scenario_env :: "int \<Rightarrow> env" where
  "scenario_env ct = \<lparr>respond = (\<lambda>c s. (node_answer ct c, s)),
     uuid = (\<lambda>n. ''id'' @ dec (int n)), cfg = default_config\<rparr>"

definition scenario_policy :: policy where
  "scenario_policy = (sample_policy [sample_model (CHR ''a'') ''fast''])
     \<lparr>budget := \<lparr>max_session_stake_wei = 50, max_total_stake_wei = 80, max_price_per_second_wei = 2,
        min_liquid_mor_wei = 10, min_eth_wei = 1\<rparr>,
      recovery := default_recovery\<lparr>withdrawal_min_wei := 1\<rparr>\<rparr>"

definition scenario_state :: "srow list \<Rightarrow> gw" where
  "scenario_state rows = initial_gw (foldr put_session rows
     (db_put KSettings ''policy'' (DPolicy scenario_policy) [])) 2000"

definition scenario_ident :: ident where
  "scenario_ident = \<lparr>wallet = the_wallet, chain = 8453, version = ''v7.11.0'', capabilities = JArr [JStr ''stake-limit-v1'']\<rparr>"

lemma db_wf_scenario [simp]: "db_wf (db (scenario_state rows))"
proof -
  have "db_wf [(KSettings, ''policy'', DPolicy scenario_policy)]" by (simp add: db_wf_def db_ok_def)
  then show ?thesis
    unfolding scenario_state_def initial_gw_def by (induction rows) simp_all
qed

end
