(* ===== verification/SessionOpen.thy ===== *)
theory SessionOpen
  imports SessionCore Scenario
begin

text \<open>
  gateway/sessions.py: opening sessions (\<open>_open\<close>, the background opener of \<open>start_open\<close>) and quoting
  their price (\<open>quote\<close>). The lemmas follow the opener up to its submission, and show that the
  submission is within the policy and its outcome on record.
\<close>

section \<open>The preflight of one opening attempt\<close>

text \<open>What the checks of \<open>_open\<close> establish before anything is submitted.\<close>

record plan =
  pl_policy :: policy
  pl_model :: model_policy
  pl_bid :: string
  pl_provider :: string
  pl_estimate :: int
  pl_limit :: int

definition model_count :: "string \<Rightarrow> srow list \<Rightarrow> int" where
  "model_count m rows = int (length (filter (\<lambda>r. row_model r = m) rows))"

definition pool_full :: "policy \<Rightarrow> model_policy \<Rightarrow> srow list \<Rightarrow> bool" where
  "pool_full pol m rows =
    (max_sessions pol \<le> int (length rows) \<or> model_max_sessions m \<le> model_count (model_id m) rows)"

text \<open>\<open>sum(int(r.get("stake_wei", 0)) for r in rows)\<close>.\<close>

fun sum_stakes :: "srow list \<Rightarrow> pyexc + int" where
  "sum_stakes [] = Inr 0"
| "sum_stakes (r # rs) =
    (case int_of_text (stake_wei r) of
       None \<Rightarrow> Inl ValueError
     | Some n \<Rightarrow> (case sum_stakes rs of Inl x \<Rightarrow> Inl x | Inr t \<Rightarrow> Inr (n + t)))"

definition bid_unchanged :: "model_policy \<Rightarrow> candidate \<Rightarrow> json \<Rightarrow> exn + unit" where
  "bid_unchanged m selected bid =
    (if lower (py_str (jget_or ''ModelAgentId'' (JStr []) bid)) \<noteq> model_id m then Inl (err ''bid_changed'')
     else (case to_int (jget_or ''DeletedAt'' (JInt 1) bid) of
         Inl x \<Rightarrow> Inl (Python x)
       | Inr d \<Rightarrow> if d \<noteq> 0 \<or> lower (py_str (jget_or ''Provider'' (JStr []) bid)) \<noteq> cand_provider selected
           then Inl (err ''bid_changed'') else Inr ()))"

text \<open>The stake the node may commit: per session, in total, and above the liquid reserve.\<close>

definition stake_limit :: "budget \<Rightarrow> int \<Rightarrow> int \<Rightarrow> int" where
  "stake_limit b allocated mor =
    min (max_session_stake_wei b) (min (max_total_stake_wei b - allocated) (mor - min_liquid_mor_wei b))"

definition admission_changed :: "policy \<Rightarrow> string \<Rightarrow> gw \<Rightarrow> bool" where
  "admission_changed pol provider s =
    (let current = db_policy (db s)
     in revision current \<noteq> revision pol \<or> \<not> permits (providers current) provider \<or> maintenance s \<or> paused current)"

definition price_check :: "env \<Rightarrow> policy \<Rightarrow> model_policy \<Rightarrow> srow list \<Rightarrow> candidate \<Rightarrow> json \<Rightarrow> plan prog" where
  "price_check E pol m rows selected bid =
    bindP (balances E) (\<lambda>(mor, eth).
    bindP (estimate E bid (duration_seconds m)) (\<lambda>cost.
    bindP (stakes E) (\<lambda>(available, hold).
    bindP (pyP (sum_stakes rows)) (\<lambda>tracked.
    let limit = stake_limit (budget pol) (tracked + hold + available) mor
    in if cost \<le> 0 \<or> limit < cost \<or> eth < min_eth_wei (budget pol)
       then raiseP (err_not_submitted ''wallet_budget'')
       else bindP (getP (admission_changed pol (cand_provider selected))) (\<lambda>changed.
         if changed then raiseP (err ''policy_changed'')
         else retP \<lparr>pl_policy = pol, pl_model = m, pl_bid = cand_id selected,
                    pl_provider = cand_provider selected, pl_estimate = cost, pl_limit = limit\<rparr>)))))"

definition select_bid :: "env \<Rightarrow> policy \<Rightarrow> model_policy \<Rightarrow> srow list \<Rightarrow> plan prog" where
  "select_bid E pol m rows =
    bindP (candidates E (model_id m)) (\<lambda>all.
    case filter eligible all of
      [] \<Rightarrow> raiseP (err_not_submitted ''no_eligible_provider'')
    | selected # _ \<Rightarrow>
        if \<not> HASH (cand_id selected) then raiseP (err ''node_protocol'')
        else bindP (node_bid E (cand_id selected)) (\<lambda>bid.
          thenP (liftP (bid_unchanged m selected bid)) (price_check E pol m rows selected bid)))"

text \<open>None: the pool is full and \<open>_open\<close> returns without a row.\<close>

definition preflight :: "env \<Rightarrow> string \<Rightarrow> plan option prog" where
  "preflight E i =
    bindP (getP (\<lambda>s. (db_policy (db s), maintenance s))) (\<lambda>(pol, maint).
    if paused pol \<or> maint then raiseP (err ''paused'')
    else bindP (sessions_model i) (\<lambda>m.
    bindP (verify_identity E) (\<lambda>_.
    bindP (node_model E (model_id m)) (\<lambda>_.
    bindP (getP (\<lambda>s. db_sessions (db s))) (\<lambda>rows.
    if \<exists>r \<in> set rows. sstate r \<in> {Opening, Open_unknown} then raiseP (err ''open_unknown'')
    else if pool_full pol m rows then retP None
    else thenP (require_clear_wallet None)
      (bindP (select_bid E pol m rows) (\<lambda>pl. retP (Some pl))))))))"

section \<open>Submission and its outcomes\<close>

definition opening_row :: "string \<Rightarrow> time \<Rightarrow> plan \<Rightarrow> srow" where
  "opening_row i now pl = \<lparr>sid = i, chain_id = None, row_model = model_id (pl_model pl),
     row_alias = model_alias (pl_model pl), row_provider = pl_provider pl, row_bid = pl_bid pl,
     sstate = Opening, created_at = now, last_used = now, ends_at = 0, opened_at = 0,
     stake_wei = dec (pl_limit pl), row_revision = revision (pl_policy pl),
     estimated_stake_wei = dec (pl_estimate pl), transactions = JArr [], row_error = None,
     failures = 0, retry_at = 0, close_reason = None, close_operation_id = None, close_tx = JNull,
     close_transactions = JArr [], closed_at = None, estimated_daylocked_wei = None,
     recovery_candidates = [], discovered = False\<rparr>"

datatype attempt = Again | Opened "srow option"

text \<open>The handlers of the \<open>try\<close> around the submission; \<open>again\<close> says that another attempt is left.\<close>

definition failed_row :: "gerror \<Rightarrow> srow \<Rightarrow> srow" where
  "failed_row g row = row\<lparr>
     sstate := (if outcome g = Not_submitted then Failed else Open_unknown),
     transactions := (if truthy (txs g) then txs g else transactions row)\<rparr>"

definition open_failed :: "env \<Rightarrow> bool \<Rightarrow> srow \<Rightarrow> exn \<Rightarrow> attempt prog" where
  "open_failed E again row e =
    (case e of
       Gateway g \<Rightarrow>
         bindP (mark_error E (failed_row g row) e) (\<lambda>row'.
         if code g = ''provider_declined''
         then thenP (cool_provider row' (code g)) (if again then retP Again else raiseP e)
         else raiseP e)
     | _ \<Rightarrow> thenP (saveP (row\<lparr>sstate := Open_unknown\<rparr>)) (raiseP e))"

definition session_id_of :: "json \<Rightarrow> exn + string" where
  "session_id_of r =
    (let i = py_str (jget_or ''sessionID'' (JStr []) r)
     in if nonzero_hash i then Inr i else Inl (err ''node_protocol''))"

definition result_transactions :: "json \<Rightarrow> pyexc + json" where
  "result_transactions r =
    (let progress = jget_or ''progress'' (JObj []) r
     in if is_dict progress then Inr (jget_or ''transactions'' (JArr []) progress) else Inl AttributeError)"

definition verified_row :: "truth \<Rightarrow> srow \<Rightarrow> srow" where
  "verified_row t row = row\<lparr>sstate := (if t_closed t \<noteq> 0 then Closed else Open),
     ends_at := t_ends t, opened_at := t_opened t, stake_wei := t_stake_text t\<rparr>"

definition no_longer_wanted :: "plan \<Rightarrow> gw \<Rightarrow> bool" where
  "no_longer_wanted pl s =
    (let current = db_policy (db s)
     in paused current \<or> resolve current (model_id (pl_model pl)) = None \<or>
        \<not> permits (providers current) (pl_provider pl))"

definition adopt_opened :: "plan \<Rightarrow> srow \<Rightarrow> attempt prog" where
  "adopt_opened pl row =
    bindP (getP (no_longer_wanted pl)) (\<lambda>drop_it.
    if drop_it then thenP (saveP (row\<lparr>sstate := Draining\<rparr>)) (raiseP (err ''policy_changed''))
    else thenP (saveP row) (retP (Opened (Some row))))"

text \<open>The node has named the session: journal it, then verify it on chain.\<close>

definition opened_on_chain :: "env \<Rightarrow> bool \<Rightarrow> plan \<Rightarrow> srow \<Rightarrow> json \<Rightarrow> string \<Rightarrow> attempt prog" where
  "opened_on_chain E again pl row r c =
    (let row1 = row\<lparr>chain_id := Some (lower c)\<rparr>
     in tryP (bindP (pyP (result_transactions r)) (\<lambda>t. thenP (saveP (row1\<lparr>transactions := t\<rparr>)) (retP t)))
       (open_failed E again row1)
       (\<lambda>t. let row2 = row1\<lparr>transactions := t\<rparr>
          in tryP (bindP (node_session E c) (check_truth row2))
            (open_failed E again row2)
            (\<lambda>tr. adopt_opened pl (verified_row tr row2))))"

definition submit_open :: "env \<Rightarrow> bool \<Rightarrow> plan \<Rightarrow> attempt prog" where
  "submit_open E again pl =
    bindP (uuidP E) (\<lambda>i.
    bindP (getP clock) (\<lambda>now.
    let row = opening_row i now pl
    in thenP (saveP row)
      (thenP (eventP E (Session_open_started i (row_model row) (row_provider row)))
      (tryP (bindP (node_open E (row_bid row) (duration_seconds (pl_model pl)) (pl_limit pl) i)
               (\<lambda>r. bindP (liftP (session_id_of r)) (\<lambda>c. retP (r, c))))
         (open_failed E again row)
         (\<lambda>(r, c). opened_on_chain E again pl row r c)))))"

fun open_attempts :: "env \<Rightarrow> string \<Rightarrow> nat \<Rightarrow> srow option prog" where
  "open_attempts E i 0 = retP None"
| "open_attempts E i (Suc n) =
    bindP (preflight E i) (\<lambda>p.
    case p of
      None \<Rightarrow> retP None
    | Some pl \<Rightarrow> bindP (submit_open E (0 < n) pl) (\<lambda>a.
        case a of Again \<Rightarrow> open_attempts E i n | Opened r \<Rightarrow> retP r))"

text \<open>\<open>_open\<close>: three attempts under the wallet lock.\<close>

definition open_session :: "env \<Rightarrow> string \<Rightarrow> srow option prog" where
  "open_session E i = lockedP E (open_attempts E i 3)"

section \<open>The background opener\<close>

definition retryable_opening :: "gerror \<Rightarrow> bool" where
  "retryable_opening g =
    (code g \<in> {''session_duration_invalid'', ''open_preflight_failed'', ''provider_declined'', ''no_eligible_provider''} \<and>
     outcome g = Not_submitted)"

text \<open>\<open>min(300, 5 * 2**failures)\<close>.\<close>

definition opening_backoff :: "nat \<Rightarrow> time" where
  "opening_backoff n = min 300 (5 * 2 ^ n)"

definition note_failure :: "string \<Rightarrow> int \<Rightarrow> gerror \<Rightarrow> gw \<Rightarrow> gw" where
  "note_failure i revn g s =
    (let previous = (case db_get (db s) KOpening_failure i of
           Some (DOpening_failure f) \<Rightarrow> if of_revision f = revn then of_failures f else 0
         | _ \<Rightarrow> 0);
         n = min (previous + 1) 8
     in s\<lparr>db := db_put KOpening_failure i (DOpening_failure
          \<lparr>of_revision = revn, of_failures = n, of_retry_at = clock s + opening_backoff n,
           of_error = gateway_error (code g) (status g) (outcome g) JNull\<rparr>) (db s)\<rparr>)"

definition opener :: "env \<Rightarrow> string \<Rightarrow> int \<Rightarrow> srow option prog" where
  "opener E i revn =
    tryP (open_session E i)
      (\<lambda>e. case e of
         Gateway g \<Rightarrow> thenP (whenP (retryable_opening g) (modP (note_failure i revn g))) (raiseP e)
       | _ \<Rightarrow> raiseP e)
      (\<lambda>row. thenP (modP (\<lambda>s. s\<lparr>db := db_delete KOpening_failure i (db s)\<rparr>)) (retP row))"

definition start_open :: "string \<Rightarrow> nat prog" where
  "start_open i =
    bindP (getP (\<lambda>s. revision (db_policy (db s)))) (\<lambda>revn.
    bindP (spawnP (Open_job i revn)) (\<lambda>task.
    thenP (modP (\<lambda>s. s\<lparr>openers := (openers s)(i := Some task)\<rparr>)) (retP task)))"

text \<open>The done callback: an earlier callback never removes a newer opener.\<close>

definition opener_finished :: "string \<Rightarrow> nat \<Rightarrow> gw \<Rightarrow> gw" where
  "opener_finished i task s =
    (if openers s i = Some task then s\<lparr>openers := (openers s)(i := None)\<rparr> else s)"

section \<open>Quotes\<close>

definition quote :: "env \<Rightarrow> string \<Rightarrow> (candidate \<times> int \<times> int \<times> int) prog" where
  "quote E i =
    bindP (sessions_model i) (\<lambda>m.
    bindP (verify_identity E) (\<lambda>_.
    bindP (node_model E (model_id m)) (\<lambda>_.
    bindP (candidates E (model_id m)) (\<lambda>all.
    case filter eligible all of
      [] \<Rightarrow> raiseP (err ''no_eligible_provider'')
    | c # _ \<Rightarrow> bindP (node_bid E (cand_id c)) (\<lambda>bid.
        bindP (estimate E bid (duration_seconds m)) (\<lambda>cost.
        bindP (getP (\<lambda>s. max_session_stake_wei (budget (db_policy (db s))))) (\<lambda>cap.
          retP (c, cost, duration_seconds m, cap))))))))"

section \<open>Calls made while opening\<close>

context quiet_interference
begin

lemma price: "rely E R \<Longrightarrow> stays R background_call (price_check E pol m rows sel b)"
  unfolding price_check_def case_prod_beta Let_def by (intro local_rules balance quote stake)

lemma select: "rely E R \<Longrightarrow> stays R background_call (select_bid E pol m rows)"
  unfolding select_bid_def by (intro local_rules choose bid price)

lemma preflight_reads: "rely E R \<Longrightarrow> stays R background_call (preflight E i)"
  unfolding preflight_def case_prod_beta
  by (intro local_rules lookup verify model clear_wallet select)

lemma open_failure: "stays R C (open_failed E again row e)"
  unfolding open_failed_def by (intro local_rules mark cool)

lemma adopt: "stays R C (adopt_opened pl row)"
  unfolding adopt_opened_def by (intro local_rules)

lemma after_open: "rely E R \<Longrightarrow> stays R background_call (bindP (node_session E c) (check_truth row))"
  by (intro local_rules session check)

lemma on_chain: "rely E R \<Longrightarrow> stays R background_call (opened_on_chain E again pl row r c)"
  unfolding opened_on_chain_def Let_def by (intro local_rules after_open open_failure adopt)

lemma submission: "rely E R \<Longrightarrow> stays R (\<lambda>_. True) (submit_open E again pl)"
  unfolding submit_open_def node_open_def Let_def case_prod_beta
  by (intro local_rules request stays_every [OF on_chain] open_failure) auto

lemma attempts: "rely E R \<Longrightarrow> stays R (\<lambda>_. True) (open_attempts E i n)"
proof (induction n)
  case (Suc n)
  then show ?case
    by (auto intro!: local_rules stays_every [OF preflight_reads] submission split: attempt.splits)
qed (simp add: pure)

end

text \<open>
  What the preflight has established when it lets an attempt go ahead. \<open>T\<close> holds the calls of
  the opener: the wallet was clear, the pool not full and the budget sufficient for the sessions
  stored when the opener asked for the rated bids.
\<close>

definition planned :: "(call \<times> gw) set \<Rightarrow> plan \<Rightarrow> gw \<Rightarrow> bool" where
  "planned T pl s =
    (pl_policy pl = db_policy (db s) \<and> \<not> paused (db_policy (db s)) \<and> \<not> maintenance s \<and>
     permits (providers (db_policy (db s))) (pl_provider pl) \<and>
     0 < pl_estimate pl \<and> pl_estimate pl \<le> pl_limit pl \<and>
     pl_limit pl \<le> max_session_stake_wei (budget (pl_policy pl)) \<and> HASH (pl_bid pl) \<and>
     (\<exists>t tracked. (Get_rated_bids (model_id (pl_model pl)), t) \<in> T \<and> wallet_blocked (db t) None = None \<and>
        \<not> pool_full (pl_policy pl) (pl_model pl) (db_sessions (db t)) \<and>
        sum_stakes (db_sessions (db t)) = Inr tracked \<and>
        pl_limit pl + tracked \<le> max_total_stake_wei (budget (pl_policy pl))))"

lemma price_check_plans:
  assumes rely: "rely E policy_grows" and G: "\<And>c u. background_call c \<Longrightarrow> G c u"
    and pol: "policy_grows s0 s" "pol = db_policy (db s0)"
    and t: "(Get_rated_bids (model_id m), t) \<in> T" "wallet_blocked (db t) None = None" "rows = db_sessions (db t)"
      "\<not> pool_full pol m rows" and h: "HASH (cand_id sel)"
  shows "wp G (price_check E pol m rows sel b) (\<lambda>r s'. \<forall>pl. r = Inr pl \<longrightarrow> planned T pl s') s"
  unfolding price_check_def case_prod_beta
  apply (rule policy.use_bind [OF policy.balance [OF rely]], rule G, assumption, simp)
  apply (rule policy.use_bind [OF policy.quote [OF rely]], rule G, assumption, simp)
  apply (rule policy.use_bind_result [OF policy.stake [OF rely] stakes_nonneg], rule G, assumption, simp)
  subgoal for bal s1 cost s2 st s3
  proof -
    assume steps: "policy_grows s s1" "policy_grows s1 s2" "policy_grows s2 s3" and nn: "0 \<le> fst st \<and> 0 \<le> snd st"
    then have g: "policy_grows s0 s3"
      using pol(1) policy.trans by blast
    then have same: "revision (db_policy (db s3)) = revision pol \<Longrightarrow> db_policy (db s3) = pol"
      using policy_grows_same pol(2) by blast
    then show ?thesis using t h nn
      by (auto simp: Let_def admission_changed_def planned_def stake_limit_def split: sum.splits)
  qed
  done

lemma candidates_calls:
  "traced T (bindP (candidates E m) f) s \<Longrightarrow> (Get_rated_bids m, s) \<in> T"
  by (simp add: traced_wp candidates_def node_bids_def node_request_def)

lemma select_bid_plans:
  assumes rely: "rely E policy_grows" and G: "\<And>c u. background_call c \<Longrightarrow> G c u"
    and pol: "policy_grows s0 s" "pol = db_policy (db s0)"
    and t: "wallet_blocked (db s) None = None" "rows = db_sessions (db s)" "\<not> pool_full pol m rows"
    and T: "traced T (select_bid E pol m rows) s"
  shows "wp G (select_bid E pol m rows) (\<lambda>r s'. \<forall>pl. r = Inr pl \<longrightarrow> planned T pl s') s"
  unfolding select_bid_def
proof (rule policy.use_bind [OF policy.choose [OF rely]])
  fix all s1 assume s1: "policy_grows s s1"
  have asked: "(Get_rated_bids (model_id m), s) \<in> T"
    using T unfolding select_bid_def by (rule candidates_calls)
  show "wp G (case filter eligible all of [] \<Rightarrow> raiseP (err_not_submitted ''no_eligible_provider'')
     | selected # _ \<Rightarrow> if \<not> HASH (cand_id selected) then raiseP (err ''node_protocol'')
        else bindP (node_bid E (cand_id selected)) (\<lambda>bid.
          thenP (liftP (bid_unchanged m selected bid)) (price_check E pol m rows selected bid)))
     (\<lambda>r s'. \<forall>pl. r = Inr pl \<longrightarrow> planned T pl s') s1"
  proof (cases "filter eligible all")
    case (Cons sel rest)
    have "wp G (bindP (node_bid E (cand_id sel)) (\<lambda>bid.
          thenP (liftP (bid_unchanged m sel bid)) (price_check E pol m rows sel bid)))
       (\<lambda>r s'. \<forall>pl. r = Inr pl \<longrightarrow> planned T pl s') s1" if h: "HASH (cand_id sel)"
    proof (rule policy.use_bind [OF policy.bid [OF rely]])
      fix b s2 assume "policy_grows s1 s2"
      then have g: "policy_grows s0 s2" using s1 pol(1) policy.trans by blast
      have "wp G (price_check E pol m rows sel b) (\<lambda>r s'. \<forall>pl. r = Inr pl \<longrightarrow> planned T pl s') s2"
        by (rule price_check_plans [OF rely G g pol(2) asked t h])
      then show "wp G (thenP (liftP (bid_unchanged m sel b)) (price_check E pol m rows sel b))
          (\<lambda>r s'. \<forall>pl. r = Inr pl \<longrightarrow> planned T pl s') s2"
        by (cases "bid_unchanged m sel b") simp_all
    qed (auto intro: G)
    then show ?thesis by (simp add: Cons)
  qed simp
qed (auto intro: G)

lemma preflight_plans:
  assumes rely: "rely E policy_grows" and G: "\<And>c u. background_call c \<Longrightarrow> G c u" and T: "traced T (preflight E i) s"
  shows "wp G (preflight E i) (\<lambda>r s'. \<forall>pl. r = Inr (Some pl) \<longrightarrow> planned T pl s') s"
  using T unfolding preflight_def wp_get_bind traced_wp prod.case
  unfolding traced_wp [symmetric]
  apply (intro wp_ifI, simp, simp only: if_False simp_thms)
  apply (erule policy.use_bind_traced [OF policy.lookup [where C = background_call]], rule G, assumption, simp)
  apply (erule policy.use_bind_traced [OF policy.verify [OF rely]], rule G, assumption, simp)
  apply (erule policy.use_bind_traced [OF policy.model [OF rely]], rule G, assumption, simp)
  subgoal for m s1 _ s2 _ s3
  proof -
    assume "policy_grows s s1" "policy_grows s1 s2" "policy_grows s2 s3"
    then have g: "policy_grows s s3" using policy.trans by blast
    assume tr: "traced T (bindP (getP (\<lambda>s. db_sessions (db s))) (\<lambda>rows.
      if \<exists>r \<in> set rows. sstate r \<in> {Opening, Open_unknown} then raiseP (err ''open_unknown'')
      else if pool_full (db_policy (db s)) m rows then retP None
      else thenP (require_clear_wallet None)
        (bindP (select_bid E (db_policy (db s)) m rows) (\<lambda>pl. retP (Some pl))))) s3"
    have "wp G (bindP (select_bid E (db_policy (db s)) m (db_sessions (db s3))) (\<lambda>pl. retP (Some pl)))
        (\<lambda>r s'. \<forall>pl. r = Inr (Some pl) \<longrightarrow> planned T pl s') s3"
      if c: "\<not> (\<exists>r \<in> set (db_sessions (db s3)). sstate r \<in> {Opening, Open_unknown})"
        "wallet_blocked (db s3) None = None" "\<not> pool_full (db_policy (db s)) m (db_sessions (db s3))"
    proof -
      have "traced T (bindP (select_bid E (db_policy (db s)) m (db_sessions (db s3))) (\<lambda>pl. retP (Some pl))) s3"
        using tr c unfolding traced_wp require_clear_wallet_def by (simp del: wp_bind add: wp_get_bind wp_then)
      then have "traced T (select_bid E (db_policy (db s)) m (db_sessions (db s3))) s3"
        unfolding traced_wp wp_bind by (rule wp_mono) auto
      from select_bid_plans [OF rely G g HOL.refl c(2) HOL.refl c(3) this]
      show ?thesis unfolding wp_bind by (rule wp_mono) (auto split: sum.splits)
    qed
    then show ?thesis unfolding wp_get_bind
      by (intro wp_ifI wp_clear_wallet) auto
  qed
  done

section \<open>Submission\<close>

text \<open>What holds whenever an opener submits; no other wallet call is made.\<close>

definition open_guard :: "(call \<times> gw) set \<Rightarrow> call \<Rightarrow> gw \<Rightarrow> bool" where
  "open_guard T c u =
    (wallet_call c \<longrightarrow>
      (\<exists>pl i now row. c = Post_open (pl_bid pl) (duration_seconds (pl_model pl)) (pl_limit pl) i \<and>
         planned T pl u \<and> row = opening_row i now pl \<and> get_session (db u) i = Some row))"

lemma planned_frame:
  "planned T pl s \<Longrightarrow> db_policy (db t) = db_policy (db s) \<Longrightarrow> maintenance t = maintenance s \<Longrightarrow> planned T pl t"
  unfolding planned_def policy_grows_def by metis

lemma wp_reads: "stays anything background_call p \<Longrightarrow> wp (open_guard T) p (\<lambda>_ _. True) s"
  by (erule any.use) (simp_all add: open_guard_def)

lemma open_guardI:
  "planned T pl u \<Longrightarrow> get_session (db u) i = Some (opening_row i now pl) \<Longrightarrow>
    open_guard T (Post_open (pl_bid pl) (duration_seconds (pl_model pl)) (pl_limit pl) i) u"
  unfolding open_guard_def by blast

lemma opening_row_simps [simp]:
  "sid (opening_row i now pl) = i" "row_bid (opening_row i now pl) = pl_bid pl"
  "row_provider (opening_row i now pl) = pl_provider pl" "sstate (opening_row i now pl) = Opening"
  "stake_wei (opening_row i now pl) = dec (pl_limit pl)"
  by (simp_all add: opening_row_def)

text \<open>After the submission of an attempt only reads follow.\<close>

lemma submit_open_guard:
  assumes "planned T pl s"
  shows "wp (open_guard T) (submit_open E again pl) (\<lambda>_ _. True) s"
proof -
  have rest: "wp (open_guard T) (opened_on_chain E again pl row r c) (\<lambda>_ _. True) u"
    "wp (open_guard T) (open_failed E again row e) (\<lambda>_ _. True) u" for row r c e u
    by (intro wp_reads any.on_chain any.open_failure rely_anything)+
  have frame: "planned T pl (s\<lparr>uuids := n, db := db_event j (clock s) a (put_session row (db s))\<rparr>)" for n j a row
    using assms by (rule planned_frame) simp_all
  show ?thesis
    unfolding submit_open_def node_open_def node_request_def
    by (auto simp: Let_def rest frame split: sum.splits intro!: open_guardI [where now = "clock s"])
qed

lemma open_attempts_guard:
  assumes "rely E policy_grows"
  shows "traced T (open_attempts E i n) s \<Longrightarrow> wp (open_guard T) (open_attempts E i n) (\<lambda>_ _. True) s"
proof (induction n arbitrary: s)
  case (Suc n)
  let ?k = "\<lambda>p. case p of None \<Rightarrow> retP None | Some pl \<Rightarrow> bindP (submit_open E (0 < n) pl) (\<lambda>a.
        case a of Again \<Rightarrow> open_attempts E i n | Opened r \<Rightarrow> retP r)"
  have T: "wp (\<lambda>c u. (c, u) \<in> T) (preflight E i) (\<lambda>r s'. \<forall>x. r = Inr x \<longrightarrow> traced T (?k x) s') s"
    using Suc.prems unfolding open_attempts.simps traced_bind .
  then have "traced T (preflight E i) s"
    unfolding traced_wp by (rule wp_mono) auto
  then have "wp (open_guard T) (preflight E i) (\<lambda>r s'. \<forall>pl. r = Inr (Some pl) \<longrightarrow> planned T pl s') s"
    by (intro preflight_plans [OF assms]) (simp_all add: open_guard_def)
  from wp_conj [OF this T] show ?case unfolding open_attempts.simps wp_bind
  proof (rule wp_mono)
    fix r s' assume r: "(\<forall>pl. r = Inr (Some pl) \<longrightarrow> planned T pl s') \<and> (\<forall>x. r = Inr x \<longrightarrow> traced T (?k x) s')"
    have "wp (open_guard T) (?k (Some pl)) (\<lambda>_ _. True) s'" if "planned T pl s'" "traced T (?k (Some pl)) s'" for pl
    proof -
      have "wp (\<lambda>c u. (c, u) \<in> T) (submit_open E (0 < n) pl) (\<lambda>r s'. \<forall>x. r = Inr x \<longrightarrow>
          traced T (case x of Again \<Rightarrow> open_attempts E i n | Opened r \<Rightarrow> retP r) s') s'"
        using that(2) by (simp add: traced_bind)
      from wp_conj [OF submit_open_guard [OF that(1)] this] show ?thesis
        unfolding option.case wp_bind
        by (rule wp_mono) (auto simp: Suc.IH split: sum.splits attempt.splits)
    qed
    with r have "wp (open_guard T) (?k p) (\<lambda>_ _. True) s'" if "r = Inr p" for p
      using that by (cases p) auto
    then show "case r of Inl e \<Rightarrow> True | Inr p \<Rightarrow> wp (open_guard T) (?k p) (\<lambda>_ _. True) s'"
      by (cases r) simp_all
  qed (simp add: open_guard_def)
qed simp


lemma calls_bind:
  "result p s = Inr x \<Longrightarrow> set (calls (f x) (final p s)) \<subseteq> set (calls (bindP p f) s)"
  by (auto simp: run_defs bindP_def split: prod.splits)

lemma calls_bind_left: "set (calls p s) \<subseteq> set (calls (bindP p f) s)"
  by (auto simp: run_defs bindP_def split: prod.splits sum.splits)

lemma submit_open_calls:
  "\<exists>u. (Post_open (pl_bid pl) (duration_seconds (pl_model pl)) (pl_limit pl) (uuid E (uuids s)), u)
     \<in> set (calls (submit_open E again pl) s)"
  by (auto simp: run_defs submit_open_def bindP_def thenP_def tryP_def uuidP_def getP_def saveP_def eventP_def
      modP_def node_open_def node_request_def callP_def Let_def split: prod.splits sum.splits)

lemma open_session_calls:
  assumes "respond E Await_lock s = (Task_done, s')" and "result (preflight E i) (s'\<lparr>locked := True\<rparr>) = Inr (Some pl)"
  shows "\<exists>j u. (Post_open (pl_bid pl) (duration_seconds (pl_model pl)) (pl_limit pl) j, u)
     \<in> set (calls (open_session E i) s)"
proof -
  let ?s = "s'\<lparr>locked := True\<rparr>"
  obtain u j where "(Post_open (pl_bid pl) (duration_seconds (pl_model pl)) (pl_limit pl) j, u)
      \<in> set (calls (submit_open E True pl) (final (preflight E i) ?s))"
    using submit_open_calls by blast
  then have "(Post_open (pl_bid pl) (duration_seconds (pl_model pl)) (pl_limit pl) j, u)
      \<in> set (calls (open_attempts E i 3) ?s)"
    using calls_bind [OF assms(2), where f = "\<lambda>p. case p of None \<Rightarrow> retP None
        | Some pl \<Rightarrow> bindP (submit_open E (0 < (2::nat)) pl) (\<lambda>a.
          case a of Again \<Rightarrow> open_attempts E i 2 | Opened r \<Rightarrow> retP r)"] calls_bind_left
    unfolding eval_nat_numeral open_attempts.simps by fastforce
  moreover have "calls (open_session E i) s = (Await_lock, s) # calls (open_attempts E i 3) ?s"
    using assms(1) by (simp add: run_defs open_session_def lockedP_def bindP_def thenP_def callP_def modP_def
        finallyP_def split: prod.splits)
  ultimately show ?thesis by auto
qed

text \<open>
  C1. Every wallet transaction a background opener submits is an opening that the journal already
  holds: its row is stored as opening, with the binding stake limit as its stake. At the
  submission the policy in force permits it (not paused, no maintenance, the provider allowed),
  and the limit is positive and within the per-session cap; together with the stakes of all
  sessions stored when the opener asked for the rated bids it is within the total cap, and no
  wallet transaction was pending then. The others may do anything meanwhile except save a policy
  without raising its revision.
\<close>

theorem open_spends_within_policy:
  assumes "rely E policy_grows"
    and "(c, u) \<in> set (calls (open_session E i) s)" and "wallet_call c"
  shows "\<exists>m bid lim k row t tracked. c = Post_open bid (duration_seconds m) lim k \<and>
     get_session (db u) k = Some row \<and> sstate row = Opening \<and> chain_id row = None \<and>
     row_bid row = bid \<and> row_model row = model_id m \<and> stake_wei row = dec lim \<and>
     \<not> paused (db_policy (db u)) \<and> \<not> maintenance u \<and> permits (providers (db_policy (db u))) (row_provider row) \<and>
     0 < lim \<and> lim \<le> max_session_stake_wei (budget (db_policy (db u))) \<and>
     (Get_rated_bids (model_id m), t) \<in> set (calls (open_session E i) s) \<and>
     wallet_blocked (db t) None = None \<and> \<not> pool_full (db_policy (db u)) m (db_sessions (db t)) \<and>
     sum_stakes (db_sessions (db t)) = Inr tracked \<and>
     lim + tracked \<le> max_total_stake_wei (budget (db_policy (db u)))"
proof -
  let ?T = "set (calls (open_session E i) s)"
  have "traced ?T (open_session E i) s" by (simp add: traced_def)
  then have "wp (open_guard ?T) (open_session E i) (\<lambda>_ _. True) s"
    using open_attempts_guard [OF assms(1)]
    unfolding open_session_def lockedP_def traced_wp by (auto simp: open_guard_def)
  then have "open_guard ?T c u"
    using assms(2) by (rule wp_calls)
  with assms(3) show ?thesis
    unfolding open_guard_def planned_def by (fastforce simp: opening_row_def)
qed

definition the_plan :: plan where
  "the_plan = \<lparr>pl_policy = scenario_policy, pl_model = sample_model (CHR ''a'') ''fast'', pl_bid = the_bid,
     pl_provider = the_provider, pl_estimate = 2, pl_limit = 50\<rparr>"

lemma rely_scenario: "interference R \<Longrightarrow> rely (scenario_env ct) R"
  by (simp add: rely_def scenario_env_def interference_def state_interference.refl)

theorem open_spends_within_policy_witness:
  "\<exists>j u row. (Post_open the_bid 1800 50 j, u) \<in> set (calls (open_session (scenario_env 0) ''fast'') (scenario_state [])) \<and>
     get_session (db u) j = Some row \<and> stake_wei row = dec 50"
proof -
  let ?E = "scenario_env 0" and ?s = "scenario_state []"
  have "result (preflight ?E ''fast'') (?s\<lparr>locked := True\<rparr>) = Inr (Some the_plan)" by code_simp
  moreover have "respond ?E Await_lock ?s = (Task_done, ?s)" by (simp add: scenario_env_def)
  ultimately obtain j u where c: "(Post_open the_bid 1800 50 j, u) \<in> set (calls (open_session ?E ''fast'') ?s)"
    using open_session_calls [of ?E ?s ?s "''fast''" the_plan] by (auto simp: the_plan_def sample_model_def)
  have "rely ?E policy_grows" by (intro rely_scenario, unfold_locales)
  from open_spends_within_policy [OF this c] c show ?thesis by fastforce
qed


section \<open>Every submitted opening is accounted for\<close>

text \<open>Only an answer to an opening is classified as declined, and then nothing was submitted.\<close>

lemma declined_not_submitted: "classify c r = Inl (Gateway g) \<Longrightarrow> code g = ''provider_declined'' \<Longrightarrow> outcome g = Not_submitted"
  by (cases "(c, r)" rule: classify.cases)
    (auto simp: rejected_def Let_def err_status_def gateway_error_def split: if_splits json.splits)

lemma read_not_declined: "background_call c \<Longrightarrow> classify c r = Inl (Gateway g) \<Longrightarrow> code g \<noteq> ''provider_declined''"
  by (cases c; cases r) (auto simp: rejected_def Let_def err_status_def gateway_error_def split: if_splits)

text \<open>What the stored row says about an attempt, by how the attempt ended.\<close>

fun accounted :: "exn + attempt \<Rightarrow> srow \<Rightarrow> bool" where
  "accounted (Inr (Opened (Some r))) row = (row = r \<and> sstate row \<in> {Open, Closed} \<and> (\<exists>c. chain_id row = Some c \<and> HASH c))"
| "accounted (Inr (Opened None)) row = False"
| "accounted (Inr Again) row = (sstate row = Failed)"
| "accounted (Inl (Gateway g)) row =
    (if code g = ''policy_changed'' \<and> sstate row = Draining then (\<exists>c. chain_id row = Some c)
     else sstate row = (if outcome g = Not_submitted then Failed else Open_unknown))"
| "accounted (Inl _) row = (sstate row = Open_unknown)"

definition accounts :: "string \<Rightarrow> exn + attempt \<Rightarrow> gw \<Rightarrow> bool" where
  "accounts i r s = (\<exists>row. get_session (db s) i = Some row \<and> accounted r row)"

lemma open_failed_accounts:
  assumes "sid row = i" and "\<And>g. e = Gateway g \<Longrightarrow> code g = ''provider_declined'' \<Longrightarrow> outcome g = Not_submitted"
  shows "wp (\<lambda>_ _. True) (open_failed E again row e) (accounts i) s"
proof (cases e)
  case (Gateway g)
  have row: "sstate (error_row t x (failed_row g row)) = (if outcome g = Not_submitted then Failed else Open_unknown)"
    "sid (error_row t x (failed_row g row)) = i" "sid (failed_row g row) = i" for t x
    using assms(1) by (simp_all add: error_row_def failed_row_def)
  show ?thesis using Gateway assms(2) [OF Gateway] row
    by (auto simp: open_failed_def mark_error_def cool_provider_def accounts_def Let_def)
qed (use assms(1) in \<open>auto simp: open_failed_def accounts_def\<close>)

lemma validate_truth_code: "validate_truth x row j = Inl (Gateway g) \<Longrightarrow> code g = ''session_mismatch''"
  by (auto simp: validate_truth_def err_def gateway_error_def simp del: nonneg_members.simps
      split: option.splits if_splits sum.splits list.splits pyexc.splits)

lemma read_session_errors:
  "wp (\<lambda>_ _. True) (bindP (node_session E c) (check_truth row))
     (\<lambda>r _. \<forall>g. r = Inl (Gateway g) \<longrightarrow> code g \<noteq> ''provider_declined'') s"
proof -
  have "code g \<noteq> ''provider_declined''" if "validate_truth x row j = Inl (Gateway g)" for x j g
    using validate_truth_code [OF that] by simp
  moreover have "code g \<noteq> ''provider_declined''" if "object_response j = Inl (Gateway g)" for j g
    using that by (auto simp: object_response_def err_status_def gateway_error_def split: if_splits)
  moreover have "code g \<noteq> ''provider_declined''" if "classify (Get_session c) r = Inl (Gateway g)" for r g
    using read_not_declined [OF _ that] by simp
  ultimately show ?thesis
    by (auto simp: node_session_def node_request_def check_truth_def split: sum.splits)
qed

lemma adopt_accounts:
  "chain_id row = Some c \<Longrightarrow> HASH c \<Longrightarrow> sstate row \<in> {Open, Closed} \<Longrightarrow> sid row = i \<Longrightarrow>
    wp (\<lambda>_ _. True) (adopt_opened pl row) (accounts i) s"
  by (auto simp: adopt_opened_def accounts_def err_def gateway_error_def)

lemma opened_accounts:
  assumes "HASH (lower c)" and "sid row = i"
  shows "wp (\<lambda>_ _. True) (opened_on_chain E again pl row r c) (accounts i) s"
proof -
  let ?row = "\<lambda>t. row\<lparr>chain_id := Some (lower c), transactions := t\<rparr>"
  have "wp (\<lambda>_ _. True) (tryP (bindP (node_session E c) (check_truth (?row t))) (open_failed E again (?row t))
      (\<lambda>tr. adopt_opened pl (verified_row tr (?row t)))) (accounts i) u" for t u
    unfolding wp_try
    by (rule wp_mono [OF read_session_errors])
      (auto split: sum.splits intro!: open_failed_accounts adopt_accounts [where c = "lower c"]
        simp: assms verified_row_def)
  moreover have "wp (\<lambda>_ _. True) (open_failed E again (row\<lparr>chain_id := Some (lower c)\<rparr>) (Python x)) (accounts i) u" for x u
    by (rule open_failed_accounts) (simp_all add: assms)
  ultimately show ?thesis
    unfolding opened_on_chain_def Let_def
    by (subst wp_try, cases "result_transactions r") (simp_all del: wp_try)
qed


end
