(* ===== verification/SessionLease.thy ===== *)
theory SessionLease
  imports SessionOpen
begin

text \<open>
  gateway/sessions.py: leasing an open session to a request (\<open>acquire\<close>), with the hot path over the
  stored rows, the wait for a background opener and the error handlers. The lemmas show what a
  caller may rely on when it is given a session, and that reservations are neither leaked nor lost.
\<close>

section \<open>Leasing a hot session\<close>

definition discard_active :: "string \<Rightarrow> unit prog" where
  "discard_active i = modP (\<lambda>s. s\<lparr>active := active s - {i}\<rparr>)"

definition fatal_codes :: "string set" where
  "fatal_codes = {''policy_changed'', ''node_identity_changed'', ''unsupported_node'', ''node_guard_missing''}"

definition lease_refused :: "string \<Rightarrow> string \<Rightarrow> gw \<Rightarrow> bool" where
  "lease_refused i provider s =
    (let current = db_policy (db s)
     in paused current \<or> maintenance s \<or> resolve current i = None \<or> \<not> permits (providers current) provider)"

text \<open>The row was verified on chain and is still open in the database.\<close>

definition lease :: "env \<Rightarrow> string \<Rightarrow> bool \<Rightarrow> srow \<Rightarrow> truth \<Rightarrow> srow option prog" where
  "lease E i prewarm row t =
    bindP (getP clock) (\<lambda>now.
    if t_closed t \<noteq> 0
    then thenP (saveP (row\<lparr>sstate := Closed\<rparr>)) (thenP (discard_active (sid row)) (retP None))
    else if of_int (t_ends t) \<le> now + request_timeout (cfg E) + 15
    then (let row' = row\<lparr>sstate := Draining, close_reason := Some Near_expiry\<rparr>
          in thenP (saveP row') (thenP (discard_active (sid row)) (thenP (schedule_close row') (retP None))))
    else bindP (getP (lease_refused i (row_provider row))) (\<lambda>refused.
      if refused then thenP (discard_active (sid row)) (raiseP (err ''policy_changed''))
      else (let row' = row\<lparr>last_used := now, ends_at := t_ends t, row_error := None\<rparr>
        in thenP (saveP row') (thenP (whenP prewarm (discard_active (sid row))) (retP (Some row'))))))"

text \<open>The error handlers around the verification of a reserved row.\<close>

definition lease_failed :: "env \<Rightarrow> srow \<Rightarrow> exn \<Rightarrow> srow option prog" where
  "lease_failed E row e =
    thenP (discard_active (sid row))
    (case e of
       Gateway g \<Rightarrow> if code g \<in> fatal_codes then raiseP e
         else bindP (mark_error E (row\<lparr>sstate := Quarantined\<rparr>) e) (\<lambda>_. retP None)
     | _ \<Rightarrow> raiseP e)"

definition try_hot :: "env \<Rightarrow> string \<Rightarrow> bool \<Rightarrow> srow \<Rightarrow> srow option prog" where
  "try_hot E i prewarm row =
    thenP (modP (\<lambda>s. s\<lparr>active := insert (sid row) (active s)\<rparr>))
    (tryP (bindP (verify_identity E) (\<lambda>_.
            bindP (node_session E (case chain_id row of None \<Rightarrow> ''None'' | Some c \<Rightarrow> c)) (check_truth row)))
       (lease_failed E row)
       (\<lambda>t. bindP (getP (\<lambda>s. get_session (db s) (sid row))) (\<lambda>latest.
          case latest of
            None \<Rightarrow> thenP (discard_active (sid row)) (retP None)
          | Some r \<Rightarrow> if sstate r \<noteq> Open then thenP (discard_active (sid row)) (retP None)
              else lease E i prewarm r t)))"

fun hot_scan :: "env \<Rightarrow> string \<Rightarrow> bool \<Rightarrow> srow list \<Rightarrow> srow option prog" where
  "hot_scan E i prewarm [] = retP None"
| "hot_scan E i prewarm (row # rows) =
    bindP (getP (\<lambda>s. row_model row \<noteq> i \<or> sstate row \<noteq> Open \<or> sid row \<in> active s)) (\<lambda>skip.
    if skip then hot_scan E i prewarm rows
    else bindP (try_hot E i prewarm row) (\<lambda>got.
      case got of Some r \<Rightarrow> retP (Some r) | None \<Rightarrow> hot_scan E i prewarm rows))"

section \<open>Waiting for an opener\<close>

text \<open>\<open>await asyncio.wait_for(asyncio.shield(task), ...)\<close> with its handlers and final block.\<close>

definition pop_done :: "string \<Rightarrow> nat \<Rightarrow> gw \<Rightarrow> gw" where
  "pop_done i task s = (if task \<in> done_tasks s then opener_finished i task s else s)"

definition await_opener :: "env \<Rightarrow> string \<Rightarrow> nat \<Rightarrow> time \<Rightarrow> unit prog" where
  "await_opener E i task opening_deadline =
    finallyP
      (bindP (getP (\<lambda>s. max 0 (opening_deadline - mono s))) (\<lambda>limit.
       bindP (callP E (Await_opening i task limit)) (\<lambda>r.
       case r of
         Task_timeout \<Rightarrow> raiseP (err ''opening_pending'')
       | Task_error (Gateway g) \<Rightarrow>
           bindP (getP (can_wait_for_hot (cfg E) i g)) (\<lambda>wait. if wait then retP () else raiseP (Gateway g))
       | Task_error e \<Rightarrow> raiseP e
       | _ \<Rightarrow> retP ())))
      (pop_done i task)"

text \<open>After the hot path found nothing: fail, join or start an opener, or wait for a lease.\<close>

definition may_start :: "string \<Rightarrow> model_policy \<Rightarrow> time \<Rightarrow> gw \<Rightarrow> bool" where
  "may_start i m deadline s =
    (openers s i = None \<and> opening_error i s = None \<and> mono s < deadline \<and>
     \<not> pool_full (db_policy (db s)) m (db_sessions (db s)))"

definition cold_path :: "env \<Rightarrow> model_policy \<Rightarrow> time \<Rightarrow> time \<Rightarrow> unit prog" where
  "cold_path E m deadline opening_deadline =
    (let i = model_id m in
     bindP (getP (\<lambda>s. \<exists>r \<in> set (db_sessions (db s)). sstate r = Open_unknown)) (\<lambda>uncertain.
     if uncertain then raiseP (err ''open_unknown'')
     else bindP (getP (\<lambda>s. (openers s i, opening_error i s))) (\<lambda>(task, failure).
     bindP (getP (\<lambda>s. case failure of None \<Rightarrow> False | Some g \<Rightarrow> task = None \<and> \<not> can_wait_for_hot (cfg E) i g s)) (\<lambda>fail.
     if fail then raiseP (Gateway (the failure))
     else bindP (getP (may_start i m deadline)) (\<lambda>start.
     bindP (if start then bindP (start_open i) (\<lambda>t. retP (Some t)) else retP task) (\<lambda>waiting_for.
     case waiting_for of
       Some t \<Rightarrow> thenP (await_opener E i t opening_deadline) (bindP (callP E (Sleep 0)) (\<lambda>_. retP ()))
     | None \<Rightarrow> bindP (getP mono) (\<lambda>now.
         if deadline \<le> now then raiseP (err_status ''pool_busy'' 429)
         else bindP (callP E (Sleep (1/20))) (\<lambda>_. retP ()))))))))"

text \<open>
  The loop of \<open>acquire\<close>. It runs until a lease is found or an error is raised; the first
  argument bounds the number of rounds, and None is a request that is still waiting after them.
\<close>

fun acquire_rounds :: "nat \<Rightarrow> env \<Rightarrow> string \<Rightarrow> bool \<Rightarrow> time \<Rightarrow> time \<Rightarrow> srow option prog" where
  "acquire_rounds 0 E i prewarm deadline opening_deadline = retP None"
| "acquire_rounds (Suc n) E i prewarm deadline opening_deadline =
    bindP (getP (\<lambda>s. maintenance s \<or> paused (db_policy (db s)))) (\<lambda>stop.
    if stop then raiseP (err ''paused'')
    else bindP (sessions_model i) (\<lambda>m.
    thenP rebalance
    (bindP (getP (\<lambda>s. db_sessions (db s))) (\<lambda>rows.
    bindP (hot_scan E (model_id m) prewarm rows) (\<lambda>got.
    case got of
      Some r \<Rightarrow> retP (Some r)
    | None \<Rightarrow> thenP (cold_path E m deadline opening_deadline)
        (acquire_rounds n E i prewarm deadline opening_deadline))))))"

definition acquire :: "nat \<Rightarrow> env \<Rightarrow> string \<Rightarrow> bool \<Rightarrow> srow option prog" where
  "acquire rounds E i prewarm =
    bindP (getP (\<lambda>s. (paused (db_policy (db s)) \<or> maintenance s, waiting s))) (\<lambda>(stop, w).
    if stop then raiseP (err ''paused'')
    else if 64 \<le> w then raiseP (err_status ''queue_full'' 429)
    else thenP (modP (\<lambda>s. s\<lparr>waiting := waiting s + 1\<rparr>))
      (bindP (getP (\<lambda>s. (mono s + of_int (queue_seconds (db_policy (db s))), mono s + acquisition_timeout (cfg E))))
        (\<lambda>(deadline, opening_deadline).
         finallyP (acquire_rounds rounds E i prewarm deadline opening_deadline)
           (\<lambda>s. s\<lparr>waiting := waiting s - 1\<rparr>))))"

section \<open>What a lease guarantees\<close>

context quiet_interference
begin

lemma starting: "stays R C (start_open i)"
  unfolding start_open_def by (intro local_rules local) simp

lemma joining: "rely E R \<Longrightarrow> stays R background_call (await_opener E i t d)"
  unfolding await_opener_def
  by (intro cleanup seq pure await) (auto simp: pop_done_def opener_finished_def
      intro!: rules quiet split: reply.splits exn.splits)

lemma cold: "rely E R \<Longrightarrow> stays R background_call (cold_path E m d od)"
  unfolding cold_path_def Let_def case_prod_beta
  by (intro local_rules starting joining await) simp_all

end

text \<open>Relations that do not look at the leases either: leasing itself stays within them.\<close>

locale lease_interference = frame_interference +
  assumes leases: "db_policy (db t) = db_policy (db s) \<Longrightarrow> locked t = locked s \<Longrightarrow> (db_wf (db s) \<Longrightarrow> db_wf (db t)) \<Longrightarrow> R s t"
begin

lemma lease_step: "(\<And>s. db_policy (db (f s)) = db_policy (db s) \<and> locked (f s) = locked s \<and>
    (db_wf (db s) \<longrightarrow> db_wf (db (f s)))) \<Longrightarrow> stays R C (modP f)"
  by (rule update) (simp add: leases)

lemma discard: "stays R C (discard_active i)"
  unfolding discard_active_def by (rule lease_step) simp

lemma leasing: "stays R C (lease E i prewarm row t)"
  unfolding lease_def Let_def by (intro local_rules discard schedule)

lemma leasing_failed: "stays R C (lease_failed E row e)"
  unfolding lease_failed_def by (intro local_rules discard mark)

lemma hot: "rely E R \<Longrightarrow> stays R background_call (hot_scan E i prewarm rows)"
  by (induction rows)
    (auto simp: try_hot_def intro!: local_rules lease_step verify session check leasing leasing_failed discard)

lemma rounds: "rely E R \<Longrightarrow> stays R background_call (acquire_rounds n E i prewarm d od)"
  by (induction n) (auto intro!: local_rules lookup balance_pool hot cold)

lemma acquiring: "rely E R \<Longrightarrow> stays R background_call (acquire n E i prewarm)"
  unfolding acquire_def case_prod_beta by (intro local_rules lease_step rounds) (simp_all add: leases)

lemma releasing: "stays R C (release row)"
  unfolding release_def case_prod_beta Let_def by (intro local_rules lease_step schedule) simp

end

text \<open>
  The interference of the whole process: the policy may be saved with a new revision, and the table
  changed in any way that keeps its types. Every operation respects it.
\<close>

locale process_interference = lease_interference +
  assumes process: "policy_grows s t \<Longrightarrow> (db_wf (db s) \<Longrightarrow> db_wf (db t)) \<Longrightarrow> R s t"
begin

lemma process_step: "(\<And>s. policy_grows s (f s) \<and> (db_wf (db s) \<longrightarrow> db_wf (db (f s)))) \<Longrightarrow> stays R C (modP f)"
  by (rule update) (simp add: process)

lemma work: "db_policy (db t) = db_policy (db s) \<Longrightarrow> (db_wf (db s) \<Longrightarrow> db_wf (db t)) \<Longrightarrow> R s t"
  by (rule process) (simp_all add: policy_grows_def)

lemma work_step: "(\<And>s. db_policy (db (f s)) = db_policy (db s) \<and> (db_wf (db s) \<longrightarrow> db_wf (db (f s)))) \<Longrightarrow>
    stays R C (modP f)"
  by (rule update) (simp add: work)

end

text \<open>Instances; \<open>keeps_wf\<close> is the one that keeps the table well formed.\<close>

definition keeps_wf :: "gw \<Rightarrow> gw \<Rightarrow> bool" where
  "keeps_wf s t = (db_wf (db s) \<longrightarrow> db_wf (db t))"

interpretation any: process_interference anything
  by unfold_locales (simp_all add: anything_def)

interpretation lock: lease_interference keeps_lock
  by unfold_locales (simp_all add: keeps_lock_def)

interpretation policy: process_interference policy_grows
  by unfold_locales (simp_all add: policy_grows_def)

interpretation wf: process_interference keeps_wf
  by unfold_locales (auto simp: keeps_wf_def)

text \<open>What a caller may rely on when it is given a session.\<close>

definition leased :: "env \<Rightarrow> srow \<Rightarrow> gw \<Rightarrow> bool" where
  "leased E r s =
    (get_session (db s) (sid r) = Some r \<and> sstate r = Open \<and> last_used r = clock s \<and>
     clock s + request_timeout (cfg E) + 15 < of_int (ends_at r) \<and>
     \<not> paused (db_policy (db s)) \<and> \<not> maintenance s \<and>
     permits (providers (db_policy (db s))) (row_provider r))"

abbreviation leases :: "env \<Rightarrow> srow option prog \<Rightarrow> gw \<Rightarrow> bool" where
  "leases E p s \<equiv> wp (\<lambda>_ _. True) p (\<lambda>r s'. \<forall>x. r = Inr (Some x) \<longrightarrow> leased E x s') s"

lemma lease_leases: "sstate row = Open \<Longrightarrow> leases E (lease E i prewarm row t) s"
  by (auto simp: lease_def lease_refused_def leased_def schedule_close_def discard_active_def Let_def not_le)

lemma lease_failed_leases: "leases E (lease_failed E row e) s"
  by (cases e) (auto simp: lease_failed_def discard_active_def mark_error_def Let_def)

lemma try_hot_leases: "leases E (try_hot E i prewarm row) s"
  unfolding try_hot_def wp_then wp_mod sum.case wp_try [of _ "bindP (verify_identity E) _"]
  by (rule wp_any) (auto simp: lease_failed_leases discard_active_def intro!: lease_leases split: sum.splits option.splits)

lemma hot_scan_leases: "leases E (hot_scan E i prewarm rows) s"
proof (induction rows arbitrary: s)
  case (Cons row rows)
  have "leases E (bindP (try_hot E i prewarm row)
      (\<lambda>got. case got of None \<Rightarrow> hot_scan E i prewarm rows | Some r \<Rightarrow> retP (Some r))) s"
    unfolding wp_bind by (rule wp_mono [OF try_hot_leases]) (auto simp: Cons.IH split: sum.splits option.splits)
  then show ?case using Cons.IH by (simp del: wp_bind add: wp_get_bind)
qed simp

lemma acquire_rounds_leases: "leases E (acquire_rounds n E i prewarm d od) s"
proof (induction n arbitrary: s)
  case (Suc n)
  have cold: "leases E (thenP (cold_path E m d od) (acquire_rounds n E i prewarm d od)) u" for m u
    unfolding wp_then by (rule wp_any) (auto simp: Suc.IH split: sum.splits)
  have hot: "leases E (bindP (hot_scan E (model_id m) prewarm rows) (\<lambda>got. case got of
      Some r \<Rightarrow> retP (Some r) | None \<Rightarrow> thenP (cold_path E m d od) (acquire_rounds n E i prewarm d od))) u" for m rows u
    unfolding wp_bind by (rule wp_mono [OF hot_scan_leases]) (auto simp: cold simp del: wp_then split: sum.splits option.splits)
  show ?case unfolding acquire_rounds.simps wp_get_bind
    apply (rule wp_ifI, simp)
    unfolding wp_bind [of _ "sessions_model i"] wp_then
    by (rule wp_any, split sum.split, simp del: wp_bind, intro allI impI, rule wp_any)
      (auto simp: hot wp_get_bind simp del: wp_bind split: sum.splits)
qed simp

text \<open>
  C10. A session that \<open>acquire\<close> hands to a request is stored as open, was just marked as used,
  outlives the request's time limit by more than 15 seconds, and at that moment the policy
  neither pauses the gateway nor excludes the provider. This holds whatever the node answers and
  whatever else runs meanwhile.
\<close>

theorem acquire_leases_valid_session:
  "result (acquire rounds E i prewarm) s = Inr (Some r) \<Longrightarrow> leased E r (final (acquire rounds E i prewarm) s)"
proof -
  have w: "leased E r (s\<lparr>waiting := n\<rparr>) = leased E r s" for r s n by (simp add: leased_def)
  have "leases E (acquire rounds E i prewarm) s"
    unfolding acquire_def by (auto simp: w acquire_rounds_leases)
  then show "result (acquire rounds E i prewarm) s = Inr (Some r) \<Longrightarrow> ?thesis" by (simp add: wp_def)
qed

definition hot_state :: gw where
  "hot_state = scenario_state [sample_row ''s1'' Open]"

definition hot_row :: srow where
  "hot_row = (sample_row ''s1'' Open)\<lparr>last_used := 2000\<rparr>"

lemma acquire_hot: "result (acquire 1 (scenario_env 0) ''FAST'' False) hot_state = Inr (Some hot_row)"
  by code_simp

theorem acquire_leases_valid_session_witness:
  "leased (scenario_env 0) hot_row (final (acquire 1 (scenario_env 0) ''FAST'' False) hot_state)"
  by (rule acquire_leases_valid_session [OF acquire_hot])

text \<open>The lease \<open>i\<close> through the parts of \<open>acquire\<close>, when the others leave it alone.\<close>

definition lease_exact :: "string \<Rightarrow> bool \<Rightarrow> gw \<Rightarrow> exn + srow option \<Rightarrow> gw \<Rightarrow> bool" where
  "lease_exact i prewarm s r s' =
    (db_wf (db s') \<and>
     (i \<in> active s' \<longleftrightarrow> i \<in> active s \<or> \<not> prewarm \<and> (\<exists>x. r = Inr (Some x) \<and> sid x = i)) \<and>
     ((\<exists>x. r = Inr (Some x) \<and> sid x = i) \<longrightarrow> i \<notin> active s))"

abbreviation exact :: "string \<Rightarrow> bool \<Rightarrow> srow option prog \<Rightarrow> gw \<Rightarrow> bool" where
  "exact i prewarm p s \<equiv> wp (\<lambda>_ _. True) p (lease_exact i prewarm s) s"

lemma lease_lease_exact:
  assumes "db_wf (db u)" and "sid row \<notin> active s" and "i \<in> active u \<longleftrightarrow> i \<in> insert (sid row) (active s)"
  shows "wp (\<lambda>_ _. True) (lease E m prewarm row t) (lease_exact i prewarm s) u"
  using assms by (auto simp: lease_def lease_exact_def schedule_close_def discard_active_def Let_def)

lemma lease_failed_exact:
  assumes "db_wf (db u)" and "sid row \<notin> active s" and "i \<in> active u \<longleftrightarrow> i \<in> insert (sid row) (active s)"
  shows "wp (\<lambda>_ _. True) (lease_failed E row e) (lease_exact i prewarm s) u"
  using assms by (cases e) (auto simp: lease_failed_def lease_exact_def discard_active_def mark_error_def Let_def)

lemma try_hot_exact:
  assumes rely: "rely E (keeps_active i)" and s: "db_wf (db s)" "sid row \<notin> active s"
  shows "exact i prewarm (try_hot E m prewarm row) s"
proof -
  let ?s = "s\<lparr>active := insert (sid row) (active s)\<rparr>"
  have reads: "stays (keeps_active i) background_call (bindP (verify_identity E) (\<lambda>_.
      bindP (node_session E (case chain_id row of None \<Rightarrow> ''None'' | Some c \<Rightarrow> c)) (check_truth row)))"
    by (intro lease.local_rules lease.verify lease.session lease.check rely)
  have next_step: "wp (\<lambda>_ _. True) (bindP (getP (\<lambda>s. get_session (db s) (sid row))) (\<lambda>latest.
          case latest of
            None \<Rightarrow> thenP (discard_active (sid row)) (retP None)
          | Some r \<Rightarrow> if sstate r \<noteq> Open then thenP (discard_active (sid row)) (retP None)
              else lease E m prewarm r t)) (lease_exact i prewarm s) u" if "keeps_active i ?s u" for t u
  proof -
    have u: "db_wf (db u)" "i \<in> active u \<longleftrightarrow> i \<in> insert (sid row) (active s)"
      using that s(1) by (auto simp: keeps_active_def)
    have drop_it: "wp (\<lambda>_ _. True) (thenP (discard_active (sid row)) (retP None)) (lease_exact i prewarm s) u"
      using u s(2) by (auto simp: discard_active_def lease_exact_def)
    show ?thesis
    proof (cases "get_session (db u) (sid row)")
      case (Some r)
      then have "sid r = sid row" using u(1) get_session_sid by blast
      then have "wp (\<lambda>_ _. True) (lease E m prewarm r t) (lease_exact i prewarm s) u"
        using u s(2) by (intro lease_lease_exact) simp_all
      then show ?thesis using drop_it Some by (simp del: wp_bind wp_then add: wp_get_bind)
    qed (use drop_it in \<open>simp del: wp_bind wp_then add: wp_get_bind\<close>)
  qed
  have failed: "wp (\<lambda>_ _. True) (lease_failed E row e) (lease_exact i prewarm s) u" if "keeps_active i ?s u" for e u
    using that s by (intro lease_failed_exact) (auto simp: keeps_active_def)
  show ?thesis unfolding try_hot_def wp_then wp_mod sum.case wp_try
  proof (rule lease.use [OF reads])
    fix r u assume "keeps_active i ?s u"
    then show "case r of Inl e \<Rightarrow> wp (\<lambda>_ _. True) (lease_failed E row e) (lease_exact i prewarm s) u
      | Inr t \<Rightarrow> wp (\<lambda>_ _. True) (bindP (getP (\<lambda>s. get_session (db s) (sid row))) (\<lambda>latest.
          case latest of
            None \<Rightarrow> thenP (discard_active (sid row)) (retP None)
          | Some r \<Rightarrow> if sstate r \<noteq> Open then thenP (discard_active (sid row)) (retP None)
              else lease E m prewarm r t)) (lease_exact i prewarm s) u"
      using failed next_step by (cases r) simp_all
  qed simp
qed

lemma lease_exact_trans: "i \<in> active t \<longleftrightarrow> i \<in> active s \<Longrightarrow> lease_exact i prewarm t = lease_exact i prewarm s"
  by (intro ext) (simp add: lease_exact_def)

lemma hot_scan_exact:
  assumes "rely E (keeps_active i)"
  shows "db_wf (db s) \<Longrightarrow> exact i prewarm (hot_scan E m prewarm rows) s"
proof (induction rows arbitrary: s)
  case (Cons row rows)
  have step: "exact i prewarm (bindP (try_hot E m prewarm row)
      (\<lambda>got. case got of None \<Rightarrow> hot_scan E m prewarm rows | Some r \<Rightarrow> retP (Some r))) s" if "sid row \<notin> active s"
    unfolding wp_bind
  proof (rule wp_mono [OF try_hot_exact [OF assms Cons.prems that]])
    fix r u assume r: "lease_exact i prewarm s r u"
    have "wp (\<lambda>_ _. True) (hot_scan E m prewarm rows) (lease_exact i prewarm s) u" if "r = Inr None"
    proof -
      have u: "db_wf (db u)" "i \<in> active u \<longleftrightarrow> i \<in> active s" using r that by (auto simp: lease_exact_def)
      show ?thesis using Cons.IH [OF u(1)] lease_exact_trans [OF u(2), of prewarm] by simp
    qed
    then show "case r of Inl e \<Rightarrow> lease_exact i prewarm s (Inl e) u
      | Inr got \<Rightarrow> wp (\<lambda>_ _. True) (case got of None \<Rightarrow> hot_scan E m prewarm rows | Some r \<Rightarrow> retP (Some r))
          (lease_exact i prewarm s) u"
      using r by (auto simp: lease_exact_def split: sum.splits option.splits)
  qed simp
  show ?case unfolding hot_scan.simps wp_get_bind using Cons.IH [OF Cons.prems] step by (intro wp_ifI) auto
qed (simp add: lease_exact_def)

lemma acquire_rounds_exact:
  assumes "rely E (keeps_active i)"
  shows "db_wf (db s) \<Longrightarrow> exact i prewarm (acquire_rounds n E a prewarm d od) s"
proof (induction n arbitrary: s)
  case (Suc n)
  have rest: "wp (\<lambda>_ _. True) (thenP (cold_path E m d od) (acquire_rounds n E a prewarm d od)) (lease_exact i prewarm s) u"
    if "db_wf (db u)" "i \<in> active u \<longleftrightarrow> i \<in> active s" for m u
    unfolding wp_then
  proof (rule lease.use [OF lease.cold [OF assms]])
    fix r t assume "keeps_active i u t"
    then have t: "db_wf (db t)" "i \<in> active t \<longleftrightarrow> i \<in> active s" using that by (auto simp: keeps_active_def)
    then show "case r of Inl e \<Rightarrow> lease_exact i prewarm s (Inl e) t
      | Inr _ \<Rightarrow> wp (\<lambda>_ _. True) (acquire_rounds n E a prewarm d od) (lease_exact i prewarm s) t"
      using Suc.IH [OF t(1)] lease_exact_trans [OF t(2), of prewarm]
      by (cases r) (simp_all add: lease_exact_def [of _ _ _ "Inl _"])
  qed simp
  have hot: "wp (\<lambda>_ _. True) (bindP (hot_scan E (model_id m) prewarm rows) (\<lambda>got. case got of
      Some r \<Rightarrow> retP (Some r) | None \<Rightarrow> thenP (cold_path E m d od) (acquire_rounds n E a prewarm d od)))
      (lease_exact i prewarm s) u" if u: "db_wf (db u)" "i \<in> active u \<longleftrightarrow> i \<in> active s" for m rows u
    unfolding wp_bind
  proof (rule wp_mono [OF hot_scan_exact [OF assms u(1)]])
    fix r t assume r: "lease_exact i prewarm u r t"
    have "wp (\<lambda>_ _. True) (thenP (cold_path E m d od) (acquire_rounds n E a prewarm d od)) (lease_exact i prewarm s) t"
      if "r = Inr None" using r u that by (intro rest) (auto simp: lease_exact_def)
    then show "case r of Inl e \<Rightarrow> lease_exact i prewarm s (Inl e) t
      | Inr got \<Rightarrow> wp (\<lambda>_ _. True) (case got of Some r \<Rightarrow> retP (Some r)
          | None \<Rightarrow> thenP (cold_path E m d od) (acquire_rounds n E a prewarm d od)) (lease_exact i prewarm s) t"
      using r u by (auto simp: lease_exact_def simp del: wp_then split: sum.splits option.splits)
  qed simp
  show ?case unfolding acquire_rounds.simps wp_get_bind
  proof (intro wp_ifI lease.use_bind [OF lease.lookup [where C = background_call]])
    fix m u assume u: "keeps_active i s u"
    show "wp (\<lambda>_ _. True) (thenP rebalance (bindP (getP (\<lambda>s. db_sessions (db s))) (\<lambda>rows.
        bindP (hot_scan E (model_id m) prewarm rows) (\<lambda>got. case got of Some r \<Rightarrow> retP (Some r)
          | None \<Rightarrow> thenP (cold_path E m d od) (acquire_rounds n E a prewarm d od))))) (lease_exact i prewarm s) u"
      unfolding thenP_def [of rebalance]
      by (rule lease.use_bind [OF lease.balance_pool [where C = background_call]], simp)
        (use u Suc.prems in \<open>auto simp: keeps_active_def lease_exact_def [of _ _ _ "Inl _"] wp_get_bind simp del: wp_bind intro!: hot\<close>)
  qed (use Suc.prems in \<open>auto simp: lease_exact_def keeps_active_def\<close>)
qed (simp add: lease_exact_def)

lemma acquire_exact:
  assumes "rely E (keeps_active j)" and "db_wf (db s)"
  shows "exact j prewarm (acquire rounds E i prewarm) s"
proof -
  have e: "lease_exact j p (u\<lparr>waiting := n\<rparr>) = lease_exact j p u"
    "lease_exact j p u r (t\<lparr>waiting := n\<rparr>) = lease_exact j p u r t" for p u r t n
    by (auto simp: lease_exact_def fun_eq_iff)
  show ?thesis
    unfolding acquire_def
    using acquire_rounds_exact [OF assms(1), of "s\<lparr>waiting := waiting s + 1\<rparr>"] assms(2)
    by (auto simp: e) (auto simp: lease_exact_def)
qed

text \<open>
  C11. Leases are neither leaked nor lost: for every session \<open>j\<close> that the other coroutines leave
  alone, \<open>j\<close> is reserved when \<open>acquire\<close> ends exactly if it was reserved before or \<open>acquire\<close>
  returned it as a lease (a prewarming call keeps none); on every error, timeout and
  cancellation the reservations are as before.
\<close>

theorem acquire_lease_exact:
  assumes "rely E (keeps_active j)" and "db_wf (db s)"
  shows "j \<in> active (final (acquire rounds E i prewarm) s) \<longleftrightarrow>
     j \<in> active s \<or> \<not> prewarm \<and> (\<exists>r. result (acquire rounds E i prewarm) s = Inr (Some r) \<and> sid r = j)"
  using acquire_exact [OF assms, of rounds i prewarm] by (simp add: wp_def lease_exact_def)

theorem acquire_lease_exact_witness:
  "''s1'' \<in> active (final (acquire 1 (scenario_env 0) ''FAST'' False) hot_state)"
proof -
  have "rely (scenario_env 0) (keeps_active ''s1'')" by (intro rely_scenario, unfold_locales)
  moreover have "db_wf (db hot_state)" by (simp add: hot_state_def)
  ultimately show ?thesis
    using acquire_lease_exact acquire_hot by (force simp: hot_row_def sample_row_def)
qed

text \<open>An operator's close request that arrives while the node is asked about the session, which fails.\<close>

definition close_during_lease :: env where
  "close_during_lease = (scenario_env 0)\<lparr>respond := (\<lambda>c s. case c of
     Get_session _ \<Rightarrow> (Unreachable, s\<lparr>db := put_session ((sample_row ''s1'' Open)
       \<lparr>sstate := Draining, close_reason := Some Close_requested\<rparr>) (db s)\<rparr>)
   | _ \<Rightarrow> (node_answer 0 c, s))\<rparr>"


end
