(* ===== verification/SessionClose.thy ===== *)
theory SessionClose
  imports SessionLease
begin

text \<open>
  gateway/sessions.py: closing sessions (\<open>_close\<close>, \<open>close\<close>) and binding an uncertain opening to the
  session found on chain (\<open>bind\<close>).
\<close>

section \<open>Closing\<close>

text \<open>The outer handler of \<open>_close\<close>, and the handlers around the submission with the outer one after them.\<close>

definition close_refused :: "env \<Rightarrow> srow \<Rightarrow> exn \<Rightarrow> 'a prog" where
  "close_refused E row e =
    (case e of Gateway g \<Rightarrow> bindP (mark_error E row e) (\<lambda>_. raiseP e) | _ \<Rightarrow> raiseP e)"

definition unclosed_row :: "gerror \<Rightarrow> srow \<Rightarrow> srow" where
  "unclosed_row g row = row\<lparr>sstate := (if outcome g = Not_submitted then Draining else Close_pending),
     close_transactions := txs g\<rparr>"

definition close_failed :: "env \<Rightarrow> srow \<Rightarrow> exn \<Rightarrow> 'a prog" where
  "close_failed E row e =
    (case e of
       Gateway g \<Rightarrow> bindP (mark_error E (unclosed_row g row) e) (\<lambda>r. close_refused E r e)
     | _ \<Rightarrow> thenP (saveP (row\<lparr>sstate := Close_pending\<rparr>)) (raiseP e))"

text \<open>The node has accepted the close: journal it, then ask whether the chain already shows it.\<close>

definition confirm_close :: "env \<Rightarrow> srow \<Rightarrow> string \<Rightarrow> srow prog" where
  "confirm_close E row c =
    thenP (saveP row)
      (tryP (bindP (node_session E c) (check_truth row)) (close_failed E row)
        (\<lambda>t. if t_closed t = 0 then retP row else record_closed E row t))"

definition submit_close :: "env \<Rightarrow> srow \<Rightarrow> string \<Rightarrow> srow prog" where
  "submit_close E row c =
    bindP (uuidP E) (\<lambda>i.
    let row1 = row\<lparr>sstate := Closing, close_operation_id := Some i\<rparr>
    in thenP (saveP row1)
      (tryP (node_close E c i) (close_failed E row1)
        (\<lambda>r. confirm_close E (row1\<lparr>close_tx := jget_null ''tx'' r, sstate := Close_pending\<rparr>) c)))"

text \<open>The session is open on chain: submit unless another wallet transaction is pending.\<close>

definition close_open :: "env \<Rightarrow> srow \<Rightarrow> string \<Rightarrow> truth \<Rightarrow> srow prog" where
  "close_open E row c t =
    (if t_closed t \<noteq> 0 then record_closed E row t
     else bindP (getP (\<lambda>s. wallet_blocked (db s) (Some (sid row)))) (\<lambda>b.
       case b of Some x \<Rightarrow> close_refused E row (err x) | None \<Rightarrow> submit_close E row c))"

text \<open>\<open>row.get("chain_id")\<close> is tested for truth: no identifier, or an empty one, is an uncertain opening.\<close>

definition has_chain_id :: "srow \<Rightarrow> bool" where
  "has_chain_id row = (chain_id row \<noteq> None \<and> chain_id row \<noteq> Some [])"

definition close_session :: "env \<Rightarrow> srow \<Rightarrow> srow prog" where
  "close_session E row =
    (if sstate row \<in> {Closed, Failed} then retP row
     else if sstate row \<in> {Closing, Close_pending} then retP row
     else bindP (getP (\<lambda>s. sid row \<in> active s)) (\<lambda>leased.
       if leased then (let row' = row\<lparr>sstate := Draining\<rparr> in thenP (saveP row') (retP row'))
       else if \<not> has_chain_id row then raiseP (err ''open_unknown'')
       else (let c = the (chain_id row)
         in tryP (bindP (node_session E c) (check_truth row)) (close_refused E row)
           (close_open E row c))))"

text \<open>Stop maintaining: the resolved model of the policy becomes on demand.\<close>

fun update_first :: "('a \<Rightarrow> bool) \<Rightarrow> ('a \<Rightarrow> 'a) \<Rightarrow> 'a list \<Rightarrow> 'a list" where
  "update_first P f [] = []"
| "update_first P f (x # xs) = (if P x then f x # xs else x # update_first P f xs)"

definition matches_model :: "string \<Rightarrow> model_policy \<Rightarrow> bool" where
  "matches_model i m = (enabled m \<and> (lower i = model_id m \<or> lower i = lower (model_alias m)))"

definition stop_maintaining :: "string \<Rightarrow> policy \<Rightarrow> policy" where
  "stop_maintaining i pol = pol\<lparr>
     models := update_first (matches_model i) (\<lambda>m. m\<lparr>retention := On_demand\<rparr>) (models pol),
     revision := revision pol + 1\<rparr>"

definition retire_model :: "string \<Rightarrow> gw \<Rightarrow> gw" where
  "retire_model i s =
    (case get_session (db s) i of
       None \<Rightarrow> s
     | Some row \<Rightarrow> if resolve (db_policy (db s)) (row_model row) = None then s
         else s\<lparr>db := db_put KSettings ''policy'' (DPolicy (stop_maintaining (row_model row) (db_policy (db s)))) (db s)\<rparr>)"

definition close_intent :: "srow \<Rightarrow> unit prog" where
  "close_intent row =
    whenP (sstate row \<in> {Open, Quarantined, Orphaned})
      (saveP (row\<lparr>sstate := Draining, close_reason := Some Close_requested\<rparr>))"

definition close_locked :: "env \<Rightarrow> string \<Rightarrow> srow prog" where
  "close_locked E i =
    bindP (getP maintenance) (\<lambda>maint.
    if maint then raiseP (err ''paused'')
    else tryP (verify_identity E)
      (\<lambda>e. case e of
         Gateway g \<Rightarrow> bindP (getP (\<lambda>s. get_session (db s) i)) (\<lambda>r.
           case r of None \<Rightarrow> raiseP (Python TypeError) | Some row \<Rightarrow> bindP (mark_error E row e) (\<lambda>_. raiseP e))
       | _ \<Rightarrow> raiseP e)
      (\<lambda>_. bindP (getP (\<lambda>s. get_session (db s) i)) (\<lambda>r.
         case r of None \<Rightarrow> raiseP (err_status ''not_found'' 404) | Some row \<Rightarrow> close_session E row)))"

definition close :: "env \<Rightarrow> string \<Rightarrow> bool \<Rightarrow> srow prog" where
  "close E i stop =
    bindP (getP (\<lambda>s. get_session (db s) i)) (\<lambda>r.
    case r of
      None \<Rightarrow> raiseP (err_status ''not_found'' 404)
    | Some row \<Rightarrow>
        thenP (close_intent row)
        (thenP (whenP stop (modP (retire_model i)))
        (lockedP E (close_locked E i))))"

text \<open>The task of \<open>schedule_close\<close>: errors of the gateway are durable on the row and dropped here.\<close>

definition close_job :: "env \<Rightarrow> string \<Rightarrow> unit prog" where
  "close_job E i =
    finallyP
      (tryP (close E i False) (\<lambda>e. case e of Gateway g \<Rightarrow> retP () | _ \<Rightarrow> raiseP e) (\<lambda>_. retP ()))
      (\<lambda>s. s\<lparr>closing := closing s - {i}\<rparr>)"

section \<open>Binding an uncertain opening\<close>

definition opened_in_time :: "config \<Rightarrow> srow \<Rightarrow> int \<Rightarrow> bool" where
  "opened_in_time c row opened =
    (created_at row - 5 \<le> of_int opened \<and> of_int opened \<le> created_at row + open_timeout c + 120)"

definition bound_row :: "truth \<Rightarrow> srow \<Rightarrow> srow" where
  "bound_row t row = row\<lparr>sstate := Open, ends_at := t_ends t, stake_wei := t_stake_text t,
     opened_at := t_opened t, row_error := None\<rparr>"

definition adopt_bound :: "env \<Rightarrow> string \<Rightarrow> string \<Rightarrow> srow \<Rightarrow> srow prog" where
  "adopt_bound E i c row =
    bindP (bindP (node_session E c) (check_truth row)) (\<lambda>t.
    if \<not> opened_in_time (cfg E) row (t_opened t) then raiseP (err_status ''session_time_mismatch'' 409)
    else bindP (if t_closed t \<noteq> 0 then record_closed E (bound_row t row) t
                else thenP (saveP (bound_row t row)) (retP (bound_row t row))) (\<lambda>row2.
      thenP (eventP E (Session_reconciled i)) (retP row2)))"

definition bind_unmanaged :: "env \<Rightarrow> string \<Rightarrow> string \<Rightarrow> srow prog" where
  "bind_unmanaged E i c =
    bindP (getP (\<lambda>s. (get_session (db s) i, db_sessions (db s)))) (\<lambda>(r, rows).
    case r of
      None \<Rightarrow> raiseP (err_status ''not_uncertain'' 409)
    | Some row \<Rightarrow>
        if sstate row \<noteq> Open_unknown then raiseP (err_status ''not_uncertain'' 409)
        else if \<exists>x \<in> set rows. sid x \<noteq> i \<and> chain_id x = Some (lower c) then raiseP (err_status ''already_managed'' 409)
        else adopt_bound E i c (row\<lparr>chain_id := Some (lower c)\<rparr>))"

definition bind_session :: "env \<Rightarrow> string \<Rightarrow> string \<Rightarrow> srow prog" where
  "bind_session E i c =
    (if \<not> HASH c then raiseP (err_status ''invalid_id'' 400)
     else bindP (verify_identity E) (\<lambda>_. bind_unmanaged E i c))"


section \<open>Calls made while closing\<close>

context quiet_interference
begin

lemma refused: "stays R C (close_refused E row e)"
  unfolding close_refused_def by (intro local_rules mark)

lemma unclosed: "stays R C (close_failed E row e)"
  unfolding close_failed_def by (intro local_rules mark refused)

lemma confirming: "rely E R \<Longrightarrow> stays R background_call (confirm_close E row c)"
  unfolding confirm_close_def by (intro local_rules after_open unclosed closed)

lemma submit_closing: "rely E R \<Longrightarrow> stays R (\<lambda>_. True) (submit_close E row c)"
  unfolding submit_close_def node_close_def Let_def
  by (intro local_rules request stays_every [OF confirming] unclosed) auto

lemma close_opened: "rely E R \<Longrightarrow> stays R (\<lambda>_. True) (close_open E row c t)"
  unfolding close_open_def by (intro local_rules refused closed submit_closing)

lemma closing_row: "rely E R \<Longrightarrow> stays R (\<lambda>_. True) (close_session E row)"
  unfolding close_session_def Let_def
  by (intro local_rules stays_every [OF after_open] refused close_opened)

end

text \<open>
  What holds whenever a close is submitted. \<open>T\<close> holds the calls of the operation: the session
  was not leased when the operation asked the node for it.
\<close>

definition close_guard :: "(call \<times> gw) set \<Rightarrow> call \<Rightarrow> gw \<Rightarrow> bool" where
  "close_guard T c u =
    (wallet_call c \<longrightarrow>
      (\<exists>ch k row t. c = Post_close ch k \<and> get_session (db u) (sid row) = Some row \<and> sstate row = Closing \<and>
         close_operation_id row = Some k \<and> chain_id row = Some ch \<and> wallet_blocked (db u) (Some (sid row)) = None \<and>
         (Get_session ch, t) \<in> T \<and> sid row \<notin> active t))"

lemma wp_close_reads: "stays anything background_call p \<Longrightarrow> wp (close_guard T) p (\<lambda>_ _. True) s"
  by (erule any.use) (simp_all add: close_guard_def)

lemma sessions_after_put: "r \<in> set (db_sessions (put_session row rs)) \<Longrightarrow> r = row \<or> r \<in> set (db_sessions rs)"
  using db_put_subset [of KSession "sid row" "DSession row" rs]
  by (auto simp: db_sessions_def put_session_def db_all_def in_map_filter; blast)

lemma wallet_blocked_put: "wallet_blocked rs (Some (sid row)) = None \<Longrightarrow> wallet_blocked (put_session row rs) (Some (sid row)) = None"
  by (auto simp: wallet_blocked_def dest!: sessions_after_put split: if_splits)

lemma submit_close_guard:
  assumes "wallet_blocked (db s) (Some (sid row)) = None" and "chain_id row = Some c"
    and "(Get_session c, t) \<in> T" and "sid row \<notin> active t"
  shows "wp (close_guard T) (submit_close E row c) (\<lambda>_ _. True) s"
proof -
  let ?row = "row\<lparr>sstate := Closing, close_operation_id := Some (uuid E (uuids s))\<rparr>"
  have "close_guard T (Post_close c (uuid E (uuids s))) (s\<lparr>uuids := n, db := put_session ?row (db s)\<rparr>)" for n
    unfolding close_guard_def
    using assms wallet_blocked_put [of "db s" ?row]
    by (intro impI exI [of _ c] exI [of _ "uuid E (uuids s)"] exI [of _ ?row] exI [of _ t]) simp
  moreover have "wp (close_guard T) (close_failed E r e) (\<lambda>_ _. True) u" for r e u
    by (intro wp_close_reads any.unclosed)
  moreover have "wp (close_guard T) (confirm_close E r c) (\<lambda>_ _. True) u" for r u
    by (intro wp_close_reads any.confirming rely_anything)
  ultimately show ?thesis
    unfolding submit_close_def node_close_def node_request_def Let_def
    by (auto split: sum.splits)
qed

lemma session_calls: "traced T (tryP (bindP (node_session E c) f) h k) s \<Longrightarrow> (Get_session c, s) \<in> T"
  by (simp add: traced_wp node_session_def node_request_def)

lemma close_session_guard:
  assumes T: "traced T (close_session E row) s"
  shows "wp (close_guard T) (close_session E row) (\<lambda>_ _. True) s"
proof -
  let ?c = "the (chain_id row)"
  let ?main = "tryP (bindP (node_session E ?c) (check_truth row)) (close_refused E row) (close_open E row ?c)"
  have main: "wp (close_guard T) ?main (\<lambda>_ _. True) s"
    if free: "sid row \<notin> active s" and c: "has_chain_id row" and tr: "traced T ?main s"
  proof -
    have asked: "(Get_session ?c, s) \<in> T" using tr by (rule session_calls)
    have some: "chain_id row = Some ?c" using c by (auto simp: has_chain_id_def)
    have "wp (close_guard T) (close_open E row ?c t) (\<lambda>_ _. True) u" for t u
      unfolding close_open_def using submit_close_guard [OF _ some asked free, of u E]
      by (auto simp: wp_get_bind simp del: wp_bind split: option.splits
          intro!: wp_close_reads any.closed any.refused)
    moreover have "wp (close_guard T) (close_refused E row e) (\<lambda>_ _. True) u" for e u
      by (intro wp_close_reads any.refused)
    ultimately show ?thesis unfolding wp_try
      by (intro any.use [OF any.after_open [OF rely_anything]]) (auto simp: close_guard_def split: sum.splits)
  qed
  show ?thesis
    using T unfolding close_session_def Let_def
    by (auto simp: traced_steps wp_get_bind simp del: wp_bind wp_try intro!: main)
qed

lemma close_locked_guard:
  assumes "traced T (close_locked E i) s"
  shows "wp (close_guard T) (close_locked E i) (\<lambda>_ _. True) s"
proof (cases "maintenance s")
  case False
  let ?k = "bindP (getP (\<lambda>s. get_session (db s) i)) (\<lambda>r.
         case r of None \<Rightarrow> raiseP (err_status ''not_found'' 404) | Some row \<Rightarrow> close_session E row)"
  let ?h = "\<lambda>e. case e of
         Gateway g \<Rightarrow> bindP (getP (\<lambda>s. get_session (db s) i)) (\<lambda>r.
           case r of None \<Rightarrow> raiseP (Python TypeError) | Some row \<Rightarrow> bindP (mark_error E row e) (\<lambda>_. raiseP e))
       | _ \<Rightarrow> raiseP e"
  have k: "wp (close_guard T) ?k (\<lambda>_ _. True) u" if "traced T ?k u" for u
    using that close_session_guard
    by (auto simp: traced_steps wp_get_bind simp del: wp_bind split: option.splits)
  have h: "wp (close_guard T) (?h e) (\<lambda>_ _. True) u" for e u
    by (intro wp_close_reads any.local_rules any.mark)
  have "traced T (tryP (verify_identity E) ?h (\<lambda>_. ?k)) s"
    using assms False by (simp add: close_locked_def traced_steps)
  then have T: "wp (\<lambda>c u. (c, u) \<in> T) (verify_identity E) (\<lambda>r s'. \<forall>x. r = Inr x \<longrightarrow> traced T ?k s') s"
    unfolding traced_wp wp_try by (rule wp_mono) (auto split: sum.splits)
  have "wp (close_guard T) (verify_identity E) (\<lambda>_ _. True) s"
    by (intro wp_close_reads any.verify rely_anything)
  from wp_conj [OF this T] have "wp (close_guard T) (tryP (verify_identity E) ?h (\<lambda>_. ?k)) (\<lambda>_ _. True) s"
    unfolding wp_try by (rule wp_mono) (auto simp: h k simp del: wp_bind split: sum.splits)
  then show ?thesis using False by (simp add: close_locked_def wp_get_bind del: wp_bind wp_try)
qed (simp add: close_locked_def)

lemma close_call_guard:
  assumes "traced T (close E i stop) s"
  shows "wp (close_guard T) (close E i stop) (\<lambda>_ _. True) s"
proof -
  have "wp (close_guard T) (lockedP E (close_locked E i)) (\<lambda>_ _. True) u"
    if "traced T (lockedP E (close_locked E i)) u" for u
    using that close_locked_guard unfolding lockedP_def traced_bind
    by (auto simp: traced_steps close_guard_def)
  then show ?thesis using assms unfolding close_def close_intent_def
    by (auto simp: traced_steps wp_get_bind simp del: wp_bind split: option.splits)
qed

text \<open>
  C7. Every wallet transaction that closing a session submits is a close that the journal
  already holds: the stored row is closing, carries the identifier of the operation that the node
  is given, and names the chain session. No other wallet transaction is pending at that moment,
  and the session was not leased when the operation asked the node for its state just before.
\<close>

theorem close_submits_journaled:
  assumes "(c, u) \<in> set (calls (close E i stop) s)" and "wallet_call c"
  shows "\<exists>ch k row t. c = Post_close ch k \<and> get_session (db u) (sid row) = Some row \<and> sstate row = Closing \<and>
     close_operation_id row = Some k \<and> chain_id row = Some ch \<and>
     wallet_blocked (db u) (Some (sid row)) = None \<and>
     (Get_session ch, t) \<in> set (calls (close E i stop) s) \<and> sid row \<notin> active t"
proof -
  have "traced (set (calls (close E i stop) s)) (close E i stop) s" by (simp add: traced_def)
  from wp_calls [OF close_call_guard [OF this] assms(1)] assms(2) show ?thesis
    by (simp add: close_guard_def)
qed

lemma closing_run:
  "list_ex (\<lambda>(c, u). wallet_call c) (calls (close (scenario_env 0) ''s1'' False) hot_state)"
  by code_simp

theorem close_submits_journaled_witness:
  "\<exists>ch k u row. (Post_close ch k, u) \<in> set (calls (close (scenario_env 0) ''s1'' False) hot_state) \<and>
     get_session (db u) (sid row) = Some row \<and> sstate row = Closing"
  using closing_run close_submits_journaled unfolding list_ex_iff by fast

section \<open>Every submitted close is accounted for\<close>

text \<open>
  How a submission ended, against the row it started from and the row stored at the end. When
  the close is pending on chain the row was stored before the last await, and others may have
  moved it on since.
\<close>

fun close_accounted :: "srow \<Rightarrow> exn + srow \<Rightarrow> srow option \<Rightarrow> bool" where
  "close_accounted before (Inr r) st =
    (close_operation_id r \<noteq> None \<and> (sstate r = Close_pending \<or> sstate r = Closed \<and> st = Some r))"
| "close_accounted before (Inl (Gateway g)) st =
    (\<exists>row. st = Some row \<and> close_operation_id row \<noteq> None \<and>
       sstate row = (if outcome g = Not_submitted then Draining else Close_pending) \<and>
       failures row = failures before + 2)"
| "close_accounted before (Inl _) st =
    (\<exists>row. st = Some row \<and> close_operation_id row \<noteq> None \<and> sstate row = Close_pending)"

abbreviation close_accounts :: "srow \<Rightarrow> exn + srow \<Rightarrow> gw \<Rightarrow> bool" where
  "close_accounts before r s \<equiv> close_accounted before r (get_session (db s) (sid before))"

lemma close_failed_accounts:
  assumes "sid row = sid before" and "failures row = failures before" and "close_operation_id row \<noteq> None"
  shows "wp (\<lambda>_ _. True) (close_failed E row e) (close_accounts before) s"
  using assms
  by (cases e) (auto simp: close_failed_def close_refused_def mark_error_def error_row_def unclosed_row_def Let_def)

lemma confirm_close_accounts:
  assumes "sid row = sid before" and "failures row = failures before" and "close_operation_id row \<noteq> None"
    and "sstate row = Close_pending"
  shows "wp (\<lambda>_ _. True) (confirm_close E row c) (close_accounts before) s"
proof -
  have "wp (\<lambda>_ _. True) (if t_closed t = 0 then retP row else record_closed E row t) (close_accounts before) u" for t u
    using assms by (auto simp: record_closed_def closed_row_def Let_def)
  then show ?thesis
    unfolding confirm_close_def wp_then wp_save sum.case
    by (intro wp_try_any close_failed_accounts assms)
qed


section \<open>Binding\<close>

text \<open>What the operation had read when it asked the node for the session.\<close>

definition bindable :: "string \<Rightarrow> string \<Rightarrow> gw \<Rightarrow> bool" where
  "bindable i c t =
    ((\<exists>r. get_session (db t) i = Some r \<and> sstate r = Open_unknown) \<and>
     (\<forall>x \<in> set (db_sessions (db t)). sid x \<noteq> i \<longrightarrow> chain_id x \<noteq> Some (lower c)))"

definition bound :: "env \<Rightarrow> (call \<times> gw) set \<Rightarrow> string \<Rightarrow> string \<Rightarrow> srow \<Rightarrow> gw \<Rightarrow> bool" where
  "bound E T i c r s =
    (get_session (db s) (sid r) = Some r \<and> sstate r \<in> {Open, Closed} \<and> chain_id r = Some (lower c) \<and> HASH c \<and>
     (\<exists>n. opened_at r = n \<and> opened_in_time (cfg E) r n) \<and>
     (\<exists>t. (Get_session c, t) \<in> T \<and> bindable i c t))"

lemma adopt_bound_binds:
  assumes T: "traced T (adopt_bound E i c row) t" and t: "bindable i c t" and c: "HASH c"
    and row: "chain_id row = Some (lower c)"
  shows "wp (\<lambda>_ _. True) (adopt_bound E i c row) (\<lambda>r s'. \<forall>x. r = Inr x \<longrightarrow> bound E T i c x s') t"
proof -
  have asked: "(Get_session c, t) \<in> T"
    using T by (simp add: traced_wp adopt_bound_def node_session_def node_request_def)
  have in_time: "opened_in_time (cfg E) (closed_row tr (bound_row tr row)) n = opened_in_time (cfg E) row n"
    "opened_in_time (cfg E) (bound_row tr row) n = opened_in_time (cfg E) row n" for tr n
    by (simp_all add: opened_in_time_def closed_row_def bound_row_def)
  have "wp (\<lambda>_ _. True) (if \<not> opened_in_time (cfg E) row (t_opened tr) then raiseP (err_status ''session_time_mismatch'' 409)
    else bindP (if t_closed tr \<noteq> 0 then record_closed E (bound_row tr row) tr
                else thenP (saveP (bound_row tr row)) (retP (bound_row tr row))) (\<lambda>row2.
      thenP (eventP E (Session_reconciled i)) (retP row2))) (\<lambda>r s'. \<forall>x. r = Inr x \<longrightarrow> bound E T i c x s') u" for tr u
    using asked t c row
    by (auto simp: record_closed_def bound_def Let_def in_time) (auto simp: closed_row_def bound_row_def)
  then show ?thesis unfolding adopt_bound_def by (intro wp_bind_any) simp
qed

lemma bind_unmanaged_binds:
  assumes T: "traced T (bind_unmanaged E i c) u" and c: "HASH c"
  shows "wp (\<lambda>_ _. True) (bind_unmanaged E i c) (\<lambda>r s'. \<forall>x. r = Inr x \<longrightarrow> bound E T i c x s') u"
proof -
  have "wp (\<lambda>_ _. True) (adopt_bound E i c (row\<lparr>chain_id := Some (lower c)\<rparr>)) (\<lambda>r s'. \<forall>x. r = Inr x \<longrightarrow> bound E T i c x s') u"
    if "traced T (adopt_bound E i c (row\<lparr>chain_id := Some (lower c)\<rparr>)) u" "get_session (db u) i = Some row"
      "sstate row = Open_unknown" "\<not> (\<exists>x \<in> set (db_sessions (db u)). sid x \<noteq> i \<and> chain_id x = Some (lower c))" for row
    using that c by (intro adopt_bound_binds) (auto simp: bindable_def)
  then show ?thesis
    using T unfolding bind_unmanaged_def wp_get_bind traced_steps prod.case
    by (cases "get_session (db u) i") (auto simp del: bex_simps)
qed

lemma bind_session_binds:
  assumes T: "traced T (bind_session E i c) s"
  shows "wp (\<lambda>_ _. True) (bind_session E i c) (\<lambda>r s'. \<forall>x. r = Inr x \<longrightarrow> bound E T i c x s') s"
proof (cases "HASH c")
  case True
  then have "traced T (bindP (verify_identity E) (\<lambda>_. bind_unmanaged E i c)) s"
    using T by (simp add: bind_session_def)
  from any.use_bind_traced [OF any.verify [OF rely_anything] this] True
  show ?thesis by (simp add: bind_session_def bind_unmanaged_binds del: wp_bind)
qed (simp add: bind_session_def)

text \<open>
  C37. Binding an uncertain opening to a chain session succeeds only for a session that no other
  live row manages and for a row that awaits reconciliation, both at the moment the chain is asked;
  the result is stored as open or closed, under the chain identifier, and was opened within the
  opening window of the row.
\<close>

theorem bind_binds:
  assumes "result (bind_session E i c) s = Inr r"
  shows "bound E (set (calls (bind_session E i c) s)) i c r (final (bind_session E i c) s)"
  using bind_session_binds [of "set (calls (bind_session E i c) s)" E i c s] assms
  by (simp add: traced_def wp_def)

definition uncertain_state :: gw where
  "uncertain_state = scenario_state [(sample_row ''u1'' Open_unknown)\<lparr>chain_id := None\<rparr>]"

lemma binding_run:
  "result (bind_session (scenario_env 0) ''u1'' the_session) uncertain_state = Inr (sample_row ''u1'' Open)"
  by code_simp

theorem bind_binds_witness:
  "bound (scenario_env 0) (set (calls (bind_session (scenario_env 0) ''u1'' the_session) uncertain_state)) ''u1'' the_session
     (sample_row ''u1'' Open) (final (bind_session (scenario_env 0) ''u1'' the_session) uncertain_state)"
  by (rule bind_binds [OF binding_run])

end
