(* ===== verification/Recovery.thy ===== *)
theory Recovery
  imports SessionClose
begin

text \<open>
  gateway/sessions.py: reconciliation of uncertain wallet transactions with the native journal and
  the chain (\<open>transaction_state\<close>, \<open>journal\<close>, \<open>reconcile\<close>), the scan of the wallet
  (\<open>sweep_wallet\<close>). The lemmas show that none of this submits a wallet transaction, and that a
  recorded submission is given up only on evidence from the chain.
\<close>

section \<open>Receipts\<close>

datatype tx_state = Tx_unknown | Tx_succeeded | Tx_failed | Tx_pending

text \<open>\<open>r and int(r["status"], 16) == n\<close>.\<close>

definition receipt_status :: "int \<Rightarrow> json \<Rightarrow> pyexc + bool" where
  "receipt_status n r =
    (if \<not> truthy r then Inr False
     else (case jget ''status'' r of
         None \<Rightarrow> Inl KeyError
       | Some v \<Rightarrow> (case to_int16 v of Inl x \<Rightarrow> Inl x | Inr k \<Rightarrow> Inr (k = n))))"

text \<open>\<open>any(...)\<close> and \<open>all(...)\<close> stop at the first element that decides.\<close>

fun py_any :: "('a \<Rightarrow> pyexc + bool) \<Rightarrow> 'a list \<Rightarrow> pyexc + bool" where
  "py_any f [] = Inr False"
| "py_any f (x # xs) = (case f x of Inl e \<Rightarrow> Inl e | Inr b \<Rightarrow> if b then Inr True else py_any f xs)"

fun py_all :: "('a \<Rightarrow> pyexc + bool) \<Rightarrow> 'a list \<Rightarrow> pyexc + bool" where
  "py_all f [] = Inr True"
| "py_all f (x # xs) = (case f x of Inl e \<Rightarrow> Inl e | Inr b \<Rightarrow> if b then py_all f xs else Inr False)"

definition receipts_state :: "json list \<Rightarrow> pyexc + tx_state" where
  "receipts_state rs =
    (case py_any (receipt_status 1) rs of
       Inl x \<Rightarrow> Inl x
     | Inr True \<Rightarrow> Inr Tx_succeeded
     | Inr False \<Rightarrow> (case py_all (receipt_status 0) rs of
         Inl x \<Rightarrow> Inl x | Inr b \<Rightarrow> Inr (if b then Tx_failed else Tx_pending)))"

definition tx_hash :: "json \<Rightarrow> json" where
  "tx_hash tx = (if is_dict tx then jget_null ''hash'' tx else tx)"

text \<open>None: some entry is no transaction identifier.\<close>

fun receipts :: "env \<Rightarrow> json list \<Rightarrow> json list option prog" where
  "receipts E [] = retP (Some [])"
| "receipts E (tx # more_txs) =
    (if \<not> HASH (py_str (tx_hash tx)) then retP None
     else bindP (getP identity) (\<lambda>ident.
       case ident of
         None \<Rightarrow> raiseP (Python TypeError)
       | Some i \<Rightarrow> bindP (receipt E (py_str (tx_hash tx)) (chain i)) (\<lambda>r.
           bindP (receipts E more_txs) (\<lambda>rs. retP (map_option (\<lambda>xs. r # xs) rs)))))"

definition transaction_state :: "env \<Rightarrow> json \<Rightarrow> tx_state prog" where
  "transaction_state E ts =
    (if \<not> truthy ts then retP Tx_unknown
     else bindP (pyP (json_iter ts)) (\<lambda>xs.
       bindP (receipts E xs) (\<lambda>rs.
       case rs of None \<Rightarrow> retP Tx_unknown | Some ys \<Rightarrow> pyP (receipts_state ys))))"

section \<open>The native journal\<close>

text \<open>The body of an answered request, if there is a non-empty one; \<open>GatewayError\<close> is dropped.\<close>

definition journal :: "env \<Rightarrow> string option \<Rightarrow> json option prog" where
  "journal E i =
    (if i = None \<or> i = Some [] \<or> \<not> helper_configured (cfg E) then retP None
     else tryP (helper_request E (Helper_journal (the i)))
       (\<lambda>e. case e of Gateway g \<Rightarrow> retP None | _ \<Rightarrow> raiseP e)
       (\<lambda>j. retP (if truthy j then Some j else None)))"

definition journal_not_submitted :: "json \<Rightarrow> bool" where
  "journal_not_submitted p =
    (truthy (jget_null ''completed'' p) \<and> jget_null ''stage'' p = JStr ''not_submitted'')"

definition journaled_row :: "time \<Rightarrow> json \<Rightarrow> srow \<Rightarrow> srow" where
  "journaled_row now p row =
    (let ts = jget_or ''transactions'' (JArr []) p
     in if sstate row = Open_unknown
        then (let row' = row\<lparr>transactions := ts\<rparr>; c = py_str (jget_or ''sessionID'' (JStr []) p)
          in if nonzero_hash c then row'\<lparr>chain_id := Some (lower c)\<rparr>
             else if journal_not_submitted p then row'\<lparr>sstate := Failed, row_error := Some Journal_not_submitted\<rparr>
             else row')
        else (let row' = row\<lparr>close_transactions := ts\<rparr>
          in if journal_not_submitted p then row'\<lparr>sstate := Draining, retry_at := now + 30\<rparr> else row'))"

definition reconcile_journal :: "env \<Rightarrow> srow \<Rightarrow> unit prog" where
  "reconcile_journal E row =
    (if sstate row \<notin> {Open_unknown, Close_pending} then retP ()
     else bindP (journal E (if sstate row = Open_unknown then Some (sid row) else close_operation_id row)) (\<lambda>progress.
       bindP (getP (\<lambda>s. (get_session (db s) (sid row), clock s))) (\<lambda>(current, now).
       case progress of
         None \<Rightarrow> retP ()
       | Some p \<Rightarrow> if current \<noteq> Some row then retP () else saveP (journaled_row now p row))))"

section \<open>Reconciliation with the chain\<close>

text \<open>The exceptions the recovery loops handle.\<close>

fun recoverable :: "exn \<Rightarrow> bool" where
  "recoverable (Gateway g) = True"
| "recoverable (Python x) = (x \<in> {KeyError, TypeError, ValueError})"
| "recoverable Cancelled = False"

definition close_evidence :: "srow \<Rightarrow> json" where
  "close_evidence row =
    (if truthy (close_transactions row) then close_transactions row
     else if truthy (close_tx row) then JArr [close_tx row] else JArr [])"

definition seen_open :: "srow \<Rightarrow> srow" where
  "seen_open row = (if sstate row \<in> {Open_unknown, Quarantined} then row\<lparr>sstate := Open\<rparr> else row)"

definition settle_close :: "env \<Rightarrow> srow \<Rightarrow> srow prog" where
  "settle_close E row =
    (if sstate row \<noteq> Close_pending then retP row
     else bindP (transaction_state E (close_evidence row)) (\<lambda>st.
       bindP (getP clock) (\<lambda>now.
       retP (if st = Tx_failed then row\<lparr>sstate := Draining, retry_at := now + 30\<rparr> else row))))"

definition refreshed_row :: "truth \<Rightarrow> srow \<Rightarrow> srow" where
  "refreshed_row t row = row\<lparr>ends_at := t_ends t, stake_wei := t_stake_text t, row_error := None\<rparr>"

text \<open>\<open>if self.store.get("session", row["id"]) == snapshot: ...\<close>.\<close>

definition if_unchanged :: "srow \<Rightarrow> unit prog \<Rightarrow> unit prog" where
  "if_unchanged row p = bindP (getP (\<lambda>s. get_session (db s) (sid row) = Some row)) (\<lambda>same. whenP same p)"

definition reconcile_open :: "env \<Rightarrow> srow \<Rightarrow> truth \<Rightarrow> unit prog" where
  "reconcile_open E row t =
    (if t_closed t \<noteq> 0 then bindP (record_closed E row t) (\<lambda>_. retP ())
     else bindP (settle_close E (seen_open row)) (\<lambda>row'.
       if_unchanged row (saveP (refreshed_row t row'))))"

definition reconcile_chain :: "env \<Rightarrow> srow \<Rightarrow> unit prog" where
  "reconcile_chain E row =
    bindP (getP (\<lambda>s. \<not> has_chain_id row \<or> clock s < retry_at row)) (\<lambda>skip.
    if skip then retP ()
    else catchP
      (bindP (node_session E (the (chain_id row))) (\<lambda>j.
        if_unchanged row (bindP (check_truth row j) (reconcile_open E row))))
      (\<lambda>e. if recoverable e then if_unchanged row (bindP (mark_error E row e) (\<lambda>_. retP ())) else raiseP e))"

text \<open>\<open>[tx for tx in row.get("transactions", []) if tx.get("kind") == "open"]\<close>.\<close>

fun open_transactions :: "json list \<Rightarrow> pyexc + json list" where
  "open_transactions [] = Inr []"
| "open_transactions (tx # ts) =
    (if \<not> is_dict tx then Inl AttributeError
     else (case open_transactions ts of
         Inl x \<Rightarrow> Inl x
       | Inr rest \<Rightarrow> Inr (if jget_null ''kind'' tx = JStr ''open'' then tx # rest else rest)))"

definition reconcile_reverted :: "env \<Rightarrow> srow \<Rightarrow> unit prog" where
  "reconcile_reverted E row =
    (if sstate row \<noteq> Open_unknown \<or> has_chain_id row then retP ()
     else catchP
       (bindP (pyP (json_iter (transactions row))) (\<lambda>all.
        bindP (pyP (open_transactions all)) (\<lambda>ts.
        if ts = [] then retP ()
        else bindP (transaction_state E (JArr ts)) (\<lambda>st.
          whenP (st = Tx_failed) (saveP (row\<lparr>sstate := Failed, row_error := Some Opening_reverted\<rparr>))))))
       (\<lambda>e. case e of Gateway g \<Rightarrow> bindP (mark_error E row e) (\<lambda>_. retP ()) | _ \<Rightarrow> raiseP e))"

definition for_sessions :: "(srow \<Rightarrow> unit prog) \<Rightarrow> unit prog" where
  "for_sessions f = bindP (getP (\<lambda>s. db_sessions (db s))) (forP f)"

definition reconcile :: "env \<Rightarrow> unit prog" where
  "reconcile E =
    thenP (for_sessions (reconcile_journal E))
    (thenP (for_sessions (reconcile_chain E))
    (for_sessions (reconcile_reverted E)))"

section \<open>Scanning the wallet\<close>

text \<open>
  What is decided about one session of the wallet: nothing, candidates for uncertain openings
  (the changed rows), a session to adopt for cleanup, or an exception.
\<close>

datatype scan = Ignore | Candidates "srow list" | Discover srow bool | Scan_error exn

definition lower_member :: "string \<Rightarrow> json \<Rightarrow> string" where
  "lower_member k j = lower (py_str (jget_or k (JStr []) j))"

text \<open>The comprehension over the uncertain rows; \<open>OpenedAt\<close> is read only for rows that match so far.\<close>

fun scan_matches :: "config \<Rightarrow> json \<Rightarrow> srow list \<Rightarrow> pyexc + srow list" where
  "scan_matches c j [] = Inr []"
| "scan_matches c j (r # rs) =
    (if lower (row_bid r) = lower_member ''BidID'' j \<and> row_model r = lower_member ''ModelAgentId'' j \<and>
        row_provider r = lower_member ''Provider'' j
     then (case to_int (jget_or ''OpenedAt'' (JInt 0) j) of
         Inl x \<Rightarrow> Inl x
       | Inr n \<Rightarrow> (case scan_matches c j rs of
           Inl x \<Rightarrow> Inl x | Inr ms \<Rightarrow> Inr (if opened_in_time c r n then r # ms else ms)))
     else scan_matches c j rs)"

definition add_candidate :: "string \<Rightarrow> srow \<Rightarrow> srow" where
  "add_candidate c row =
    (if c \<in> set (recovery_candidates row) then row
     else row\<lparr>recovery_candidates := recovery_candidates row @ [c]\<rparr>)"

definition discovered_row :: "time \<Rightarrow> recovery_policy \<Rightarrow> string \<Rightarrow> json \<Rightarrow> int \<Rightarrow> string \<Rightarrow> bool \<Rightarrow> srow" where
  "discovered_row now rec c j ends stake_text expired =
    \<lparr>sid = ''wallet-'' @ drop 2 c, chain_id = Some c, row_model = lower_member ''ModelAgentId'' j,
     row_alias = ''Recovered wallet session'', row_provider = lower_member ''Provider'' j,
     row_bid = lower_member ''BidID'' j, sstate = Orphaned, created_at = now, last_used = now,
     ends_at = ends, opened_at = 0, stake_wei = stake_text, row_revision = 0, estimated_stake_wei = [],
     transactions = JArr [], row_error = None, failures = 0,
     retry_at = (if expired then 0 else now + of_int (orphan_grace_seconds rec)),
     close_reason = None, close_operation_id = None, close_tx = JNull, close_transactions = JArr [],
     closed_at = None, estimated_daylocked_wei = None, recovery_candidates = [], discovered = True\<rparr>"

text \<open>A session of the wallet that no row knows and no uncertain opening matches.\<close>

definition scan_foreign :: "ident \<Rightarrow> gw \<Rightarrow> string \<Rightarrow> json \<Rightarrow> scan" where
  "scan_foreign i s c j =
    (case to_int (jget_or ''ClosedAt'' (JInt 0) j) of
       Inl x \<Rightarrow> Scan_error (Python x)
     | Inr closed_time \<Rightarrow> if closed_time \<noteq> 0 then Ignore
       else (case to_int (jget_or ''EndsAt'' (JInt 0) j) of
         Inl x \<Rightarrow> Scan_error (Python x)
       | Inr ends \<Rightarrow>
           (let rec = recovery (db_policy (db s)); expired = of_int ends \<le> clock s
            in if \<not> (expired \<and> cleanup_untracked_expired rec \<or> cleanup_untracked_live rec) then Ignore
               else if jget ''EndsAt'' j = None \<or> jget ''Stake'' j = None then Scan_error (Python KeyError)
               else (let row = discovered_row (clock s) rec c j ends (py_str (jget_null ''Stake'' j)) expired
                 in (case validate_truth (Some i) row j of
                       Inl e \<Rightarrow> Scan_error e | Inr _ \<Rightarrow> Discover row expired)))))"

definition scan_session :: "config \<Rightarrow> ident \<Rightarrow> gw \<Rightarrow> string option list \<Rightarrow> srow list \<Rightarrow> json \<Rightarrow> scan" where
  "scan_session cf i s known uncertain j =
    (let c = lower_member ''Id'' j
     in if \<not> HASH c \<or> lower_member ''User'' j \<noteq> wallet i then Ignore
        else if Some c \<in> set known then Ignore
        else (case scan_matches cf j uncertain of
            Inl x \<Rightarrow> Scan_error (Python x)
          | Inr (m # ms) \<Rightarrow> Candidates (map (add_candidate c) (m # ms))
          | Inr [] \<Rightarrow> scan_foreign i s c j))"

text \<open>The loop over the batch. Rows of the list of uncertain openings are changed in place.\<close>

definition replace_rows :: "srow list \<Rightarrow> srow list \<Rightarrow> srow list" where
  "replace_rows new rows = map (\<lambda>r. case find (\<lambda>n. sid n = sid r) new of None \<Rightarrow> r | Some n \<Rightarrow> n) rows"

fun scan_batch :: "env \<Rightarrow> ident \<Rightarrow> string option list \<Rightarrow> srow list \<Rightarrow> json list \<Rightarrow> unit prog" where
  "scan_batch E i known uncertain [] = retP ()"
| "scan_batch E i known uncertain (j # js) =
    bindP (getP (\<lambda>s. scan_session (cfg E) i s known uncertain j)) (\<lambda>found.
    case found of
      Ignore \<Rightarrow> scan_batch E i known uncertain js
    | Candidates rows \<Rightarrow> thenP (forP saveP rows) (scan_batch E i known (replace_rows rows uncertain) js)
    | Discover row expired \<Rightarrow> thenP (saveP row)
        (thenP (eventP E (Wallet_session_discovered (sid row) expired)) (scan_batch E i known uncertain js))
    | Scan_error e \<Rightarrow> if recoverable e
        then thenP (eventP E (Wallet_session_invalid (py_str (jget_or ''Id'' (JStr ''unknown'') j))))
          (scan_batch E i known uncertain js)
        else raiseP e)"

text \<open>An uncertain opening with exactly one candidate is bound once the scan is complete.\<close>

definition resolve_candidate :: "env \<Rightarrow> srow \<Rightarrow> unit prog" where
  "resolve_candidate E row =
    (if sstate row = Open_unknown \<and> \<not> has_chain_id row \<and> length (recovery_candidates row) = 1
     then catchP (bindP (bind_session E (sid row) (hd (recovery_candidates row))) (\<lambda>_. retP ()))
       (\<lambda>e. case e of Gateway g \<Rightarrow> bindP (mark_error E row e) (\<lambda>_. retP ()) | _ \<Rightarrow> raiseP e)
     else retP ())"

definition scan_offset :: "database \<Rightarrow> int" where
  "scan_offset rs = (case db_get rs KSettings ''wallet_scan'' of Some (DWallet_scan n _) \<Rightarrow> n | _ \<Rightarrow> 0)"

definition next_offset :: "int \<Rightarrow> json list \<Rightarrow> int" where
  "next_offset offset batch = (if length batch = 100 then offset + int (length batch) else 0)"

definition sweep_wallet :: "env \<Rightarrow> unit prog" where
  "sweep_wallet E =
    bindP (verify_identity E) (\<lambda>_.
    bindP (getP (\<lambda>s. (identity s, scan_offset (db s)))) (\<lambda>(ident, offset).
    case ident of
      None \<Rightarrow> raiseP (Python TypeError)
    | Some i0 \<Rightarrow> bindP (wallet_sessions E (wallet i0) offset) (\<lambda>batch.
      bindP (getP (\<lambda>s. (identity s, db_sessions (db s)))) (\<lambda>(ident, rows).
      case ident of
        None \<Rightarrow> raiseP (Python TypeError)
      | Some i \<Rightarrow>
          thenP (scan_batch E i (map chain_id rows) (filter (\<lambda>r. sstate r = Open_unknown \<and> \<not> has_chain_id r) rows) batch)
          (bindP (getP clock) (\<lambda>now.
          thenP (put_settingP ''wallet_scan'' (DWallet_scan (next_offset offset batch) now))
          (whenP (length batch < 100) (for_sessions (resolve_candidate E)))))))))"

section \<open>Recovery only reads\<close>

context quiet_interference
begin

lemma receipt_loop: "rely E R \<Longrightarrow> stays R background_call (receipts E ts)"
  by (induction ts) (auto intro!: rules NodeApi.interference.receipts interference_axioms)

lemma tx_state: "rely E R \<Longrightarrow> stays R background_call (transaction_state E ts)"
  unfolding transaction_state_def by (intro rules receipt_loop)

lemma read_journal: "rely E R \<Longrightarrow> stays R background_call (journal E i)"
  unfolding journal_def by (intro rules helper) simp_all

lemma unchanged: "stays R C p \<Longrightarrow> stays R C (if_unchanged row p)"
  unfolding if_unchanged_def by (intro rules)

lemma sessions_loop: "(\<And>r. stays R C (f r)) \<Longrightarrow> stays R C (for_sessions f)"
  unfolding for_sessions_def by (intro rules)

lemma journal_step: "rely E R \<Longrightarrow> stays R background_call (reconcile_journal E row)"
  unfolding reconcile_journal_def case_prod_beta by (intro local_rules read_journal)

lemma settle: "rely E R \<Longrightarrow> stays R background_call (settle_close E row)"
  unfolding settle_close_def by (intro local_rules tx_state)

lemma chain_step: "rely E R \<Longrightarrow> stays R background_call (reconcile_chain E row)"
  unfolding reconcile_chain_def reconcile_open_def
  by (intro local_rules unchanged session check closed settle mark)

lemma reverted_step: "rely E R \<Longrightarrow> stays R background_call (reconcile_reverted E row)"
  unfolding reconcile_reverted_def by (intro local_rules tx_state mark)

lemma reconciling: "rely E R \<Longrightarrow> stays R background_call (reconcile E)"
  unfolding reconcile_def by (intro local_rules sessions_loop journal_step chain_step reverted_step)

lemma scanning: "stays R C (scan_batch E i known uncertain js)"
proof (induction js arbitrary: uncertain)
  case (Cons j js)
  have "stays R C (case found of
      Ignore \<Rightarrow> scan_batch E i known uncertain js
    | Candidates rows \<Rightarrow> thenP (forP saveP rows) (scan_batch E i known (replace_rows rows uncertain) js)
    | Discover row expired \<Rightarrow> thenP (saveP row)
        (thenP (eventP E (Wallet_session_discovered (sid row) expired)) (scan_batch E i known uncertain js))
    | Scan_error e \<Rightarrow> if recoverable e
        then thenP (eventP E (Wallet_session_invalid (py_str (jget_or ''Id'' (JStr ''unknown'') j))))
          (scan_batch E i known uncertain js)
        else raiseP e)" for found
    by (cases found) (auto intro!: local_rules Cons.IH simp del: jget_or_simps)
  then show ?case unfolding scan_batch.simps by (intro rules)
qed (simp add: pure)

lemma binding: "rely E R \<Longrightarrow> stays R background_call (bind_session E i c)"
  unfolding bind_session_def bind_unmanaged_def adopt_bound_def case_prod_beta
  by (intro local_rules verify after_open closed)

lemma candidate_step: "rely E R \<Longrightarrow> stays R background_call (resolve_candidate E row)"
  unfolding resolve_candidate_def by (intro local_rules binding mark)

lemma scan_wallet: "rely E R \<Longrightarrow> stays R background_call (sweep_wallet E)"
  unfolding sweep_wallet_def case_prod_beta
  by (intro local_rules verify wallet_list scanning setting sessions_loop candidate_step) simp_all

end

section \<open>Receipts\<close>

lemma py_any_False: "py_any f xs = Inr False \<longleftrightarrow> (\<forall>x \<in> set xs. f x = Inr False)"
  by (induction xs) (auto split: sum.splits)

lemma py_any_True: "py_any f xs = Inr True \<Longrightarrow> \<exists>x \<in> set xs. f x = Inr True"
  by (induction xs) (auto split: sum.splits if_splits)

lemma py_all_True: "py_all f xs = Inr True \<longleftrightarrow> (\<forall>x \<in> set xs. f x = Inr True)"
  by (induction xs) (auto split: sum.splits)

lemma receipt_statusD: "receipt_status n r = Inr True \<Longrightarrow> \<exists>t. jget ''status'' r = Some (JStr t) \<and> hex_of_text t = Some n"
  by (auto simp: receipt_status_def split: if_splits option.splits sum.splits elim!: to_int16.elims)

text \<open>The recovery RPC answered the request for the receipt of a transaction with \<open>y\<close>.\<close>

definition answered :: "env \<Rightarrow> (call \<times> gw) set \<Rightarrow> string \<Rightarrow> json \<Rightarrow> bool" where
  "answered E T tx y =
    (\<exists>u st data u'. (Rpc ''eth_getTransactionReceipt'' [JStr tx], u) \<in> T \<and>
       respond E (Rpc ''eth_getTransactionReceipt'' [JStr tx]) u = (Body st data, u') \<and> jget ''result'' data = Some y)"

lemma rpc_resultD: "rpc_result r = Inr y \<Longrightarrow> \<exists>st data. r = Body st data \<and> jget ''result'' data = Some y"
  by (cases r rule: rpc_result.cases) (auto split: if_splits option.splits)

lemma wp_rpc:
  assumes "traced T (bindP (rpc_call E m ps) f) s" and "\<And>e u. Q (Inl e) u"
    and "\<And>y u st data. (Rpc m ps, s) \<in> T \<Longrightarrow> respond E (Rpc m ps) s = (Body st data, u) \<Longrightarrow>
       jget ''result'' data = Some y \<Longrightarrow> traced T (f y) u \<Longrightarrow> wp (\<lambda>_ _. True) (f y) Q u"
  shows "wp (\<lambda>_ _. True) (bindP (rpc_call E m ps) f) Q s"
  using assms unfolding rpc_call_def traced_bind
  by (auto simp del: rpc_result.simps split: sum.splits) (metis rpc_resultD)

lemma receipt_answered:
  assumes "traced T (receipt E tx ch) s"
  shows "wp (\<lambda>_ _. True) (receipt E tx ch) (\<lambda>r _. \<forall>y. r = Inr y \<longrightarrow> answered E T tx y) s"
proof (cases "HASH tx")
  case True
  have inner: "wp (\<lambda>_ _. True) (receipt_of E tx) (\<lambda>r _. \<forall>y. r = Inr y \<longrightarrow> answered E T tx y) u"
    if "traced T (receipt_of E tx) u" for u
    using that unfolding receipt_of_def by (rule wp_rpc) (auto simp: answered_def object_response_def)
  have "wp (\<lambda>_ _. True) (bindP (pyP x) (\<lambda>n. if n \<noteq> ch then raiseP (err ''rpc_chain_mismatch'') else receipt_of E tx))
      (\<lambda>r _. \<forall>y. r = Inr y \<longrightarrow> answered E T tx y) u"
    if "traced T (bindP (pyP x) (\<lambda>n. if n \<noteq> ch then raiseP (err ''rpc_chain_mismatch'') else receipt_of E tx)) u" for x u
    using that inner by (cases x) (auto simp: traced_bind)
  then show ?thesis using assms True unfolding receipt_def
    by (auto intro!: wp_rpc simp del: wp_bind)
qed (simp add: receipt_def)

lemma receipts_answered:
  "traced T (receipts E xs) s \<Longrightarrow> wp (\<lambda>_ _. True) (receipts E xs)
     (\<lambda>r _. \<forall>ys. r = Inr (Some ys) \<longrightarrow> list_all2 (\<lambda>x y. answered E T (py_str (tx_hash x)) y) xs ys) s"
proof (induction xs arbitrary: s)
  case (Cons x xs)
  let ?h = "py_str (tx_hash x)"
  let ?k = "\<lambda>r. bindP (receipts E xs) (\<lambda>rs. retP (map_option (\<lambda>ys. r # ys) rs))"
  let ?Q = "\<lambda>r (_ :: gw). \<forall>ys. r = Inr (Some ys) \<longrightarrow> list_all2 (\<lambda>x y. answered E T (py_str (tx_hash x)) y) (x # xs) ys"
  have "wp (\<lambda>_ _. True) (bindP (receipt E ?h ch) ?k) ?Q u" if "traced T (bindP (receipt E ?h ch) ?k) u" for ch u
  proof -
    have T: "wp (\<lambda>c u. (c, u) \<in> T) (receipt E ?h ch) (\<lambda>r s'. \<forall>y. r = Inr y \<longrightarrow> traced T (?k y) s') u"
      using that by (simp add: traced_bind)
    then have "traced T (receipt E ?h ch) u" unfolding traced_wp by (rule wp_mono) auto
    from wp_conj [OF receipt_answered [OF this] T] show ?thesis unfolding wp_bind [of _ "receipt E ?h ch"]
    proof (rule wp_mono)
      fix r t assume r: "(\<forall>y. r = Inr y \<longrightarrow> answered E T ?h y) \<and> (\<forall>y. r = Inr y \<longrightarrow> traced T (?k y) t)"
      have "wp (\<lambda>_ _. True) (?k y) ?Q t" if "r = Inr y" for y
      proof -
        have "traced T (receipts E xs) t" using r that unfolding traced_wp wp_bind by (auto elim!: wp_mono)
        from Cons.IH [OF this] show ?thesis unfolding wp_bind
          by (rule wp_mono) (use r that in \<open>auto split: sum.splits\<close>)
      qed
      then show "case r of Inl e \<Rightarrow> ?Q (Inl e) t | Inr y \<Rightarrow> wp (\<lambda>_ _. True) (?k y) ?Q t" by (cases r) auto
    qed simp
  qed
  then show ?case using Cons.prems
    by (auto simp: wp_get_bind traced_steps simp del: wp_bind split: option.splits)
qed simp

definition mined :: "env \<Rightarrow> (call \<times> gw) set \<Rightarrow> int \<Rightarrow> json \<Rightarrow> bool" where
  "mined E T n x =
    (\<exists>y t. answered E T (py_str (tx_hash x)) y \<and> jget ''status'' y = Some (JStr t) \<and> hex_of_text t = Some n)"

lemma receipts_state_mined:
  assumes "list_all2 (\<lambda>x y. answered E T (py_str (tx_hash x)) y) xs ys"
  shows "receipts_state ys = Inr Tx_failed \<Longrightarrow> \<forall>x \<in> set xs. mined E T 0 x"
    and "receipts_state ys = Inr Tx_succeeded \<Longrightarrow> \<exists>x \<in> set xs. mined E T 1 x"
proof -
  assume "receipts_state ys = Inr Tx_failed"
  then have "\<forall>y \<in> set ys. receipt_status 0 y = Inr True"
    by (auto simp: receipts_state_def py_all_True [symmetric] split: sum.splits bool.splits if_splits)
  with assms show "\<forall>x \<in> set xs. mined E T 0 x"
    by (fastforce simp: mined_def list_all2_conv_all_nth in_set_conv_nth dest!: receipt_statusD)
next
  assume "receipts_state ys = Inr Tx_succeeded"
  then have "\<exists>y \<in> set ys. receipt_status 1 y = Inr True"
    by (auto simp: receipts_state_def dest: py_any_True split: sum.splits bool.splits if_splits)
  with assms show "\<exists>x \<in> set xs. mined E T 1 x"
    by (fastforce simp: mined_def list_all2_conv_all_nth in_set_conv_nth dest!: receipt_statusD)
qed

definition evidence :: "env \<Rightarrow> (call \<times> gw) set \<Rightarrow> json \<Rightarrow> tx_state \<Rightarrow> bool" where
  "evidence E T ts st =
    (case st of
       Tx_failed \<Rightarrow> (\<exists>xs. json_iter ts = Inr xs \<and> xs \<noteq> [] \<and> (\<forall>x \<in> set xs. mined E T 0 x))
     | Tx_succeeded \<Rightarrow> (\<exists>xs. json_iter ts = Inr xs \<and> (\<exists>x \<in> set xs. mined E T 1 x))
     | _ \<Rightarrow> True)"

lemma transaction_state_mined:
  assumes "traced T (transaction_state E ts) s"
  shows "wp (\<lambda>_ _. True) (transaction_state E ts) (\<lambda>r _. \<forall>st. r = Inr st \<longrightarrow> evidence E T ts st) s"
proof (cases "truthy ts \<and> (\<exists>xs. json_iter ts = Inr xs)")
  case True
  then obtain xs where xs: "json_iter ts = Inr xs" "truthy ts" by blast
  then have ne: "xs \<noteq> []" by (cases ts) auto
  let ?k = "\<lambda>rs. case rs of None \<Rightarrow> retP Tx_unknown | Some ys \<Rightarrow> pyP (receipts_state ys)"
  have "traced T (bindP (receipts E xs) ?k) s" using assms xs by (simp add: transaction_state_def traced_bind)
  then have "traced T (receipts E xs) s" unfolding traced_wp wp_bind by (rule wp_mono) auto
  from receipts_answered [OF this]
  have "wp (\<lambda>_ _. True) (bindP (receipts E xs) ?k) (\<lambda>r _. \<forall>st. r = Inr st \<longrightarrow> evidence E T ts st) s"
    unfolding wp_bind
  proof (rule wp_mono)
    fix r u assume r: "\<forall>ys. r = Inr (Some ys) \<longrightarrow> list_all2 (\<lambda>x y. answered E T (py_str (tx_hash x)) y) xs ys"
    have "evidence E T ts st" if "r = Inr (Some ys)" "receipts_state ys = Inr st" for ys st
      using r that xs ne receipts_state_mined [of E T xs ys] by (cases st) (auto simp: evidence_def)
    then show "case r of Inl e \<Rightarrow> \<forall>st. Inl e = Inr st \<longrightarrow> evidence E T ts st
      | Inr x \<Rightarrow> wp (\<lambda>_ _. True) (?k x) (\<lambda>r _. \<forall>st. r = Inr st \<longrightarrow> evidence E T ts st) u"
      by (auto simp: evidence_def [of _ _ _ Tx_unknown] split: sum.splits option.splits)
  qed simp
  then show ?thesis using xs by (simp add: transaction_state_def)
next
  case False
  then show ?thesis by (auto simp: transaction_state_def evidence_def split: sum.splits)
qed

text \<open>
  C36. A recorded submission is declared failed only on evidence from the chain: the record names
  at least one transaction, and for every one of them the recovery RPC returned a mined receipt
  with status 0. It is declared successful only if the RPC returned a receipt with status 1 for
  one of them.
\<close>

theorem transaction_state_evidence:
  assumes "result (transaction_state E ts) s = Inr st"
  shows "evidence E (set (calls (transaction_state E ts) s)) ts st"
  using transaction_state_mined [of "set (calls (transaction_state E ts) s)" E ts s] assms
  by (simp add: traced_def wp_def)

theorem transaction_state_evidence_witness:
  "\<exists>T. mined (scenario_env 0) T 0 (JStr (hash_of (CHR ''7'')))"
proof -
  let ?s = "(scenario_state [])\<lparr>identity := Some scenario_ident\<rparr>" and ?ts = "JArr [JStr (hash_of (CHR ''7''))]"
  have "result (transaction_state (scenario_env 0) ?ts) ?s = Inr Tx_failed" by code_simp
  from transaction_state_evidence [OF this] show ?thesis by (auto simp: evidence_def)
qed

end
