(* ===== verification/Treasury.thy ===== *)
theory Treasury
  imports Recovery
begin

text \<open>
  gateway/sessions.py: withdrawals of eligible MOR (\<open>treasury\<close>): earlier withdrawals are settled
  first, from the native journal or the chain, and a new one is journaled before it is submitted.
\<close>

section \<open>Withdrawals\<close>

datatype treasury_result = Nothing_due | Skipped | Withdrawn operation

text \<open>\<open>progress.get("http_status") == 200\<close>, true of the float as well.\<close>

definition is_200 :: "json \<Rightarrow> bool" where
  "is_200 j = (j = JInt 200 \<or> j = JFloat (Finite 200))"

definition settle_by_receipt :: "env \<Rightarrow> operation \<Rightarrow> unit prog" where
  "settle_by_receipt E op =
    bindP (transaction_state E (op_transactions op)) (\<lambda>st.
    bindP (getP clock) (\<lambda>now.
    case st of
      Tx_succeeded \<Rightarrow> save_opP (op\<lparr>op_state := Succeeded, op_note := Some ''Withdrawal confirmed'', finished_at := Some now\<rparr>)
    | Tx_failed \<Rightarrow> save_opP (op\<lparr>op_state := Op_failed,
        op_note := Some ''Withdrawal reverted; will retry after backoff'', finished_at := Some now\<rparr>)
    | _ \<Rightarrow> raiseP (err ''withdrawal_pending'')))"

definition settle_withdrawal :: "env \<Rightarrow> operation \<Rightarrow> unit prog" where
  "settle_withdrawal E op =
    (if op_kind op \<noteq> Withdraw \<or> op_state op \<notin> {Uncertain, Pending, Submitting} then retP ()
     else bindP (journal E (Some (op_id op))) (\<lambda>progress.
       case progress of
         None \<Rightarrow> settle_by_receipt E op
       | Some p \<Rightarrow>
           (let op' = op\<lparr>op_transactions := jget_or ''transactions'' (JArr []) p\<rparr>
            in bindP (getP clock) (\<lambda>now.
              if truthy (jget_null ''completed'' p) \<and> is_200 (jget_null ''http_status'' p)
              then save_opP (op'\<lparr>op_state := Succeeded, finished_at := Some now,
                     op_note := Some ''Native journal confirms mined withdrawal''\<rparr>)
              else if journal_not_submitted p
              then save_opP (op'\<lparr>op_state := Op_failed,
                     op_note := Some ''Native journal confirms no withdrawal submission''\<rparr>)
              else thenP (save_opP op') (settle_by_receipt E op')))))"

definition record_treasury :: "env \<Rightarrow> (int \<times> int \<times> int \<times> int) prog" where
  "record_treasury E =
    bindP (stakes E) (\<lambda>(available, hold).
    bindP (balances E) (\<lambda>(mor, eth).
    bindP (getP clock) (\<lambda>now.
    thenP (put_settingP ''treasury'' (DTreasury available hold mor eth now)) (retP (available, hold, mor, eth)))))"

definition last_withdrawal :: "database \<Rightarrow> time" where
  "last_withdrawal rs = (case db_get rs KSettings ''last_withdrawal'' of Some (DLast_withdrawal t) \<Rightarrow> t | _ \<Rightarrow> 0)"

definition withdrawal_op :: "string \<Rightarrow> time \<Rightarrow> int \<Rightarrow> operation" where
  "withdrawal_op i now available = \<lparr>op_id = i, op_kind = Withdraw, op_state = Submitting, op_created = now,
     op_transactions = JArr [], eligible_before_wei = available,
     op_note = Some ''Withdrawing eligible MOR to this node's wallet'', finished_at = None\<rparr>"

text \<open>The handlers around the withdrawal; once it has succeeded its row is left as it is.\<close>

definition withdraw_failed :: "operation \<Rightarrow> exn \<Rightarrow> treasury_result prog" where
  "withdraw_failed op e =
    thenP (whenP (op_state op \<noteq> Succeeded)
      (save_opP (case e of
         Gateway g \<Rightarrow> op\<lparr>op_state := (if outcome g = Not_submitted then Op_failed else Uncertain),
           op_transactions := txs g, op_note := Some (code g)\<rparr>
       | _ \<Rightarrow> op\<lparr>op_state := Uncertain\<rparr>)))
    (raiseP e)"

definition withdraw :: "env \<Rightarrow> int \<Rightarrow> treasury_result prog" where
  "withdraw E available =
    bindP (uuidP E) (\<lambda>i.
    bindP (getP clock) (\<lambda>now.
    let op = withdrawal_op i now available
    in thenP (save_opP op)
      (thenP (put_settingP ''last_withdrawal'' (DLast_withdrawal now))
      (tryP (bindP (node_withdraw E i) (\<lambda>r.
              if HASH (py_str (jget_or ''tx'' (JStr []) r)) then retP r else raiseP (err ''node_protocol'')))
        (withdraw_failed op)
        (\<lambda>r. bindP (getP clock) (\<lambda>done_at.
           let op' = op\<lparr>op_state := Succeeded, finished_at := Some done_at,
                 op_transactions := JArr [JObj [(''kind'', JStr ''withdraw''), (''hash'', jget_null ''tx'' r)]],
                 op_note := Some ''MOR withdrawal confirmed''\<rparr>
           in thenP (save_opP op')
             (tryP (record_treasury E) (withdraw_failed op')
               (\<lambda>_. thenP (eventP E (Mor_withdrawal i Succeeded)) (retP (Withdrawn op'))))))))))"

definition treasury_due :: "env \<Rightarrow> bool \<Rightarrow> recovery_policy \<Rightarrow> int \<times> int \<times> int \<times> int \<Rightarrow> treasury_result prog" where
  "treasury_due E manual rec funds =
    (case funds of (available, hold, mor, eth) \<Rightarrow>
     bindP (getP (\<lambda>s. (clock s - last_withdrawal (db s) < of_int (withdrawal_interval_seconds rec),
        min_eth_wei (budget (db_policy (db s))),
        \<exists>r \<in> set (db_sessions (db s)). wallet_pending (sstate r)))) (\<lambda>(recent, gas, pending).
     if \<not> manual \<and> \<not> auto_withdraw rec then retP Nothing_due
     else if \<not> manual \<and> recent then retP Nothing_due
     else if available < max 1 (withdrawal_min_wei rec) then retP Skipped
     else if eth < gas then raiseP (err ''gas_headroom'')
     else if pending then raiseP (err ''wallet_pending'')
     else withdraw E available))"

definition treasury :: "env \<Rightarrow> bool \<Rightarrow> treasury_result prog" where
  "treasury E manual =
    lockedP E
      (bindP (getP maintenance) (\<lambda>maint.
       if maint then retP Nothing_due
       else bindP (verify_identity E) (\<lambda>_.
         bindP (getP (\<lambda>s. (recovery (db_policy (db s)), db_operations (db s)))) (\<lambda>(rec, ops).
         thenP (forP (settle_withdrawal E) ops)
         (bindP (record_treasury E) (treasury_due E manual rec))))))"

context quiet_interference
begin

lemma record_funds: "rely E R \<Longrightarrow> stays R background_call (record_treasury E)"
  unfolding record_treasury_def case_prod_beta by (intro local_rules stake balance setting) simp_all

end

section \<open>No two withdrawals\<close>

definition pending_ops :: "gw \<Rightarrow> operation set" where
  "pending_ops s = {op \<in> set (db_operations (db s)). withdrawal_pending op}"

text \<open>The contract of withdrawals: nobody without the wallet lock starts one.\<close>

definition no_new_withdrawals :: "gw \<Rightarrow> gw \<Rightarrow> bool" where
  "no_new_withdrawals s t = (db_wf (db s) \<longrightarrow> db_wf (db t) \<and> pending_ops t \<subseteq> pending_ops s)"

interpretation wd: quiet_interference no_new_withdrawals
  by unfold_locales (auto simp: no_new_withdrawals_def pending_ops_def)

lemma pending_put:
  assumes "db_wf (db s)"
  shows "pending_ops (s\<lparr>db := put_operation op (db s)\<rparr>) =
    {o' \<in> pending_ops s. op_id o' \<noteq> op_id op} \<union> (if withdrawal_pending op then {op} else {})"
  using assms by (auto simp: pending_ops_def in_db_operations split: if_splits)

text \<open>The state while one operation is being settled, and after it.\<close>

definition others :: "operation \<Rightarrow> gw \<Rightarrow> gw \<Rightarrow> bool" where
  "others op s t = (db_wf (db t) \<and> {o' \<in> pending_ops t. op_id o' \<noteq> op_id op} \<subseteq> pending_ops s)"

definition settled :: "operation \<Rightarrow> gw \<Rightarrow> gw \<Rightarrow> bool" where
  "settled op s t = (db_wf (db t) \<and> pending_ops t \<subseteq> {o' \<in> pending_ops s. op_id o' \<noteq> op_id op})"

lemma others_step: "others op s t \<Longrightarrow> no_new_withdrawals t u \<Longrightarrow> others op s u"
  by (auto simp: others_def no_new_withdrawals_def)

lemma others_save: "others op s t \<Longrightarrow> op_id op' = op_id op \<Longrightarrow> others op s (t\<lparr>db := put_operation op' (db t)\<rparr>)"
  by (auto simp: others_def pending_put)

lemma settled_save:
  "others op s t \<Longrightarrow> op_id op' = op_id op \<Longrightarrow> \<not> withdrawal_pending op' \<Longrightarrow> settled op s (t\<lparr>db := put_operation op' (db t)\<rparr>)"
  by (auto simp: others_def settled_def pending_put)

abbreviation settles :: "operation \<Rightarrow> gw \<Rightarrow> exn + unit \<Rightarrow> gw \<Rightarrow> bool" where
  "settles op s r t \<equiv> (r = Inr () \<longrightarrow> settled op s t)"

lemma settle_by_receipt_settles:
  assumes rely: "rely E no_new_withdrawals" and G: "\<And>c u. background_call c \<Longrightarrow> G c u"
    and t: "others op s t" "op_id op' = op_id op"
  shows "wp G (settle_by_receipt E op') (settles op s) t"
  unfolding settle_by_receipt_def
proof (rule wd.use_bind [OF wd.tx_state [OF rely]])
  fix st u assume "no_new_withdrawals t u"
  then have u: "others op s u" using t(1) by (rule others_step [rotated])
  show "wp G (bindP (getP clock) (\<lambda>now. case st of
      Tx_succeeded \<Rightarrow> save_opP (op'\<lparr>op_state := Succeeded, op_note := Some ''Withdrawal confirmed'', finished_at := Some now\<rparr>)
    | Tx_failed \<Rightarrow> save_opP (op'\<lparr>op_state := Op_failed,
        op_note := Some ''Withdrawal reverted; will retry after backoff'', finished_at := Some now\<rparr>)
    | _ \<Rightarrow> raiseP (err ''withdrawal_pending''))) (settles op s) u"
    by (cases st) (auto simp: withdrawal_pending_def t(2) intro!: settled_save [OF u])
qed (auto intro: G)

lemma settle_withdrawal_settles:
  assumes rely: "rely E no_new_withdrawals" and G: "\<And>c u. background_call c \<Longrightarrow> G c u" and wf: "db_wf (db s)"
    and op: "withdrawal_pending op"
  shows "wp G (settle_withdrawal E op) (settles op s) s"
proof -
  have due: "\<not> (op_kind op \<noteq> Withdraw \<or> op_state op \<notin> {Uncertain, Pending, Submitting})"
    using op by (auto simp: withdrawal_pending_def)
  have "others op s s" using wf by (auto simp: others_def)
  then have others: "others op s u" if "no_new_withdrawals s u" for u using that by (rule others_step)
  show ?thesis unfolding settle_withdrawal_def if_not_P [OF due]
  proof (rule wd.use_bind [OF wd.read_journal [OF rely]])
    fix progress u assume "no_new_withdrawals s u"
    then have u: "others op s u" by (rule others)
    have saved: "wp G (settle_by_receipt E op') (settles op s) (u\<lparr>db := put_operation op' (db u)\<rparr>)"
      if "op_id op' = op_id op" for op'
      using that by (intro settle_by_receipt_settles [OF rely] others_save [OF u] G)
    have plain: "wp G (settle_by_receipt E op) (settles op s) u"
      by (rule settle_by_receipt_settles [OF rely G u HOL.refl])
    show "wp G (case progress of
         None \<Rightarrow> settle_by_receipt E op
       | Some p \<Rightarrow>
           (let op' = op\<lparr>op_transactions := jget_or ''transactions'' (JArr []) p\<rparr>
            in bindP (getP clock) (\<lambda>now.
              if truthy (jget_null ''completed'' p) \<and> is_200 (jget_null ''http_status'' p)
              then save_opP (op'\<lparr>op_state := Succeeded, finished_at := Some now,
                     op_note := Some ''Native journal confirms mined withdrawal''\<rparr>)
              else if journal_not_submitted p
              then save_opP (op'\<lparr>op_state := Op_failed,
                     op_note := Some ''Native journal confirms no withdrawal submission''\<rparr>)
              else thenP (save_opP op') (settle_by_receipt E op')))) (settles op s) u"
      using plain
      by (auto simp: Let_def withdrawal_pending_def split: option.splits intro!: settled_save [OF u] saved)
  qed (auto intro: G)
qed

lemma settle_all:
  assumes rely: "rely E no_new_withdrawals" and G: "\<And>c u. background_call c \<Longrightarrow> G c u"
  shows "db_wf (db s) \<Longrightarrow> wp G (forP (settle_withdrawal E) ops)
     (\<lambda>r t. r = Inr () \<longrightarrow> db_wf (db t) \<and> pending_ops t \<subseteq> pending_ops s - {op. op_id op \<in> op_id ` {o' \<in> set ops. withdrawal_pending o'}}) s"
proof (induction ops arbitrary: s)
  case (Cons op ops)
  have step: "wp G (settle_withdrawal E op) (\<lambda>r t. r = Inr () \<longrightarrow> db_wf (db t) \<and> pending_ops t \<subseteq> pending_ops s \<and>
      (withdrawal_pending op \<longrightarrow> op_id op \<notin> op_id ` pending_ops t)) s"
  proof (cases "withdrawal_pending op")
    case True
    show ?thesis by (rule wp_mono [OF settle_withdrawal_settles [OF rely G Cons.prems True]]) (auto simp: settled_def)
  next
    case False
    then show ?thesis using Cons.prems by (auto simp: settle_withdrawal_def withdrawal_pending_def)
  qed
  show ?case unfolding forP.simps wp_then
  proof (rule wp_mono [OF step])
    fix r t assume r: "r = Inr () \<longrightarrow> db_wf (db t) \<and> pending_ops t \<subseteq> pending_ops s \<and>
      (withdrawal_pending op \<longrightarrow> op_id op \<notin> op_id ` pending_ops t)"
    let ?Q = "\<lambda>r t. r = Inr () \<longrightarrow> db_wf (db t) \<and>
      pending_ops t \<subseteq> pending_ops s - {o'. op_id o' \<in> op_id ` {x \<in> set (op # ops). withdrawal_pending x}}"
    have "wp G (forP (settle_withdrawal E) ops) ?Q t" if ok: "r = Inr ()"
    proof -
      from r ok have t: "db_wf (db t)" "pending_ops t \<subseteq> pending_ops s"
        "withdrawal_pending op \<Longrightarrow> op_id op \<notin> op_id ` pending_ops t" by auto
      have less: "pending_ops t - {o'. op_id o' \<in> op_id ` {x \<in> set ops. withdrawal_pending x}} \<subseteq>
          pending_ops s - {o'. op_id o' \<in> op_id ` {x \<in> set (op # ops). withdrawal_pending x}}"
      proof
        fix x assume x: "x \<in> pending_ops t - {o'. op_id o' \<in> op_id ` {x \<in> set ops. withdrawal_pending x}}"
        then have "withdrawal_pending op \<Longrightarrow> op_id x \<noteq> op_id op" using t(3) by (metis DiffD1 imageI)
        with x t(2) show "x \<in> pending_ops s - {o'. op_id o' \<in> op_id ` {x \<in> set (op # ops). withdrawal_pending x}}" by auto
      qed
      show ?thesis by (rule wp_mono [OF Cons.IH [OF t(1)]]) (use less in \<open>simp, blast\<close>)
    qed
    then show "case r of Inl e \<Rightarrow> ?Q (Inl e) t | Inr x \<Rightarrow> wp G (forP (settle_withdrawal E) ops) ?Q t"
      by (cases r) auto
  qed
qed auto

text \<open>What holds whenever a withdrawal is submitted.\<close>

definition withdraw_guard :: "call \<Rightarrow> gw \<Rightarrow> bool" where
  "withdraw_guard c u =
    (wallet_call c \<longrightarrow>
      (\<exists>k op. c = Post_withdraw k \<and> get_operation (db u) k = Some op \<and> op_id op = k \<and> op_state op = Submitting \<and>
         1 \<le> eligible_before_wei op \<and> pending_ops u \<subseteq> {op} \<and>
         (\<forall>r \<in> set (db_sessions (db u)). \<not> wallet_pending (sstate r))))"

lemma wp_withdraw_reads: "stays anything background_call p \<Longrightarrow> wp withdraw_guard p (\<lambda>_ _. True) s"
  by (erule any.use) (simp_all add: withdraw_guard_def)

lemma withdraw_submits:
  assumes "db_wf (db s)" and "pending_ops s = {}" and "1 \<le> available"
    and "\<forall>r \<in> set (db_sessions (db s)). \<not> wallet_pending (sstate r)"
  shows "wp withdraw_guard (withdraw E available) (\<lambda>_ _. True) s"
proof -
  let ?op = "withdrawal_op (uuid E (uuids s)) (clock s) available"
  let ?u = "\<lambda>d. s\<lparr>uuids := Suc (uuids s), db := db_put KSettings ''last_withdrawal'' d (put_operation ?op (db s))\<rparr>"
  have "pending_ops (?u d) = pending_ops (s\<lparr>db := put_operation ?op (db s)\<rparr>)" for d
    by (simp add: pending_ops_def)
  then have "pending_ops (?u d) \<subseteq> {?op}" for d
    using assms(1,2) by (simp add: pending_put)
  then have g: "withdraw_guard (Post_withdraw (uuid E (uuids s))) (?u d)" for d
    using assms(3,4) unfolding withdraw_guard_def
    by (intro impI exI [of _ "uuid E (uuids s)"] exI [of _ ?op]) (simp add: withdrawal_op_def)
  have failed: "wp withdraw_guard (withdraw_failed op e) (\<lambda>_ _. True) u" for op e u
    by (simp add: withdraw_failed_def)
  have funds: "wp withdraw_guard (record_treasury E) (\<lambda>_ _. True) u" for u
    by (intro wp_withdraw_reads any.record_funds rely_anything)
  have "wp withdraw_guard (tryP (record_treasury E) (withdraw_failed op)
      (\<lambda>_. thenP (eventP E a) (retP x))) (\<lambda>_ _. True) u" for op a x u
    unfolding wp_try by (rule wp_mono [OF funds]) (auto simp: failed split: sum.splits)
  then show ?thesis
    unfolding withdraw_def node_withdraw_def node_request_def Let_def
    by (auto simp: g failed simp del: wp_try simp: wp_try [of _ "bindP _ _"] split: sum.splits)
qed

lemma treasury_due_guard:
  assumes "db_wf (db s)" and "pending_ops s = {}"
  shows "wp withdraw_guard (treasury_due E manual rec funds) (\<lambda>_ _. True) s"
proof -
  obtain available hold mor eth where f: "funds = (available, hold, mor, eth)" by (cases funds) auto
  have "wp withdraw_guard (withdraw E available) (\<lambda>_ _. True) s"
    if "\<not> available < max 1 (withdrawal_min_wei rec)" "\<not> (\<exists>r \<in> set (db_sessions (db s)). wallet_pending (sstate r))"
    using that assms by (intro withdraw_submits) auto
  then show ?thesis unfolding treasury_due_def f prod.case wp_get_bind by (intro wp_ifI) simp_all
qed


lemma treasury_run:
  "list_ex (\<lambda>(c, u). wallet_call c) (calls (treasury (scenario_env 0) True) (scenario_state []))"
  by code_simp


end
