(* ===== verification/Maintenance.thy ===== *)
theory Maintenance
  imports Treasury
begin

text \<open>
  gateway/sessions.py: the background work of the session manager. \<open>recover\<close> runs at start-up,
  \<open>tick\<close> periodically, \<open>sweep\<close> as its own task; \<open>restart\<close> and \<open>_restart\<close> drain the
  gateway and restart the node.
\<close>

section \<open>Sweep\<close>

definition sweep_step :: "env \<Rightarrow> string \<Rightarrow> unit prog \<Rightarrow> string list \<Rightarrow> string list prog" where
  "sweep_step E name work errors =
    tryP work
      (\<lambda>e. if recoverable e
         then thenP (eventP E (Recovery_error name (exn_code ''node_protocol'' e)))
           (retP (errors @ [exn_code ''Invalid response during wallet recovery'' e]))
         else raiseP e)
      (\<lambda>_. retP errors)"

definition sweep :: "env \<Rightarrow> unit prog" where
  "sweep E =
    bindP (sweep_step E ''wallet_scan'' (sweep_wallet E) []) (\<lambda>e1.
    bindP (sweep_step E ''withdrawal'' (bindP (treasury E False) (\<lambda>_. retP ())) e1) (\<lambda>e2.
    bindP (getP clock) (\<lambda>now.
    thenP (modP (\<lambda>s. s\<lparr>last_sweep := now\<rparr>))
    (thenP (put_settingP ''recovery_status'' (DRecovery_status now e2))
    (modP (\<lambda>s. s\<lparr>db := db_prune (clock s) (db s)\<rparr>))))))"

section \<open>Tick\<close>

definition row_expired :: "time \<Rightarrow> srow \<Rightarrow> bool" where
  "row_expired now row = (ends_at row \<noteq> 0 \<and> of_int (ends_at row) \<le> now)"

definition row_idle :: "time \<Rightarrow> model_policy option \<Rightarrow> srow \<Rightarrow> bool" where
  "row_idle now m row =
    (case m of None \<Rightarrow> False | Some x \<Rightarrow> retention x = On_demand \<and> of_int (idle_seconds x) \<le> now - last_used row)"

definition warm_limit :: "model_policy \<Rightarrow> int option" where
  "warm_limit m = (if warm_until m = Some 0 then None else warm_until m)"

definition past_deadline :: "time \<Rightarrow> model_policy option \<Rightarrow> bool" where
  "past_deadline now m =
    (case m of None \<Rightarrow> False
     | Some x \<Rightarrow> retention x = Maintain \<and> (case warm_limit x of None \<Rightarrow> False | Some t \<Rightarrow> of_int t \<le> now))"

definition should_retire :: "policy \<Rightarrow> time \<Rightarrow> srow \<Rightarrow> bool" where
  "should_retire pol now row =
    (let m = resolve pol (row_model row)
     in m = None \<or> \<not> permits (providers pol) (row_provider row) \<or> row_idle now m row \<or> row_expired now row \<or>
        past_deadline now m)"

definition retire_row :: "policy \<Rightarrow> srow \<Rightarrow> unit prog" where
  "retire_row pol row =
    bindP (getP (\<lambda>s. (sid row \<in> active s \<or> clock s < retry_at row, clock s))) (\<lambda>(skip, now).
    if skip then retP ()
    else (let retire = (sstate row = Open \<and> should_retire pol now row);
              row' = (if retire then row\<lparr>sstate := Draining, close_reason := Some Retired_by_policy\<rparr> else row)
      in thenP (whenP retire (saveP row'))
         (whenP (sstate row' \<in> {Draining, Orphaned}) (schedule_close row'))))"

definition wants_warm :: "model_policy \<Rightarrow> gw \<Rightarrow> bool" where
  "wants_warm m s =
    (enabled m \<and> retention m = Maintain \<and>
     (case warm_limit m of None \<Rightarrow> True | Some t \<Rightarrow> clock s < of_int t) \<and>
     openers s (model_id m) = None \<and> opening_error (model_id m) s = None)"

definition near_expiry :: "config \<Rightarrow> time \<Rightarrow> srow \<Rightarrow> bool" where
  "near_expiry c now row = (of_int (ends_at row) \<le> now + request_timeout c + 15)"

definition refresh_row :: "env \<Rightarrow> string \<Rightarrow> srow \<Rightarrow> unit prog" where
  "refresh_row E m row =
    bindP (getP clock) (\<lambda>now.
    if row_model row = m \<and> sstate row = Open \<and> near_expiry (cfg E) now row
    then (let row' = row\<lparr>sstate := Draining\<rparr> in thenP (saveP row') (schedule_close row'))
    else retP ())"

definition keep_warm :: "env \<Rightarrow> model_policy \<Rightarrow> unit prog" where
  "keep_warm E m =
    bindP (getP (wants_warm m)) (\<lambda>wants.
    if \<not> wants then retP ()
    else bindP (getP (\<lambda>s. \<exists>r \<in> set (db_sessions (db s)).
        row_model r = model_id m \<and> sstate r = Open \<and> sid r \<notin> active s)) (\<lambda>idle.
      if \<not> idle then bindP (start_open (model_id m)) (\<lambda>_. retP ())
      else for_sessions (refresh_row E (model_id m))))"

definition sweep_due :: "config \<Rightarrow> policy \<Rightarrow> gw \<Rightarrow> bool" where
  "sweep_due c pol s =
    (recovery_enabled (recovery pol) \<and> recovery_interval c \<le> clock s - last_sweep s \<and>
     (case sweep_task s of None \<Rightarrow> True | Some t \<Rightarrow> t \<in> done_tasks s))"

definition start_sweep :: "env \<Rightarrow> policy \<Rightarrow> unit prog" where
  "start_sweep E pol =
    bindP (getP (sweep_due (cfg E) pol)) (\<lambda>due.
    if due then bindP (spawnP Sweep_job) (\<lambda>t. modP (\<lambda>s. s\<lparr>sweep_task := Some t\<rparr>)) else retP ())"

text \<open>
  \<open>if self.store.error\<close>, and \<open>Store.probe_writable\<close>: a fresh nonce is written and read back. In
  this model, where writes succeed, the probe always passes.
\<close>

definition storage_failed :: "gw \<Rightarrow> bool" where
  "storage_failed s = (case store_error s of None \<Rightarrow> False | Some m \<Rightarrow> m \<noteq> [])"

definition probe_writable :: "env \<Rightarrow> unit prog" where
  "probe_writable E = bindP (uuidP E) (\<lambda>nonce.
     thenP (put_settingP ''storage_health'' (DStorage_health nonce))
     (bindP (getP (\<lambda>s. db_get (db s) KSettings ''storage_health'' = Some (DStorage_health nonce))) (\<lambda>same.
      if same then retP () else raiseP (Python DatabaseError))))"

definition probe_failed_storage :: "env \<Rightarrow> unit prog" where
  "probe_failed_storage E = bindP (getP storage_failed) (\<lambda>failed. whenP failed (probe_writable E))"

definition clear_storage_error :: "env \<Rightarrow> unit prog" where
  "clear_storage_error E = bindP (getP storage_failed) (\<lambda>failed.
     whenP failed (thenP (probe_writable E) (modP (\<lambda>s. s\<lparr>store_error := None\<rparr>))))"

definition tick :: "env \<Rightarrow> unit prog" where
  "tick E =
    bindP (getP maintenance) (\<lambda>maint.
    if maint then retP ()
    else thenP (probe_failed_storage E) (bindP (verify_identity E) (\<lambda>_.
      bindP (balances E) (\<lambda>_.
      thenP (reconcile E)
      (thenP rebalance
      (bindP (getP (\<lambda>s. db_policy (db s))) (\<lambda>pol.
      thenP (for_sessions (retire_row pol))
      (thenP (whenP (\<not> paused pol) (forP (keep_warm E) (models pol)))
      (thenP (start_sweep E pol) (clear_storage_error E))))))))))"

section \<open>Recovery at start-up\<close>

definition recover_row :: "srow \<Rightarrow> unit prog" where
  "recover_row row =
    (if sstate row = Opening then saveP (row\<lparr>sstate := Open_unknown\<rparr>)
     else if sstate row = Closing then saveP (row\<lparr>sstate := Close_pending\<rparr>)
     else retP ())"

text \<open>True: the helper confirmed the restart and the loop continues with the next operation.\<close>

definition restart_confirmed :: "env \<Rightarrow> operation \<Rightarrow> bool prog" where
  "restart_confirmed E op =
    (if op_kind op = Withdraw \<or> op_state op \<notin> {Queued, Op_draining, Restarting, Op_interrupted} then retP False
     else catchP
       (bindP (helper_request E (Helper_operation (op_id op))) (\<lambda>r.
        if jget_null ''state'' r \<noteq> JStr ''succeeded'' then retP False
        else bindP (verify_identity E) (\<lambda>_.
          bindP (balances E) (\<lambda>_.
          thenP (save_opP (op\<lparr>op_state := Succeeded,
             op_note := Some ''Restart completion recovered from local helper''\<rparr>)) (retP True)))))
       (\<lambda>e. case e of Gateway g \<Rightarrow> retP False | _ \<Rightarrow> raiseP e))"

definition recover_op :: "env \<Rightarrow> operation \<Rightarrow> unit prog" where
  "recover_op E op =
    bindP (restart_confirmed E op) (\<lambda>confirmed.
    if confirmed then retP ()
    else if op_kind op = Withdraw \<and> op_state op \<in> {Queued, Submitting}
    then save_opP (op\<lparr>op_state := Uncertain, op_note := Some ''Checking an interrupted MOR withdrawal''\<rparr>)
    else if op_kind op \<noteq> Withdraw \<and> op_state op \<in> {Queued, Op_draining, Restarting}
    then save_opP (op\<lparr>op_state := Op_interrupted,
      op_note := Some ''Gateway restarted; checking node and effective configuration''\<rparr>)
    else retP ())"

definition recover :: "env \<Rightarrow> unit prog" where
  "recover E =
    thenP (modP (\<lambda>s. s\<lparr>db := interrupt_requests (db s)\<rparr>))
    (thenP (for_sessions recover_row)
    (thenP (bindP (getP (\<lambda>s. db_operations (db s))) (forP (recover_op E)))
    (catchP (bindP (verify_identity E) (\<lambda>_. reconcile E))
      (\<lambda>e. case e of Gateway g \<Rightarrow> modP (\<lambda>s. s\<lparr>last_error := Some (code g)\<rparr>) | _ \<Rightarrow> raiseP e))))"

text \<open>One round of the loop of \<open>run\<close>; \<open>CancelledError\<close> ends the loop.\<close>

definition run_round :: "env \<Rightarrow> time \<Rightarrow> unit prog" where
  "run_round E tick_seconds =
    thenP (catchP (tick E)
      (\<lambda>e. if e = Cancelled then raiseP e
         else modP (\<lambda>s. s\<lparr>ready := False, last_error :=
           Some (exn_code ''Maintenance needs attention; check storage and node health'' e)\<rparr>)))
    (bindP (callP E (Sleep tick_seconds)) (\<lambda>_. retP ()))"

text \<open>\<open>run\<close>: recovery, then rounds until the task is cancelled; here a number of them.\<close>

primrec run_rounds :: "nat \<Rightarrow> env \<Rightarrow> time \<Rightarrow> unit prog" where
  "run_rounds 0 E tick_seconds = retP ()"
| "run_rounds (Suc n) E tick_seconds = thenP (run_round E tick_seconds) (run_rounds n E tick_seconds)"

definition run :: "nat \<Rightarrow> env \<Rightarrow> time \<Rightarrow> unit prog" where
  "run n E tick_seconds = thenP (recover E) (run_rounds n E tick_seconds)"

text \<open>
  The callback of a finished background task: a failure is reported and recorded, a cancelled task
  is only forgotten.
\<close>

definition finished :: "env \<Rightarrow> nat \<Rightarrow> exn + unit \<Rightarrow> unit prog" where
  "finished E t res =
    thenP (modP (\<lambda>s. s\<lparr>jobs := filter (\<lambda>j. fst j \<noteq> t) (jobs s), done_tasks := insert t (done_tasks s)\<rparr>))
      (case res of
         Inr _ \<Rightarrow> retP ()
       | Inl e \<Rightarrow> if e = Cancelled then retP ()
           else thenP (modP (\<lambda>s. s\<lparr>last_error := Some (exn_code ''Background work failed; inspect activity'' e)\<rparr>))
             (eventP E (Background_error (exn_code ''internal_error'' e))))"

section \<open>Restarting the node\<close>

definition restart_op :: "string \<Rightarrow> time \<Rightarrow> bool \<Rightarrow> operation" where
  "restart_op i now apply_rating = \<lparr>op_id = i, op_kind = (if apply_rating then Apply_rating else Restart),
     op_state = Queued, op_created = now, op_transactions = JArr [], eligible_before_wei = 0,
     op_note = Some ''Waiting for active requests and wallet operations'', finished_at = None\<rparr>"

definition restart :: "env \<Rightarrow> bool \<Rightarrow> bool \<Rightarrow> operation prog" where
  "restart E immediate apply_rating =
    bindP (getP maintenance) (\<lambda>maint.
    if maint then raiseP (err_status ''restart_in_progress'' 409)
    else if \<not> helper_configured (cfg E) then raiseP (err ''helper_missing'')
    else thenP (modP (\<lambda>s. s\<lparr>maintenance := True\<rparr>))
      (bindP (uuidP E) (\<lambda>i.
       bindP (getP clock) (\<lambda>now.
       let op = restart_op i now apply_rating
       in thenP (save_opP op) (bindP (spawnP (Restart_job i immediate apply_rating)) (\<lambda>_. retP op))))))"

text \<open>
  \<open>async with asyncio.timeout(...)\<close> around the drain loop and the lock: the deadline makes the
  await that is under way end in a timeout. The first argument bounds the rounds of the loop; False
  is the timeout, or a drain that is still waiting after the last round.
\<close>

fun drain :: "nat \<Rightarrow> env \<Rightarrow> bool \<Rightarrow> bool prog" where
  "drain 0 E immediate = retP False"
| "drain (Suc n) E immediate =
    bindP (getP (\<lambda>s. active s \<noteq> {} \<and> \<not> immediate)) (\<lambda>busy.
    if busy then bindP (callP E (Sleep (1/20))) (\<lambda>r. if r = Task_timeout then retP False else drain n E immediate)
    else bindP (callP E Await_lock) (\<lambda>r.
      if r = Task_timeout then retP False
      else thenP (modP (\<lambda>s. s\<lparr>locked := True\<rparr>)) (retP True)))"

definition restart_node :: "env \<Rightarrow> policy \<Rightarrow> operation \<Rightarrow> bool \<Rightarrow> unit prog" where
  "restart_node E pol op apply_rating =
    bindP (helper_request E (Helper_restart (if apply_rating then Some (rating_of pol) else None) (op_id op))) (\<lambda>r.
    bindP (verify_identity E) (\<lambda>_.
    bindP (balances E) (\<lambda>_.
    thenP (reconcile E)
    (whenP apply_rating (put_settingP ''applied_rating''
      (DApplied_rating (revision pol) (rating_of pol) (jget_null ''rating_hash'' r)))))))"

text \<open>The final block: the operation is stored with its outcome, and admission resumes.\<close>

definition restart_end :: "env \<Rightarrow> operation \<Rightarrow> unit prog" where
  "restart_end E op =
    thenP (save_opP op)
    (thenP (eventP E (Node_restart (op_id op) (op_state op))) (modP (\<lambda>s. s\<lparr>maintenance := False\<rparr>)))"

definition restart_failed :: "env \<Rightarrow> operation \<Rightarrow> exn \<Rightarrow> unit prog" where
  "restart_failed E op e =
    (if e = Cancelled then thenP (restart_end E op) (raiseP e)
     else restart_end E (op\<lparr>op_state := Op_failed,
       op_note := Some (exn_code ''Restart failed; inspect helper logs'' e)\<rparr>))"

definition do_restart :: "nat \<Rightarrow> env \<Rightarrow> operation \<Rightarrow> bool \<Rightarrow> bool \<Rightarrow> unit prog" where
  "do_restart rounds E op immediate apply_rating =
    bindP (getP (\<lambda>s. db_policy (db s))) (\<lambda>pol.
    let op1 = op\<lparr>op_state := Op_draining\<rparr>;
        op2 = op1\<lparr>op_state := Restarting, op_note := Some ''Restarting the local node''\<rparr>
    in thenP (save_opP op1)
      (tryP (drain rounds E immediate)
        (restart_failed E op1)
        (\<lambda>drained.
           if \<not> drained
           then restart_end E (op1\<lparr>op_state := Op_failed,
             op_note := Some ''Requests or wallet operations did not drain; no restart was performed''\<rparr>)
           else thenP (save_opP op2)
             (tryP (finallyP (restart_node E pol op2 apply_rating) (\<lambda>s. s\<lparr>locked := False\<rparr>))
               (restart_failed E op2)
               (\<lambda>_. restart_end E (op2\<lparr>op_state := Succeeded,
                  op_note := Some ''Node and chain are ready; admission resumed''\<rparr>))))))"

section \<open>Pool limits\<close>

text \<open>The rows the loop of \<open>rebalance\<close> drains and the ones it keeps open.\<close>

fun dropped :: "policy \<Rightarrow> srow list \<Rightarrow> int \<Rightarrow> (string \<Rightarrow> int) \<Rightarrow> srow list" where
  "dropped pol [] tot counts = []"
| "dropped pol (row # rows) tot counts =
    (if sstate row \<noteq> Open then dropped pol rows tot counts
     else if over_limit pol row tot counts then row # dropped pol rows tot counts
     else dropped pol rows (tot + 1) (counts(row_model row := counts (row_model row) + 1)))"

fun kept :: "policy \<Rightarrow> srow list \<Rightarrow> int \<Rightarrow> (string \<Rightarrow> int) \<Rightarrow> srow list" where
  "kept pol [] tot counts = []"
| "kept pol (row # rows) tot counts =
    (if sstate row \<noteq> Open then kept pol rows tot counts
     else if over_limit pol row tot counts then kept pol rows tot counts
     else row # kept pol rows (tot + 1) (counts(row_model row := counts (row_model row) + 1)))"

definition drained :: "srow \<Rightarrow> srow" where
  "drained row = row\<lparr>sstate := Draining, close_reason := Some Pool_limit\<rparr>"

lemma drained_simps [simp]: "sid (drained row) = sid row" "sstate (drained row) = Draining"
  by (simp_all add: drained_def)

lemma wp_schedule_close:
  "(\<And>s'. db s' = db s \<Longrightarrow> Q (Inr ()) s') \<Longrightarrow> wp (\<lambda>_ _. True) (schedule_close row) Q s"
  by (simp add: schedule_close_def)

lemma rebalance_rows_db:
  "db s = rs \<Longrightarrow> wp (\<lambda>_ _. True) (rebalance_rows pol rows tot counts)
     (\<lambda>r s'. r = Inr () \<and> db s' = fold put_session (map drained (dropped pol rows tot counts)) rs) s"
proof (induction rows arbitrary: s rs tot counts)
  case (Cons row rows)
  have "wp (\<lambda>_ _. True) (thenP (saveP (drained row)) (thenP (schedule_close (drained row)) (rebalance_rows pol rows tot counts)))
     (\<lambda>r s'. r = Inr () \<and> db s' = fold put_session (map drained (dropped pol rows tot counts)) (put_session (drained row) rs)) s"
    unfolding wp_then wp_save sum.case by (rule wp_schedule_close) (simp add: Cons)
  then show ?case using Cons by (simp add: Let_def drained_def [symmetric] del: wp_then)
qed simp

lemma open_rows: "set (dropped pol rows tot counts) \<union> set (kept pol rows tot counts) = {r \<in> set rows. sstate r = Open}"
proof (induction rows arbitrary: tot counts)
  case (Cons row rows)
  then have "set (dropped pol rows t c) \<union> set (kept pol rows t c) = {r \<in> set rows. sstate r = Open}" for t c by simp
  then show ?case by (simp add: Un_insert_left [symmetric] del: Un_insert_left Un_insert_right) blast
qed simp

lemma dropped_subset: "set (dropped pol rows tot counts) \<subseteq> set rows" "set (kept pol rows tot counts) \<subseteq> set rows"
  using open_rows [of pol rows tot counts] by auto

lemma kept_disjoint:
  "distinct (map sid rows) \<Longrightarrow> r \<in> set (dropped pol rows tot counts) \<Longrightarrow> q \<in> set (kept pol rows tot counts) \<Longrightarrow> sid r \<noteq> sid q"
proof (induction rows arbitrary: tot counts)
  case (Cons row rows)
  have "sid x \<noteq> sid row" if "x \<in> set (dropped pol rows t c) \<or> x \<in> set (kept pol rows t c)" for x t c
  proof -
    have "x \<in> set rows" using that dropped_subset [of pol rows t c] by blast
    then show ?thesis using Cons.prems(1) by (auto simp: image_iff)
  qed
  moreover have "sid r \<noteq> sid q" if "r \<in> set (dropped pol rows t c)" "q \<in> set (kept pol rows t c)" for t c
    using that Cons by simp
  ultimately show ?case using Cons.prems(2,3) by (simp split: if_splits) metis+
qed simp

lemma distinct_parts:
  "distinct (map sid rows) \<Longrightarrow>
    distinct (map sid (kept pol rows tot counts)) \<and> distinct (map sid (dropped pol rows tot counts))"
proof (induction rows arbitrary: tot counts)
  case (Cons row rows)
  have "sid row \<notin> sid ` set (kept pol rows t c)" "sid row \<notin> sid ` set (dropped pol rows t c)" for t c
    using dropped_subset [of pol rows t c] Cons.prems by auto
  moreover have "distinct (map sid (kept pol rows t c)) \<and> distinct (map sid (dropped pol rows t c))" for t c
    using Cons by simp
  ultimately show ?case by simp
qed simp

lemma kept_total: "tot \<le> max_sessions pol \<Longrightarrow> tot + int (length (kept pol rows tot counts)) \<le> max_sessions pol"
proof (induction rows arbitrary: tot counts)
  case (Cons row rows)
  have "tot + 1 + int (length (kept pol rows (tot + 1) c)) \<le> max_sessions pol"
    if "\<not> over_limit pol row tot counts" for c
    using that by (intro Cons.IH) (auto simp: over_limit_def split: option.splits)
  from this [of "counts(row_model row := counts (row_model row) + 1)"] Cons.IH [OF Cons.prems, of counts]
  show ?case by (simp add: algebra_simps)
qed simp

lemma kept_allowed:
  "r \<in> set (kept pol rows tot counts) \<Longrightarrow> permits (providers pol) (row_provider r) \<and> resolve pol (row_model r) \<noteq> None"
  by (induction rows arbitrary: tot counts) (auto simp: over_limit_def split: option.splits if_splits)

lemma kept_per_model:
  "resolve pol i = Some m \<Longrightarrow>
    int (length (filter (\<lambda>r. row_model r = i) (kept pol rows tot counts))) \<le> max 0 (model_max_sessions m - counts i)"
proof (induction rows arbitrary: tot counts)
  case (Cons row rows)
  show ?case
    using Cons.IH [OF Cons.prems, of tot counts] Cons.IH [OF Cons.prems, of "tot + 1" "counts(row_model row := counts (row_model row) + 1)"] Cons.prems
    by (cases "row_model row = i") (auto simp: over_limit_def fun_upd_def)
qed simp

lemma get_session_fold_other: "i \<notin> sid ` set rows \<Longrightarrow> get_session (fold put_session rows rs) i = get_session rs i"
  by (induction rows arbitrary: rs) auto

lemma get_session_fold:
  "distinct (map sid rows) \<Longrightarrow> r \<in> set rows \<Longrightarrow> get_session (fold put_session rows rs) (sid r) = Some r"
  by (induction rows arbitrary: rs) (auto simp: get_session_fold_other)

lemma db_wf_fold: "db_wf rs \<Longrightarrow> db_wf (fold put_session rows rs)"
  by (induction rows arbitrary: rs) auto

lemma sort_key_sids: "distinct (map sid rows) \<Longrightarrow> distinct (map sid (sort_key f rows))"
  by (metis distinct_map distinct_sort set_sort)

text \<open>
  C12. After \<open>rebalance\<close> the open sessions are within the limits of the policy: at most
  \<open>max_sessions\<close> in all and at most the model's own limit per model, each of an enabled model
  and of a permitted provider. The rest has been set draining.
\<close>

theorem rebalance_enforces_limits:
  assumes wf: "db_wf (db s)" and nonneg: "0 \<le> max_sessions (db_policy (db s))"
  shows "let pol = db_policy (db s); left = filter (\<lambda>r. sstate r = Open) (db_sessions (db (final rebalance s)))
     in int (length left) \<le> max_sessions pol \<and>
     (\<forall>r \<in> set left. permits (providers pol) (row_provider r) \<and>
        (\<exists>m. resolve pol (row_model r) = Some m \<and>
           int (length (filter (\<lambda>q. row_model q = row_model r) left)) \<le> max 0 (model_max_sessions m)))"
proof -
  define pol where "pol = db_policy (db s)"
  define left where "left = filter (\<lambda>r. sstate r = Open) (db_sessions (db (final rebalance s)))"
  define rows where "rows = sort_key (\<lambda>r. (sid r \<notin> active s, created_at r)) (db_sessions (db s))"
  define K where "K = kept pol rows 0 (\<lambda>_. 0)"
  define D where "D = dropped pol rows 0 (\<lambda>_. 0)"
  have d: "distinct (map sid rows)" unfolding rows_def using wf by (intro sort_key_sids distinct_db_sessions)
  have db': "db (final rebalance s) = fold put_session (map drained D) (db s)"
    using rebalance_rows_db [OF HOL.refl, where s = s and pol = pol and rows = rows and tot = 0 and counts = "\<lambda>_. 0"]
    by (simp add: wp_def rebalance_def final_def bindP_def getP_def D_def pol_def rows_def split: prod.splits sum.splits)
  have wf': "db_wf (db (final rebalance s))" unfolding db' using wf by (rule db_wf_fold)
  have parts: "set D \<union> set K = {r \<in> set (db_sessions (db s)). sstate r = Open}"
    unfolding D_def K_def using open_rows [of pol rows 0 "\<lambda>_. 0"] by (simp add: rows_def)
  have apart: "r \<in> set D \<Longrightarrow> q \<in> set K \<Longrightarrow> sid r \<noteq> sid q" for r q
    using kept_disjoint [OF d] by (auto simp: D_def K_def)
  have dd: "distinct (map sid D)" "distinct (map sid K)" using distinct_parts [OF d] by (auto simp: D_def K_def)
  have out: "get_session (db (final rebalance s)) i = get_session (db s) i" if "i \<notin> sid ` set D" for i
    unfolding db' by (rule get_session_fold_other) (use that in \<open>auto simp: image_iff\<close>)
  have gone: "get_session (db (final rebalance s)) (sid r) = Some (drained r)" if "r \<in> set D" for r
    unfolding db' using get_session_fold [of "map drained D" "drained r" "db s"] dd(1) that by (simp add: comp_def)
  have "r \<in> set left \<longleftrightarrow> r \<in> set K" for r
  proof (cases "sid r \<in> sid ` set D")
    case True
    then obtain q where q: "q \<in> set D" "sid r = sid q" by blast
    then have "get_session (db (final rebalance s)) (sid r) = Some (drained q)" using gone by simp
    then have "r \<notin> set left" unfolding left_def by (auto simp: in_db_sessions [OF wf'])
    moreover have "r \<notin> set K" using q apart by metis
    ultimately show ?thesis by simp
  next
    case False
    then have "r \<in> set left \<longleftrightarrow> r \<in> set (db_sessions (db s)) \<and> sstate r = Open"
      unfolding left_def by (auto simp: in_db_sessions [OF wf'] in_db_sessions [OF wf] out)
    with False parts show ?thesis by blast
  qed
  then have left: "set left = set K" by blast
  have "distinct (map sid left)" unfolding left_def
    by (intro distinct_map_filter distinct_db_sessions wf')
  then have "distinct left" "distinct K" using dd(2) by (simp_all add: distinct_map)
  then have len: "length (filter P left) = length (filter P K)" for P
    using left by (simp add: distinct_card [symmetric])
  from len [of "\<lambda>_. True"] have "length left = length K" by simp
  moreover have "int (length K) \<le> max_sessions pol"
    using kept_total [of 0 pol rows "\<lambda>_. 0"] nonneg by (simp add: K_def pol_def)
  moreover have "\<exists>m. resolve pol (row_model r) = Some m \<and>
      int (length (filter (\<lambda>q. row_model q = row_model r) left)) \<le> max 0 (model_max_sessions m)"
    if "resolve pol (row_model r) \<noteq> None" for r
    using that kept_per_model [of pol "row_model r" _ rows 0 "\<lambda>_. 0"] by (auto simp: len K_def)
  moreover have "permits (providers pol) (row_provider r) \<and> resolve pol (row_model r) \<noteq> None" if "r \<in> set left" for r
    using that kept_allowed [of r pol rows 0 "\<lambda>_. 0"] by (simp add: left K_def)
  ultimately show ?thesis unfolding Let_def pol_def [symmetric] left_def [symmetric] by (intro conjI ballI; (blast | simp))
qed

theorem rebalance_enforces_limits_witness:
  "length (filter (\<lambda>r. sstate r = Open) (db_sessions (db (final rebalance
     (scenario_state [sample_row ''s1'' Open, sample_row ''s2'' Open]))))) \<le> 4"
proof -
  let ?s = "scenario_state [sample_row ''s1'' Open, sample_row ''s2'' Open]"
  have p: "max_sessions (db_policy (db ?s)) = 4" by code_simp
  then have "0 \<le> max_sessions (db_policy (db ?s))" by simp
  from rebalance_enforces_limits [OF db_wf_scenario this] p show ?thesis by (simp add: Let_def)
qed

end
