(* ===== verification/Admission.thy ===== *)
theory Admission
  imports Maintenance Scenario
begin

text \<open>
  gateway/app.py, everything but the completion handler: who may call the gateway (the
  administrator's session, application keys, the sign-in limiter), and the administrative
  endpoints, with the request models of gateway/models.py. Each handler is a program on the state
  of the gateway process; the handlers without an await run in one step.

  \<open>hashlib.sha256\<close> is a parameter, \<open>digest\<close>; the random tokens of \<open>secrets\<close> come from the
  generator of identifiers. What a handler returns as JSON is the record it is built from.
\<close>

section \<open>Requests and configuration\<close>

record http =
  http_method :: string
  origin :: "string option"
  cookie :: string
  csrf_header :: string
  authorization :: string
  client_host :: string
  idempotency_key :: string
  request_id :: string

record app =
  app_env :: env
  digest :: "string \<Rightarrow> string"
  admin_token :: string
  public_origin :: string
  max_connections :: int
  response_bytes :: int
  lax_float :: "json \<Rightarrow> pyfloat option"
  model_dump :: "json \<Rightarrow> json"
  float_repr :: "pyfloat \<Rightarrow> string"

text \<open>\<open>Config.from_env\<close> refuses a short administrator secret.\<close>

definition admin_token_ok :: "string \<Rightarrow> bool" where
  "admin_token_ok t = (32 \<le> text_length t)"

section \<open>The connection limit and the body of a request\<close>

text \<open>
  The middleware \<open>boundary\<close> around a handler: the answer it gives itself, or the handler's. A body
  arrives in chunks; None is the expiry of \<open>body_timeout\<close>.
\<close>

fun upload_status :: "int \<Rightarrow> string option list \<Rightarrow> int option" where
  "upload_status n [] = None"
| "upload_status n (None # cs) = Some 408"
| "upload_status n (Some c # cs) =
    (if 2 * 1024 * 1024 < n + int (length c) then Some 413 else upload_status (n + int (length c)) cs)"

definition has_upload :: "string \<Rightarrow> bool" where
  "has_upload m = (m \<in> {''POST'', ''PUT'', ''PATCH''})"

definition boundary :: "app \<Rightarrow> http \<Rightarrow> string option list \<Rightarrow> 'a prog \<Rightarrow> (int + 'a) prog" where
  "boundary A q chunks handler = bindP (getP connections) (\<lambda>n.
     if max_connections A \<le> n then retP (Inl 429)
     else thenP (modP (\<lambda>s. s\<lparr>connections := connections s + 1\<rparr>))
       (finallyP
         (case (if has_upload (http_method q) then upload_status 0 chunks else None) of
            Some st \<Rightarrow> retP (Inl st)
          | None \<Rightarrow> bindP handler (\<lambda>x. retP (Inr x)))
         (\<lambda>s. s\<lparr>connections := connections s - 1\<rparr>)))"

section \<open>The administrator\<close>

text \<open>\<open>str(store.get("settings", "auth_generation"))\<close>.\<close>

definition generation_text :: "database \<Rightarrow> string" where
  "generation_text rs = (case db_get rs KSettings ''auth_generation'' of
     Some (DAuth_generation g) \<Rightarrow> ''{'' @ [CHR 0x27] @ ''value'' @ [CHR 0x27] @ '': '' @ [CHR 0x27] @ g @ [CHR 0x27] @ ''}''
   | _ \<Rightarrow> ''None'')"

definition auth_epoch :: "app \<Rightarrow> database \<Rightarrow> string" where
  "auth_epoch A rs = digest A (admin_token A @ generation_text rs)"

definition check_origin :: "app \<Rightarrow> http \<Rightarrow> exn + unit" where
  "check_origin A q = (if origin q = Some (public_origin A) then Inr () else Inl (err_status ''invalid_origin'' 403))"

definition get_admin :: "database \<Rightarrow> string \<Rightarrow> admin_row option" where
  "get_admin rs i = (case db_get rs KAdmin i of Some (DAdmin a) \<Rightarrow> Some a | _ \<Rightarrow> None)"

definition get_key :: "database \<Rightarrow> string \<Rightarrow> key_row option" where
  "get_key rs i = (case db_get rs KKey i of Some (DKey k) \<Rightarrow> Some k | _ \<Rightarrow> None)"

definition admin_session :: "app \<Rightarrow> http \<Rightarrow> gw \<Rightarrow> admin_row option" where
  "admin_session A q s =
    (case (if cookie q = [] then None else get_admin (db s) (digest A (cookie q))) of
       None \<Rightarrow> None
     | Some a \<Rightarrow> if expires a < clock s \<or> epoch a \<noteq> auth_epoch A (db s) then None else Some a)"

definition admin :: "app \<Rightarrow> http \<Rightarrow> gw \<Rightarrow> exn + admin_row" where
  "admin A q s =
    (case admin_session A q s of
       None \<Rightarrow> Inl (err_status ''unauthorized'' 401)
     | Some a \<Rightarrow>
        if http_method q \<in> {''GET'', ''HEAD''} then Inr a
        else (case check_origin A q of
           Inl e \<Rightarrow> Inl e
         | Inr _ \<Rightarrow> if csrf_header q = csrf a then Inr a else Inl (err_status ''csrf'' 403)))"

text \<open>A handler behind \<open>Depends(admin)\<close>.\<close>

definition as_admin :: "app \<Rightarrow> http \<Rightarrow> (admin_row \<Rightarrow> 'a prog) \<Rightarrow> 'a prog" where
  "as_admin A q f = bindP (getP (admin A q)) (\<lambda>r. bindP (liftP r) f)"

definition bearer :: "http \<Rightarrow> string" where
  "bearer q = drop 7 (authorization q)"

definition api_key :: "app \<Rightarrow> http \<Rightarrow> gw \<Rightarrow> exn + key_row" where
  "api_key A q s =
    (if \<not> prefix ''Bearer '' (authorization q) then Inl (err_status ''invalid_api_key'' 401)
     else (case get_key (db s) (digest A (bearer q)) of
       None \<Rightarrow> Inl (err_status ''invalid_api_key'' 401)
     | Some k \<Rightarrow> if key_enabled k then Inr k else Inl (err_status ''invalid_api_key'' 401)))"

section \<open>Signing in\<close>

definition stale :: "time \<Rightarrow> time list \<Rightarrow> bool" where
  "stale now b = (b = [] \<or> last b < now - 60)"

text \<open>The bucket of a source after the table and the bucket are trimmed; reading it creates it.\<close>

definition trimmed_logins :: "time \<Rightarrow> (string \<times> time list) list \<Rightarrow> (string \<times> time list) list" where
  "trimmed_logins now ls = filter (\<lambda>kb. \<not> stale now (snd kb)) ls"

definition recent :: "time \<Rightarrow> time list \<Rightarrow> time list" where
  "recent now b = dropWhile (\<lambda>t. t < now - 60) b"

fun set_bucket :: "string \<Rightarrow> time list \<Rightarrow> (string \<times> time list) list \<Rightarrow> (string \<times> time list) list" where
  "set_bucket k b [] = [(k, b)]"
| "set_bucket k b ((k', b') # ls) = (if k' = k then (k, b) # ls else (k', b') # set_bucket k b ls)"

definition login_bucket :: "time \<Rightarrow> string \<Rightarrow> (string \<times> time list) list \<Rightarrow> time list" where
  "login_bucket now source ls =
    recent now (case map_of (trimmed_logins now ls) source of None \<Rightarrow> [] | Some b \<Rightarrow> b)"

text \<open>\<open>for old in store.all("admin"): if expired: store.delete("admin", old["id"])\<close>.\<close>

fun drop_expired :: "time \<Rightarrow> doc list \<Rightarrow> database \<Rightarrow> database" where
  "drop_expired now [] rs = rs"
| "drop_expired now (d # ds) rs =
    drop_expired now ds (case d of DAdmin a \<Rightarrow> if expires a < now then db_delete KAdmin (admin_id a) rs else rs | _ \<Rightarrow> rs)"

definition twelve_hours :: time where
  "twelve_hours = 12 * 3600"

definition admin_record :: "app \<Rightarrow> gw \<Rightarrow> string \<Rightarrow> string \<Rightarrow> admin_row" where
  "admin_record A s token c = \<lparr>admin_id = digest A token, csrf = c, expires = clock s + twelve_hours, epoch = auth_epoch A (db s)\<rparr>"

text \<open>The signed-in browser gets the token as a cookie and the other text in the body.\<close>

definition login :: "app \<Rightarrow> http \<Rightarrow> string \<Rightarrow> (string \<times> string) prog" where
  "login A q tok = bindP (liftP (check_origin A q)) (\<lambda>_. bindP (getP (\<lambda>s. (clock s, logins s))) (\<lambda>(now, ls).
     let source = client_host q;
         bucket = login_bucket now source ls;
         table = set_bucket source bucket (trimmed_logins now ls)
     in thenP (modP (\<lambda>s. s\<lparr>logins := table\<rparr>))
       (if digest A tok \<noteq> digest A (admin_token A) then
          (if 10 \<le> int (length bucket) \<or> 10000 < int (length table) then raiseP (err_status ''login_rate_limit'' 429)
           else thenP (modP (\<lambda>s. s\<lparr>logins := set_bucket source (bucket @ [now]) table\<rparr>))
             (raiseP (err_status ''unauthorized'' 401)))
        else
          thenP (modP (\<lambda>s. s\<lparr>logins := filter (\<lambda>kb. fst kb \<noteq> source) table\<rparr>))
          (bindP (uuidP (app_env A)) (\<lambda>token. bindP (uuidP (app_env A)) (\<lambda>c.
           thenP (modP (\<lambda>s. s\<lparr>db := drop_expired now (db_all (db s) KAdmin) (db s)\<rparr>))
           (bindP (getP (\<lambda>s. admin_record A s token c)) (\<lambda>r.
            thenP (modP (\<lambda>s. s\<lparr>db := db_put KAdmin (admin_id r) (DAdmin r) (db s)\<rparr>))
              (retP (token, c))))))))))"

definition logout :: "app \<Rightarrow> http \<Rightarrow> unit prog" where
  "logout A q = bindP (liftP (check_origin A q)) (\<lambda>_.
     modP (\<lambda>s. s\<lparr>db := db_delete KAdmin (digest A (cookie q)) (db s)\<rparr>))"

definition logout_all :: "app \<Rightarrow> http \<Rightarrow> unit prog" where
  "logout_all A q = as_admin A q (\<lambda>_. bindP (uuidP (app_env A)) (\<lambda>g.
     put_settingP ''auth_generation'' (DAuth_generation g)))"

section \<open>The policy\<close>

definition put_policy :: "app \<Rightarrow> http \<Rightarrow> policy \<Rightarrow> policy prog" where
  "put_policy A q raw = as_admin A q (\<lambda>_.
     case validate_policy raw of
       None \<Rightarrow> raiseP (err_status ''validation_error'' 422)
     | Some p \<Rightarrow> bindP (getP (\<lambda>s. revision (db_policy (db s)))) (\<lambda>current.
         if revision p \<noteq> current then raiseP (err_status ''revision_conflict'' 409)
         else (let p' = p\<lparr>revision := revision p + 1\<rparr>
           in thenP (put_settingP ''policy'' (DPolicy p'))
              (thenP (eventP (app_env A) (Policy_saved (revision p')))
              (thenP rebalance (retP p'))))))"

section \<open>Application keys\<close>

record key_create =
  kc_name :: string
  kc_models :: "string list"
  kc_concurrency :: int
  kc_rpm :: int

definition key_create_ok :: "key_create \<Rightarrow> bool" where
  "key_create_ok k =
    (1 \<le> text_length (kc_name k) \<and> text_length (kc_name k) \<le> 80 \<and> int (length (kc_models k)) \<le> 100 \<and>
     1 \<le> kc_concurrency k \<and> kc_concurrency k \<le> 32 \<and> 1 \<le> kc_rpm k \<and> kc_rpm k \<le> 10000)"

definition known_models :: "policy \<Rightarrow> string list \<Rightarrow> bool" where
  "known_models p ms = list_all (\<lambda>m. m \<in> set (map model_id (models p))) ms"

definition key_record :: "string \<Rightarrow> string \<Rightarrow> time \<Rightarrow> key_create \<Rightarrow> key_row" where
  "key_record i token now k = \<lparr>key_id = i, key_name = kc_name k, key_models = kc_models k,
     key_concurrency = kc_concurrency k, key_rpm = kc_rpm k, key_prefix = take 12 token, key_enabled = True,
     key_created = now, key_last_used = None\<rparr>"

definition completed_request :: "time \<Rightarrow> string \<Rightarrow> doc" where
  "completed_request now i = DRequest \<lparr>req_state = Completed, req_created = now, req_id = i\<rparr>"

definition put_requestP :: "string \<Rightarrow> doc \<Rightarrow> unit prog" where
  "put_requestP i d = modP (\<lambda>s. s\<lparr>db := db_put KRequest i d (db s)\<rparr>)"

definition put_keyP :: "string \<Rightarrow> key_row \<Rightarrow> unit prog" where
  "put_keyP i k = modP (\<lambda>s. s\<lparr>db := db_put KKey i (DKey k) (db s)\<rparr>)"

definition create_key :: "app \<Rightarrow> http \<Rightarrow> key_create \<Rightarrow> (string \<times> key_row) prog" where
  "create_key A q body = as_admin A q (\<lambda>_. if \<not> key_create_ok body then raiseP (err_status ''validation_error'' 422) else
     let idem = idempotency_key q; marker = digest A (''create-key:'' @ idem) in
     bindP (getP (\<lambda>s. idem \<noteq> [] \<and> db_get (db s) KRequest marker \<noteq> None)) (\<lambda>again.
     if again then raiseP (err_status ''key_already_created'' 409)
     else bindP (getP (\<lambda>s. known_models (db_policy (db s)) (kc_models body))) (\<lambda>ok.
     if \<not> ok then raiseP (err_status ''unknown_model'' 400)
     else bindP (uuidP (app_env A)) (\<lambda>t. bindP (uuidP (app_env A)) (\<lambda>i. bindP (getP clock) (\<lambda>now.
       let token = ''mg_'' @ t; rec = key_record i token now body in
       thenP (whenP (idem \<noteq> []) (put_requestP marker (completed_request now i)))
       (thenP (put_keyP (digest A token) rec)
       (thenP (eventP (app_env A) (Key_created i)) (retP (token, rec))))))))))"

text \<open>
  \<open>SELECT id, data FROM records WHERE kind='key'\<close>: the first row whose record has the identifier.
  The order of the rows does not matter while identifiers are unique.
\<close>

fun find_key :: "string \<Rightarrow> database \<Rightarrow> (string \<times> key_row) option" where
  "find_key i [] = None"
| "find_key i ((k, dbid, d) # rs) =
    (case d of
       DKey r \<Rightarrow> if k = KKey \<and> key_id r = i then Some (dbid, r) else find_key i rs
     | _ \<Rightarrow> find_key i rs)"

definition edit_key :: "app \<Rightarrow> http \<Rightarrow> string \<Rightarrow> key_create \<Rightarrow> key_row prog" where
  "edit_key A q i body = as_admin A q (\<lambda>_. if \<not> key_create_ok body then raiseP (err_status ''validation_error'' 422) else
     bindP (getP (\<lambda>s. (known_models (db_policy (db s)) (kc_models body), find_key i (db s)))) (\<lambda>(ok, found).
     if \<not> ok then raiseP (err_status ''unknown_model'' 400)
     else (case found of
        None \<Rightarrow> raiseP (err_status ''not_found'' 404)
      | Some (dbid, r) \<Rightarrow>
         (let r' = r\<lparr>key_name := kc_name body, key_models := kc_models body,
            key_concurrency := kc_concurrency body, key_rpm := kc_rpm body\<rparr>
          in thenP (put_keyP dbid r') (retP r')))))"

definition revoke :: "app \<Rightarrow> http \<Rightarrow> string \<Rightarrow> unit prog" where
  "revoke A q i = as_admin A q (\<lambda>_. bindP (getP (\<lambda>s. find_key i (db s))) (\<lambda>found.
     case found of
       None \<Rightarrow> raiseP (err_status ''not_found'' 404)
     | Some (dbid, r) \<Rightarrow>
        thenP (put_keyP dbid (r\<lparr>key_enabled := False\<rparr>)) (eventP (app_env A) (Key_revoked i))))"

section \<open>Recovery, sessions, status\<close>

datatype scheduled = Already_running | Scheduled

definition sweeping :: "gw \<Rightarrow> bool" where
  "sweeping s = (case sweep_task s of None \<Rightarrow> False | Some t \<Rightarrow> t \<notin> done_tasks s)"

definition start_task :: "job \<Rightarrow> scheduled prog" where
  "start_task j = bindP (spawnP j) (\<lambda>t. thenP (modP (\<lambda>s. s\<lparr>sweep_task := Some t\<rparr>)) (retP Scheduled))"

definition recovery_run :: "app \<Rightarrow> http \<Rightarrow> scheduled prog" where
  "recovery_run A q = as_admin A q (\<lambda>_. bindP (getP sweeping) (\<lambda>busy.
     if busy then retP Already_running else start_task Sweep_job))"

definition wallet_withdraw :: "app \<Rightarrow> http \<Rightarrow> scheduled prog" where
  "wallet_withdraw A q = as_admin A q (\<lambda>_. bindP (getP sweeping) (\<lambda>busy.
     if busy then raiseP (err_status ''recovery_running'' 409) else start_task (Treasury_job True)))"

definition list_sessions :: "app \<Rightarrow> http \<Rightarrow> int \<Rightarrow> ((doc \<times> bool) list \<times> int option) prog" where
  "list_sessions A q offset = as_admin A q (\<lambda>_.
     if \<not> (0 \<le> offset \<and> offset \<le> 1000000) then raiseP (err_status ''invalid_page'' 400)
     else bindP (getP (\<lambda>s. (db_page (db s) KSession 100 (nat offset), active s))) (\<lambda>(rows, busy).
       retP (map (\<lambda>d. (d, case d of DSession r \<Rightarrow> sid r \<in> busy | _ \<Rightarrow> False)) rows,
             if length rows = 100 then Some (offset + 100) else None)))"

definition wallet_sessions_page :: "app \<Rightarrow> http \<Rightarrow> int \<Rightarrow> json list prog" where
  "wallet_sessions_page A q offset = as_admin A q (\<lambda>_.
     if \<not> (0 \<le> offset \<and> offset \<le> 1000000) then raiseP (err_status ''invalid_page'' 400)
     else bindP (verify_identity (app_env A)) (\<lambda>i. wallet_sessions (app_env A) (wallet i) offset))"

definition prewarm_endpoint :: "nat \<Rightarrow> app \<Rightarrow> http \<Rightarrow> string \<Rightarrow> srow option prog" where
  "prewarm_endpoint n A q m = as_admin A q (\<lambda>_. acquire n (app_env A) m True)"

definition close_endpoint :: "app \<Rightarrow> http \<Rightarrow> string \<Rightarrow> bool \<Rightarrow> srow prog" where
  "close_endpoint A q i stop = as_admin A q (\<lambda>_. close (app_env A) i stop)"

definition bind_endpoint :: "app \<Rightarrow> http \<Rightarrow> string \<Rightarrow> string \<Rightarrow> srow prog" where
  "bind_endpoint A q i c = as_admin A q (\<lambda>_. bind_session (app_env A) i c)"

definition admin_restart :: "app \<Rightarrow> http \<Rightarrow> bool \<Rightarrow> bool \<Rightarrow> operation prog" where
  "admin_restart A q immediate apply_rating = as_admin A q (\<lambda>_. restart (app_env A) immediate apply_rating)"

definition bids_endpoint :: "app \<Rightarrow> http \<Rightarrow> string \<Rightarrow> candidate list prog" where
  "bids_endpoint A q m = as_admin A q (\<lambda>_. bindP (sessions_model m) (\<lambda>_. candidates (app_env A) m))"

definition quote_endpoint :: "app \<Rightarrow> http \<Rightarrow> string \<Rightarrow> (candidate \<times> int \<times> int \<times> int) prog" where
  "quote_endpoint A q m = as_admin A q (\<lambda>_. quote (app_env A) m)"

definition catalog_endpoint :: "app \<Rightarrow> http \<Rightarrow> json list prog" where
  "catalog_endpoint A q = as_admin A q (\<lambda>_. catalog (app_env A))"

text \<open>The pages that only show stored documents.\<close>

definition me :: "app \<Rightarrow> http \<Rightarrow> string prog" where
  "me A q = as_admin A q (\<lambda>a. retP (csrf a))"

definition get_policy :: "app \<Rightarrow> http \<Rightarrow> policy prog" where
  "get_policy A q = as_admin A q (\<lambda>_. getP (\<lambda>s. db_policy (db s)))"

definition list_keys :: "app \<Rightarrow> http \<Rightarrow> doc list prog" where
  "list_keys A q = as_admin A q (\<lambda>_. getP (\<lambda>s. db_all (db s) KKey))"

definition list_events :: "app \<Rightarrow> http \<Rightarrow> doc list prog" where
  "list_events A q = as_admin A q (\<lambda>_. getP (\<lambda>s. db_page (db s) KEvent 100 0))"

definition list_operations :: "app \<Rightarrow> http \<Rightarrow> (doc list \<times> doc list) prog" where
  "list_operations A q = as_admin A q (\<lambda>_. getP (\<lambda>s. (db_page (db s) KOperation 50 0, db_page (db s) KEvent 60 0)))"

text \<open>The answer to a \<open>GatewayError\<close>: its code, its status, and whether to retry later.\<close>

definition error_answer :: "gerror \<Rightarrow> string \<times> int \<times> bool" where
  "error_answer g = (code g, status g, status g = 429)"

text \<open>\<open>/v1/models\<close>: the enabled models the key may use, by alias.\<close>

definition models_endpoint :: "app \<Rightarrow> http \<Rightarrow> string list prog" where
  "models_endpoint A q = bindP (getP (api_key A q)) (\<lambda>r. bindP (liftP r) (\<lambda>k. getP (\<lambda>s.
     map model_alias (filter (\<lambda>m. enabled m \<and> (key_models k = [] \<or> model_id m \<in> set (key_models k)))
       (models (db_policy (db s)))))))"

text \<open>\<open>/readyz\<close>. The helper is asked only when one is configured by URL.\<close>

definition readiness :: "app \<Rightarrow> bool \<Rightarrow> bool prog" where
  "readiness A helper_url = bindP
     (if helper_url then catchP
        (bindP (helper_request (app_env A) Helper_status) (\<lambda>st. retP (jget ''ready'' st = Some (JBool True))))
        (\<lambda>e. case e of Gateway g \<Rightarrow> retP False | _ \<Rightarrow> raiseP e)
      else retP True)
     (\<lambda>management. getP (\<lambda>s. ready s \<and> management \<and> \<not> maintenance s \<and>
        (case store_error s of None \<Rightarrow> True | Some m \<Rightarrow> m = [])))"

text \<open>
  The answer to a database error. In this model the database does not fail, so no handler ends here;
  the flags it leaves are those that \<open>readiness\<close>, the status page and \<open>tick\<close> act on.
\<close>

definition storage_error :: "int prog" where
  "storage_error = thenP (modP (\<lambda>s. s\<lparr>ready := False,
     store_error := Some ''Storage unavailable; check free disk space and restore instructions''\<rparr>)) (retP 503)"

section \<open>The status page\<close>

text \<open>
  \<open>asyncio.gather(*calls, return_exceptions=True)\<close>: a call that raises leaves its exception as its
  result; cancelling the page cancels it. The four calls run side by side. Of them only
  \<open>verify_identity\<close> reads or writes the shared state, so running them in turn, with whatever happens
  at their awaits, gives the same outcomes.
\<close>

definition gathered :: "'a prog \<Rightarrow> (exn + 'a) prog" where
  "gathered p = catchP (bindP p (\<lambda>x. retP (Inr x))) (\<lambda>e. if e = Cancelled then raiseP e else retP (Inl e))"

definition value_of :: "exn + 'a \<Rightarrow> 'a option" where
  "value_of r = (case r of Inl _ \<Rightarrow> None | Inr x \<Rightarrow> Some x)"

definition failure_of :: "exn + 'a \<Rightarrow> string list" where
  "failure_of r = (case r of Inl e \<Rightarrow> [exn_code ''Node status unavailable'' e] | Inr _ \<Rightarrow> [])"

text \<open>Python's \<open>or\<close> on texts that may be None.\<close>

definition or_text :: "string option \<Rightarrow> string option \<Rightarrow> string option" where
  "or_text a b = (case a of Some m \<Rightarrow> if m \<noteq> [] then a else b | None \<Rightarrow> b)"

text \<open>
  \<open>effective != policy.rating()\<close>: dictionaries are compared by their members, a number by its value.
\<close>

definition has_keys :: "string list \<Rightarrow> json \<Rightarrow> bool" where
  "has_keys ks j = (case j of JObj m \<Rightarrow> list_all (\<lambda>k. k \<in> set (map fst m)) ks \<and> list_all (\<lambda>k. k \<in> set ks) (map fst m)
     | _ \<Rightarrow> False)"

definition is_number :: "int \<Rightarrow> json option \<Rightarrow> bool" where
  "is_number n j = (case j of
     Some (JFloat (Finite x)) \<Rightarrow> x * of_int one = of_int n
   | Some (JInt i) \<Rightarrow> i * one = n
   | Some (JBool b) \<Rightarrow> (if b then one else 0) = n
   | _ \<Rightarrow> False)"

definition is_weights :: "weights \<Rightarrow> json \<Rightarrow> bool" where
  "is_weights w j =
    (has_keys [''tps'', ''ttft'', ''duration'', ''success'', ''stake''] j \<and>
     is_number (tps w) (jget ''tps'' j) \<and> is_number (ttft w) (jget ''ttft'' j) \<and>
     is_number (duration w) (jget ''duration'' j) \<and> is_number (success w) (jget ''success'' j) \<and>
     is_number (stake w) (jget ''stake'' j))"

definition is_params :: "weights \<Rightarrow> json \<Rightarrow> bool" where
  "is_params w j = (has_keys [''weights''] j \<and> is_weights w (jget_null ''weights'' j))"

definition is_rating :: "rating \<Rightarrow> json \<Rightarrow> bool" where
  "is_rating r j =
    (has_keys [''algorithm'', ''providerAllowlist'', ''providerDenylist'', ''params''] j \<and>
     jget ''algorithm'' j = Some (JStr (algorithm r)) \<and>
     jget ''providerAllowlist'' j = Some (JArr (map JStr (providerAllowlist r))) \<and>
     jget ''providerDenylist'' j = Some (JArr (map JStr (providerDenylist r))) \<and>
     is_params (params_weights r) (jget_null ''params'' j))"

record status_report =
  pg_identity :: "ident option"
  pg_balances :: "(int \<times> int) option"
  pg_held :: "(int \<times> int) option"
  pg_node_errors :: "string list"
  pg_last_error :: "string option"
  pg_active :: nat
  pg_queued :: int
  pg_maintenance :: bool
  pg_paused :: bool
  pg_helper_connected :: bool
  pg_helper_ready :: json
  pg_base_url :: string
  pg_rating_pending :: bool
  pg_effective_rating :: json
  pg_updated_at :: time
  pg_revision :: int
  pg_live_sessions :: nat
  pg_recovery :: "doc option"
  pg_wallet_scan :: "doc option"
  pg_treasury :: "doc option"
  pg_timeouts :: "int \<times> time \<times> time"

text \<open>The message of the helper's error counts only when the helper is configured by URL.\<close>

definition helper_message :: "bool \<Rightarrow> exn + json \<Rightarrow> string option" where
  "helper_message helper_url h = (case h of Inl (Gateway g) \<Rightarrow> if helper_url then Some (code g) else None | _ \<Rightarrow> None)"

definition effective_rating :: "exn + json \<Rightarrow> json" where
  "effective_rating h = (case h of Inr j \<Rightarrow> if truthy j then jget_null ''rating'' j else JNull | Inl _ \<Rightarrow> JNull)"

definition status_body :: "bool \<Rightarrow> app \<Rightarrow> exn + ident \<Rightarrow> exn + int \<times> int \<Rightarrow> exn + int \<times> int \<Rightarrow> exn + json \<Rightarrow>
    gw \<Rightarrow> status_report" where
  "status_body helper_url A i b h st s =
    (let pol = db_policy (db s); c = cfg (app_env A) in
     \<lparr>pg_identity = value_of i, pg_balances = value_of b, pg_held = value_of h,
      pg_node_errors = failure_of i @ failure_of b @ failure_of h,
      pg_last_error = or_text (store_error s) (or_text (last_error s) (helper_message helper_url st)),
      pg_active = card (active s), pg_queued = waiting s, pg_maintenance = maintenance s, pg_paused = paused pol,
      pg_helper_connected = (value_of st \<noteq> None),
      pg_helper_ready = (case st of Inr j \<Rightarrow> if truthy j then jget_or ''ready'' (JBool False) j else JBool False
        | Inl _ \<Rightarrow> JBool False),
      pg_base_url = public_origin A @ ''/v1'',
      pg_rating_pending = (\<not> is_rating (rating_of pol) (effective_rating st)),
      pg_effective_rating = effective_rating st, pg_updated_at = clock s, pg_revision = revision pol,
      pg_live_sessions = length (db_sessions (db s)),
      pg_recovery = db_get (db s) KSettings ''recovery_status'', pg_wallet_scan = db_get (db s) KSettings ''wallet_scan'',
      pg_treasury = db_get (db s) KSettings ''treasury'',
      pg_timeouts = (queue_seconds pol, acquisition_timeout c, request_timeout c)\<rparr>)"

definition status_page :: "bool \<Rightarrow> app \<Rightarrow> http \<Rightarrow> status_report prog" where
  "status_page helper_url A q = as_admin A q (\<lambda>_.
     bindP (gathered (verify_identity (app_env A))) (\<lambda>i.
     bindP (gathered (balances (app_env A))) (\<lambda>b.
     bindP (gathered (stakes (app_env A))) (\<lambda>h.
     bindP (gathered (helper_request (app_env A) Helper_status)) (\<lambda>st.
       thenP (modP (\<lambda>s. s\<lparr>ready := (failure_of i @ failure_of b @ failure_of h = [])\<rparr>))
         (getP (status_body helper_url A i b h st)))))))"

section \<open>Administration needs a session\<close>

text \<open>The browser is signed in: its cookie names a session of the current epoch, and a change carries proof of the page.\<close>

definition signed_in :: "app \<Rightarrow> http \<Rightarrow> gw \<Rightarrow> bool" where
  "signed_in A q s =
    (cookie q \<noteq> [] \<and>
     (\<exists>a. get_admin (db s) (digest A (cookie q)) = Some a \<and> clock s \<le> expires a \<and> epoch a = auth_epoch A (db s) \<and>
        (http_method q \<in> {''GET'', ''HEAD''} \<or> origin q = Some (public_origin A) \<and> csrf_header q = csrf a)))"

lemma admin_signed_in: "signed_in A q s = (\<exists>a. admin A q s = Inr a)"
  by (auto simp: signed_in_def admin_def admin_session_def check_origin_def split: option.splits if_splits)

definition turned_away :: "'a prog \<Rightarrow> gw \<Rightarrow> bool" where
  "turned_away p s = (\<exists>e. p s = (Inl e, s, []))"

lemma as_admin_away: "\<not> signed_in A q s \<Longrightarrow> turned_away (as_admin A q f) s"
  unfolding admin_signed_in
  by (cases "admin A q s") (simp_all add: turned_away_def as_admin_def bindP_def getP_def liftP_def)

lemma as_admin_run: "admin A q s = Inr a \<Longrightarrow> as_admin A q f s = f a s"
  by (simp add: as_admin_def bindP_def getP_def liftP_def split: prod.split)

lemma as_admin_wp: "wp G (as_admin A q f) Q s = (case admin A q s of Inl e \<Rightarrow> Q (Inl e) s | Inr a \<Rightarrow> wp G (f a) Q s)"
  by (simp add: as_admin_def split: sum.split)

text \<open>A handler without an await makes no call, and runs in one step.\<close>

lemma wp_silent: "wp (\<lambda>_ _. False) p Q s \<longleftrightarrow> (\<exists>r s'. p s = (r, s', []) \<and> Q r s')"
proof -
  obtain r u t where p: "p s = (r, u, t)" by (rule prod_cases3)
  show ?thesis by (cases t) (auto simp: run_defs p)
qed

text \<open>
  C4. Without a signed-in browser no administrative operation does anything: each of them fails at
  once, makes no outside call and changes nothing.
\<close>

theorem administration_needs_session:
  "signed_in A q s \<or>
     turned_away (put_policy A q p) s \<and> turned_away (create_key A q k) s \<and> turned_away (edit_key A q i k) s \<and>
     turned_away (revoke A q i) s \<and> turned_away (logout_all A q) s \<and> turned_away (recovery_run A q) s \<and>
     turned_away (wallet_withdraw A q) s \<and> turned_away (list_sessions A q n) s \<and>
     turned_away (wallet_sessions_page A q n) s \<and> turned_away (prewarm_endpoint r A q i) s \<and>
     turned_away (close_endpoint A q i stop) s \<and> turned_away (bind_endpoint A q i c) s \<and>
     turned_away (admin_restart A q now rating) s \<and> turned_away (bids_endpoint A q i) s \<and>
     turned_away (quote_endpoint A q i) s \<and> turned_away (catalog_endpoint A q) s \<and> turned_away (me A q) s \<and>
     turned_away (get_policy A q) s \<and> turned_away (list_keys A q) s \<and> turned_away (list_events A q) s \<and>
     turned_away (list_operations A q) s \<and> turned_away (status_page hu A q) s"
  by (cases "signed_in A q s"; simp add: as_admin_away put_policy_def create_key_def edit_key_def revoke_def logout_all_def recovery_run_def wallet_withdraw_def
    list_sessions_def wallet_sessions_page_def prewarm_endpoint_def close_endpoint_def bind_endpoint_def
    admin_restart_def bids_endpoint_def quote_endpoint_def catalog_endpoint_def me_def get_policy_def list_keys_def
    list_events_def list_operations_def status_page_def)

lemma wp_attempt:
  assumes "\<And>x t. Q (Inr x) t" and "\<And>t. Q (Inl Cancelled) t"
  shows "wp (\<lambda>_ _. True) (gathered p) Q s"
proof -
  have "wp (\<lambda>_ _. True) p (\<lambda>_ _. True) s" by (simp add: wp_def)
  then show ?thesis unfolding gathered_def by (auto simp: assms elim!: wp_mono split: sum.split)
qed


section \<open>Signing in and out\<close>

lemma get_drop_expired: "k \<noteq> KAdmin \<Longrightarrow> db_get (drop_expired now ds rs) k i = db_get rs k i"
  by (induction now ds rs rule: drop_expired.induct) (auto split: doc.split)

lemma epoch_cong: "db_get rs KSettings ''auth_generation'' = db_get rs' KSettings ''auth_generation'' \<Longrightarrow> auth_epoch A rs = auth_epoch A rs'"
  by (simp add: auth_epoch_def generation_text_def)

text \<open>The browser after signing in: it keeps the cookie and sends the other token back.\<close>

definition signed_request :: "string \<times> string \<Rightarrow> http \<Rightarrow> http" where
  "signed_request t q = q\<lparr>cookie := fst t, csrf_header := snd t\<rparr>"

text \<open>
  The correct secret always signs in, however many attempts failed before: from the configured
  origin it yields a session, and the browser that uses it is signed in from then on.
\<close>

theorem login_admits:
  assumes "origin q = Some (public_origin A)" and "uuid (app_env A) (uuids s) \<noteq> []"
  shows "\<exists>t s'. login A q (admin_token A) s = (Inr t, s', []) \<and> signed_in A (signed_request t q) s'"
proof -
  have "wp (\<lambda>_ _. False) (login A q (admin_token A)) (\<lambda>r s'. \<exists>t. r = Inr t \<and> signed_in A (signed_request t q) s') s"
    using assms
    by (simp add: login_def check_origin_def Let_def admin_record_def signed_in_def signed_request_def get_admin_def
        twelve_hours_def get_drop_expired cong: epoch_cong)
  then show ?thesis unfolding wp_silent by blast
qed

definition sample_app :: app where
  "sample_app = \<lparr>app_env = scenario_env 0, digest = (\<lambda>x. x), admin_token = replicate 32 (CHR ''t''),
     public_origin = ''http://gateway'', max_connections = 128, response_bytes = 1000, lax_float = (\<lambda>_. None),
     model_dump = (\<lambda>j. j), float_repr = (\<lambda>_. [])\<rparr>"

definition sample_http :: http where
  "sample_http = \<lparr>http_method = ''POST'', origin = Some ''http://gateway'', cookie = ''c'', csrf_header = ''x'',
     authorization = ''Bearer mg_k'', client_host = ''host'', idempotency_key = ''once'', request_id = ''r''\<rparr>"

lemma scenario_uuid: "uuid (scenario_env ct) n \<noteq> []"
  by (simp add: scenario_env_def)

theorem login_admits_witness:
  "\<exists>t s'. login sample_app sample_http (admin_token sample_app) (scenario_state []) = (Inr t, s', []) \<and>
     signed_in sample_app (signed_request t sample_http) s'"
  by (rule login_admits) (simp_all add: sample_app_def sample_http_def scenario_uuid)

text \<open>No source is remembered for more than ten wrong attempts.\<close>

definition logins_bounded :: "gw \<Rightarrow> bool" where
  "logins_bounded s = list_all (\<lambda>(k, b). int (length b) \<le> 10) (logins s)"

definition attempts :: "string \<Rightarrow> gw \<Rightarrow> time list" where
  "attempts k s = (case map_of (logins s) k of None \<Rightarrow> [] | Some b \<Rightarrow> b)"

lemma list_all_set_bucket: "list_all P ls \<Longrightarrow> P (k, b) \<Longrightarrow> list_all P (set_bucket k b ls)"
  by (induction k b ls rule: set_bucket.induct) auto

lemma map_of_set_bucket: "map_of (set_bucket k b ls) k' = (if k' = k then Some b else map_of ls k')"
  by (induction k b ls rule: set_bucket.induct) auto

lemma length_dropWhile_int: "int (length (dropWhile p b)) \<le> int (length b)"
  by (simp add: length_dropWhile_le)

lemma bucket_bounded:
  assumes "list_all (\<lambda>(k, b). int (length b) \<le> 10) ls"
  shows "int (length (login_bucket now k ls)) \<le> 10"
proof (cases "map_of (trimmed_logins now ls) k")
  case (Some b)
  then have "(k, b) \<in> set ls" by (auto simp: trimmed_logins_def dest: map_of_SomeD)
  then have "int (length b) \<le> 10" using assms by (auto simp: list_all_iff)
  then show ?thesis using Some length_dropWhile_int [of _ b] by (simp add: login_bucket_def recent_def) (meson order_trans)
qed (simp add: login_bucket_def recent_def)



section \<open>Ending every session\<close>

lemma generation_text_put:
  "db_get rs KSettings ''auth_generation'' \<noteq> Some (DAuth_generation g) \<Longrightarrow>
    generation_text (db_put KSettings ''auth_generation'' (DAuth_generation g) rs) \<noteq> generation_text rs"
  by (auto simp: generation_text_def split: option.split doc.split)

lemma logout_all_run:
  assumes "admin A q s = Inr a"
  shows "logout_all A q s = (Inr (), s\<lparr>uuids := Suc (uuids s),
    db := db_put KSettings ''auth_generation'' (DAuth_generation (uuid (app_env A) (uuids s))) (db s)\<rparr>, [])"
  using assms by (simp add: logout_all_def as_admin_run bindP_def uuidP_def put_settingP_def modP_def)

text \<open>
  Signing out everywhere ends every session, the caller's included: whoever was signed in is not
  any more. The hypotheses are what the code relies on: \<open>sha256\<close> does not collide and the new random
  generation is not the old one.
\<close>

theorem logout_all_ends_sessions:
  assumes "inj (digest A)" and "db_get (db s) KSettings ''auth_generation'' \<noteq> Some (DAuth_generation (uuid (app_env A) (uuids s)))"
    and "signed_in A q s" and "signed_in A other s"
  shows "\<exists>s'. logout_all A q s = (Inr (), s', []) \<and> \<not> signed_in A other s'"
proof -
  from assms(3) obtain a where a: "admin A q s = Inr a" by (auto simp: admin_signed_in)
  let ?rs = "db_put KSettings ''auth_generation'' (DAuth_generation (uuid (app_env A) (uuids s))) (db s)"
  have "auth_epoch A ?rs \<noteq> auth_epoch A (db s)"
    using generation_text_put [OF assms(2)] by (simp add: auth_epoch_def inj_eq [OF assms(1)])
  with assms(4) show ?thesis by (auto simp: logout_all_run [OF a] signed_in_def get_admin_def)
qed

definition admin_state :: gw where
  "admin_state = (scenario_state [])\<lparr>db := db_put KAdmin ''c'' (DAdmin \<lparr>admin_id = ''c'', csrf = ''x'', expires = 9000,
     epoch = auth_epoch sample_app (db (scenario_state []))\<rparr>) (db (scenario_state []))\<rparr>"

lemma sample_signed_in: "signed_in sample_app sample_http admin_state"
  by (simp add: signed_in_def admin_state_def sample_http_def sample_app_def get_admin_def auth_epoch_def
      generation_text_def scenario_state_def initial_gw_def)

theorem logout_all_ends_sessions_witness:
  "\<exists>s'. logout_all sample_app sample_http admin_state = (Inr (), s', []) \<and> \<not> signed_in sample_app sample_http s'"
proof (rule logout_all_ends_sessions [OF _ _ sample_signed_in sample_signed_in])
  show "inj (digest sample_app)" by (simp add: sample_app_def)
  show "db_get (db admin_state) KSettings ''auth_generation'' \<noteq>
      Some (DAuth_generation (uuid (app_env sample_app) (uuids admin_state)))"
    by (simp add: admin_state_def scenario_state_def initial_gw_def)
qed

section \<open>The policy\<close>

text \<open>
  Saving the policy honours the contract that the opening of sessions relies on (\<open>policy_grows\<close>).
\<close>

definition same_policy :: "gw \<Rightarrow> gw \<Rightarrow> bool" where
  "same_policy s t = (db_policy (db t) = db_policy (db s))"

interpretation unsaved: lease_interference same_policy
  by unfold_locales (auto simp: same_policy_def)

lemma rebalance_rows_sure: "wp G (rebalance_rows pol rows n counts) (\<lambda>r _. r = Inr ()) s"
  by (induction rows arbitrary: n counts s) (simp_all add: Let_def schedule_close_def)

lemma rebalance_quiet:
  "wp (\<lambda>_ _. False) rebalance (\<lambda>r t. r = Inr () \<and> db_policy (db t) = db_policy (db s) \<and> keeps_wf s t) s"
proof -
  have "wp (\<lambda>_ _. False) rebalance (\<lambda>_ t. same_policy s t) s"
    by (rule unsaved.use [OF unsaved.balance_pool [where C = "\<lambda>_. False"]]) auto
  moreover have "wp (\<lambda>_ _. False) rebalance (\<lambda>_ t. keeps_wf s t) s"
    by (rule wf.use [OF wf.balance_pool [where C = "\<lambda>_. False"]]) auto
  moreover have "wp (\<lambda>_ _. True) rebalance (\<lambda>r _. r = Inr ()) s"
    by (simp add: rebalance_def case_prod_beta rebalance_rows_sure)
  ultimately show ?thesis by (auto simp: wp_def same_policy_def)
qed

definition policy_saved :: "policy \<Rightarrow> gw \<Rightarrow> exn + policy \<Rightarrow> gw \<Rightarrow> bool" where
  "policy_saved raw s r t = (case r of
     Inl e \<Rightarrow> t = s
   | Inr p \<Rightarrow> revision p = revision (db_policy (db s)) + 1 \<and> db_policy (db t) = p \<and>
       validate_policy raw = Some (p\<lparr>revision := revision (db_policy (db s))\<rparr>))"

lemma put_policy_run:
  "wp (\<lambda>_ _. False) (put_policy A q raw) (\<lambda>r t. policy_grows s t \<and> keeps_wf s t \<and> policy_saved raw s r t) s"
proof (cases "admin A q s")
  case (Inr a)
  note away = policy_saved_def policy_grows_def keeps_wf_def
  show ?thesis
  proof (cases "validate_policy raw")
    case (Some p)
    show ?thesis
    proof (cases "revision p = revision (db_policy (db s))")
      case True
      then have "p\<lparr>revision := revision (db_policy (db s))\<rparr> = p" by (cases p) simp
      then show ?thesis
        using True
        by (simp add: put_policy_def as_admin_wp Inr Some Let_def)
          (rule wp_mono [OF rebalance_quiet], auto simp: away Some)
    qed (simp add: put_policy_def as_admin_wp Inr Some away)
  qed (simp add: put_policy_def as_admin_wp Inr away)
qed (simp add: put_policy_def as_admin_wp policy_saved_def policy_grows_def keeps_wf_def)

lemma put_policy_grows: "wp (\<lambda>_ _. False) (put_policy A q raw) (\<lambda>_ t. policy_grows s t \<and> keeps_wf s t) s"
  by (rule wp_mono [OF put_policy_run]) simp_all

text \<open>
  C20. The policy is saved against the revision it was edited from, in one step: a save succeeds only
  when nobody has saved meanwhile, stores exactly the validated document with the next revision,
  and is what \<open>GET\<close> returns from then on; a save that fails changes nothing. In either case the
  revision grows with every change.
\<close>

theorem put_policy_optimistic:
  "case put_policy A q raw s of (r, s', t) \<Rightarrow>
     t = [] \<and> policy_grows s s' \<and>
     (case r of
        Inl e \<Rightarrow> s' = s
      | Inr p \<Rightarrow> revision p = revision (db_policy (db s)) + 1 \<and> db_policy (db s') = p \<and>
          validate_policy raw = Some (p\<lparr>revision := revision (db_policy (db s))\<rparr>))"
  using put_policy_run [of A q raw s] unfolding wp_silent policy_saved_def by auto

section \<open>Application keys\<close>

text \<open>No two stored keys carry the same identifier.\<close>

definition keys_unique :: "database \<Rightarrow> bool" where
  "keys_unique rs = (\<forall>d d' k k'. get_key rs d = Some k \<and> get_key rs d' = Some k' \<and> key_id k = key_id k' \<longrightarrow> d = d')"

lemma find_key_Some: "find_key i rs = Some (d, k) \<Longrightarrow> key_id k = i \<and> (KKey, d, DKey k) \<in> set rs"
  by (induction i rs rule: find_key.induct) (auto split: doc.splits if_splits)

lemma find_key_None: "find_key i rs = None \<Longrightarrow> (KKey, d, DKey k) \<in> set rs \<Longrightarrow> key_id k \<noteq> i"
  by (induction i rs rule: find_key.induct) (auto split: doc.splits if_splits)

lemma get_key_in: "db_ok rs \<Longrightarrow> get_key rs d = Some k \<longleftrightarrow> (KKey, d, DKey k) \<in> set rs"
  by (auto simp: get_key_def db_get_in [symmetric] split: option.splits doc.splits)

text \<open>
  C21. A revoked key is refused: when the administrator revokes the key that authenticated a request,
  the same credentials are turned away from the moment the call returns, and every other key keeps
  its standing.
\<close>

theorem revoke_refuses_key:
  assumes "signed_in A q s" and "db_ok (db s)" and "keys_unique (db s)" and "api_key A r s = Inr k"
  shows "\<exists>s'. revoke A q (key_id k) s = (Inr (), s', []) \<and> api_key A r s' = Inl (err_status ''invalid_api_key'' 401) \<and>
    (\<forall>d. d \<noteq> digest A (bearer r) \<longrightarrow> get_key (db s') d = get_key (db s) d)"
proof -
  from assms(1) obtain a where a: "admin A q s = Inr a" by (auto simp: admin_signed_in)
  let ?d = "digest A (bearer r)"
  from assms(4) have k: "get_key (db s) ?d = Some k" and pre: "prefix ''Bearer '' (authorization r)"
    by (auto simp: api_key_def split: if_splits option.splits)
  have found: "find_key (key_id k) (db s) = Some (?d, k)"
  proof (cases "find_key (key_id k) (db s)")
    case None
    then show ?thesis using k find_key_None by (auto simp: get_key_in [OF assms(2)])
  next
    case (Some x)
    obtain d k' where x: "x = (d, k')" by (cases x)
    with Some have "get_key (db s) d = Some k'" "key_id k' = key_id k"
      using find_key_Some by (auto simp: get_key_in [OF assms(2)])
    then show ?thesis using assms(3) k Some x unfolding keys_unique_def by (metis option.inject)
  qed
  have "wp (\<lambda>_ _. False) (revoke A q (key_id k)) (\<lambda>res s'. res = Inr () \<and>
      api_key A r s' = Inl (err_status ''invalid_api_key'' 401) \<and>
      (\<forall>d. d \<noteq> ?d \<longrightarrow> get_key (db s') d = get_key (db s) d)) s"
    by (simp add: revoke_def as_admin_wp a found put_keyP_def api_key_def pre get_key_def db_event_def
        db_get_keep_newest_other)
  then show ?thesis unfolding wp_silent by auto
qed

definition sample_key :: key_row where
  "sample_key = \<lparr>key_id = ''k1'', key_name = ''n'', key_models = [],
     key_concurrency = 2, key_rpm = 60, key_prefix = ''mg_k'', key_enabled = True, key_created = 0, key_last_used = None\<rparr>"

definition key_state :: gw where
  "key_state = admin_state\<lparr>db := db_put KKey ''mg_k'' (DKey sample_key)
     (db admin_state)\<rparr>"

lemma key_state_db:
  "db key_state = [(KSettings, ''policy'', DPolicy scenario_policy),
     (KAdmin, ''c'', DAdmin \<lparr>admin_id = ''c'', csrf = ''x'', expires = 9000, epoch = auth_epoch sample_app (db (scenario_state []))\<rparr>),
     (KKey, ''mg_k'', DKey sample_key)]"
  by (simp add: key_state_def admin_state_def scenario_state_def initial_gw_def)

lemma key_state_signed: "signed_in sample_app sample_http key_state"
  using sample_signed_in
  by (simp add: signed_in_def key_state_def admin_state_def get_admin_def auth_epoch_def generation_text_def)

theorem revoke_refuses_key_witness:
  "\<exists>s'. revoke sample_app sample_http ''k1'' key_state = (Inr (), s', []) \<and>
     api_key sample_app sample_http s' = Inl (err_status ''invalid_api_key'' 401)"
proof -
  have ok: "db_ok (db key_state)" by (simp add: key_state_db db_ok_def)
  have u: "keys_unique (db key_state)"
    by (auto simp: key_state_db keys_unique_def get_key_def split: if_splits option.splits)
  obtain k where k: "api_key sample_app sample_http key_state = Inr k" "key_id k = ''k1''"
    by (simp add: sample_key_def api_key_def sample_app_def sample_http_def bearer_def key_state_db get_key_def)
  from revoke_refuses_key [OF key_state_signed ok u k(1)] k(2) show ?thesis by metis
qed

lemma admin_frame:
  assumes "clock t = clock s" and "\<And>i. db_get (db t) KAdmin i = db_get (db s) KAdmin i"
    and "db_get (db t) KSettings ''auth_generation'' = db_get (db s) KSettings ''auth_generation''"
  shows "admin A q t = admin A q s"
  unfolding admin_def admin_session_def get_admin_def assms epoch_cong [OF assms(3)] by (rule refl)

text \<open>
  C24. Creating a key: the caller gets a credential that authenticates from then on as the stored
  record, and a retry with the same \<open>Idempotency-Key\<close> creates no second key, whatever became of the
  first answer.
\<close>

theorem create_key_once:
  assumes "create_key A q body s = (Inr (token, k), s', t)" and "idempotency_key q \<noteq> []"
    and "authorization r = ''Bearer '' @ token"
  shows "api_key A r s' = Inr k \<and> t = [] \<and>
    create_key A q body s' = (Inl (err_status ''key_already_created'' 409), s', [])"
proof (cases "admin A q s")
  case (Inl e)
  with assms(1) show ?thesis by (simp add: create_key_def as_admin_def bindP_def getP_def liftP_def)
next
  case (Inr a)
  have ok: "key_create_ok body"
    using assms(1) Inr by (auto simp: create_key_def as_admin_run raiseP_def split: if_splits)
  have bearer: "bearer r = token" "prefix ''Bearer '' (authorization r)"
    using assms(3) by (simp_all add: bearer_def)
  have "wp (\<lambda>_ _. False) (create_key A q body) (\<lambda>res u. \<forall>x y. res = Inr (x, y) \<longrightarrow>
      get_key (db u) (digest A x) = Some y \<and> key_enabled y \<and> clock u = clock s \<and>
      (\<forall>i. db_get (db u) KAdmin i = db_get (db s) KAdmin i) \<and>
      db_get (db u) KSettings ''auth_generation'' = db_get (db s) KSettings ''auth_generation'' \<and>
      db_get (db u) KRequest (digest A (''create-key:'' @ idempotency_key q)) \<noteq> None) s"
    using assms(2)
    by (simp add: create_key_def as_admin_wp Inr ok Let_def put_requestP_def put_keyP_def get_key_def db_event_def
        key_record_def)
  then have run: "t = []" "get_key (db s') (digest A token) = Some k" "key_enabled k" "admin A q s' = admin A q s"
    "db_get (db s') KRequest (digest A (''create-key:'' @ idempotency_key q)) \<noteq> None"
    using assms(1) by (auto simp: wp_silent intro: admin_frame)
  with Inr show ?thesis
    using assms(2) ok
    by (simp add: api_key_def bearer create_key_def as_admin_run Let_def bindP_def getP_def raiseP_def)
qed

theorem create_key_once_witness:
  "\<exists>token k s'. create_key sample_app sample_http \<lparr>kc_name = ''n'', kc_models = [], kc_concurrency = 2, kc_rpm = 60\<rparr> admin_state
       = (Inr (token, k), s', []) \<and>
     create_key sample_app sample_http \<lparr>kc_name = ''n'', kc_models = [], kc_concurrency = 2, kc_rpm = 60\<rparr> s'
       = (Inl (err_status ''key_already_created'' 409), s', [])"
proof -
  let ?body = "\<lparr>kc_name = ''n'', kc_models = [], kc_concurrency = 2, kc_rpm = 60\<rparr>"
  obtain a where a: "admin sample_app sample_http admin_state = Inr a"
    using sample_signed_in by (auto simp: admin_signed_in)
  have body: "key_create_ok ?body" by code_simp
  have unused: "db_get (db admin_state) KRequest i = None" for i
    by (simp add: admin_state_def scenario_state_def initial_gw_def)
  have "wp (\<lambda>_ _. False) (create_key sample_app sample_http ?body) (\<lambda>r _. \<exists>x y. r = Inr (x, y)) admin_state"
    by (simp add: create_key_def as_admin_wp a body unused Let_def known_models_def put_requestP_def put_keyP_def)
  then obtain token k s' where run: "create_key sample_app sample_http ?body admin_state = (Inr (token, k), s', [])"
    by (auto simp: wp_silent)
  have "idempotency_key sample_http \<noteq> []" by (simp add: sample_http_def)
  from create_key_once [OF run this, of "sample_http\<lparr>authorization := ''Bearer '' @ token\<rparr>"] run
  show ?thesis by simp
qed

end
