(* ===== verification/Patching.thy ===== *)
theory Patching
  imports Prelude
begin

text \<open>
  Text replacement as Python has it (\<open>in\<close>, \<open>count\<close>, \<open>replace\<close>, \<open>index\<close>), and when a
  passage of a text survives it: a passage that neither contains, nor is contained in, nor overlaps
  the replaced text is still there afterwards. deploy/patch_node.py rests on this.
\<close>

section \<open>Replacement\<close>

text \<open>\<open>text.count(old)\<close> and \<open>text.replace(old, new)\<close>, from left to right, for a text \<open>old\<close> that is not empty.\<close>

fun occurrences :: "string \<Rightarrow> string \<Rightarrow> nat" where
  "occurrences old [] = 0"
| "occurrences old (c # cs) =
    (if prefix old (c # cs) then Suc (occurrences old (drop (length old - 1) cs)) else occurrences old cs)"

fun substitute :: "string \<Rightarrow> string \<Rightarrow> string \<Rightarrow> string" where
  "substitute old new [] = []"
| "substitute old new (c # cs) =
    (if prefix old (c # cs) then new @ substitute old new (drop (length old - 1) cs)
     else c # substitute old new cs)"

text \<open>\<open>text.index(part)\<close>; None is the \<open>ValueError\<close>.\<close>

fun index_of :: "string \<Rightarrow> string \<Rightarrow> nat option" where
  "index_of p [] = (if p = [] then Some 0 else None)"
| "index_of p (c # cs) = (if prefix p (c # cs) then Some 0 else map_option Suc (index_of p cs))"

text \<open>Some occurrences of a text, which do not overlap, are replaced.\<close>

inductive replaced :: "string \<Rightarrow> string \<Rightarrow> string \<Rightarrow> string \<Rightarrow> bool" for old new where
  empty: "replaced old new [] []"
| keep: "replaced old new s t \<Longrightarrow> replaced old new (c # s) (c # t)"
| swap: "replaced old new s t \<Longrightarrow> replaced old new (old @ s) (new @ t)"

inductive_cases replaced_Cons: "replaced old new (c # s) t"

section \<open>What survives\<close>

text \<open>Equality of characters, decided at the first bit that differs.\<close>

fun same_char :: "char \<Rightarrow> char \<Rightarrow> bool" where
  "same_char (Char a0 a1 a2 a3 a4 a5 a6 a7) (Char b0 b1 b2 b3 b4 b5 b6 b7) =
    (if a0 \<noteq> b0 then False else if a1 \<noteq> b1 then False else if a2 \<noteq> b2 then False else if a3 \<noteq> b3 then False
     else if a4 \<noteq> b4 then False else if a5 \<noteq> b5 then False else if a6 \<noteq> b6 then False else a7 = b7)"

lemma same_char_iff [simp]: "same_char c d = (c = d)"
  by (cases c; cases d) auto

fun comparable :: "string \<Rightarrow> string \<Rightarrow> bool" where
  "comparable [] t = True"
| "comparable s [] = True"
| "comparable (c # s) (d # t) = (if same_char c d then comparable s t else False)"

fun clear_of :: "string \<Rightarrow> string \<Rightarrow> bool" where
  "clear_of m [] = True"
| "clear_of m (c # s) = (if comparable m (c # s) then False else clear_of m s)"

fun begins_with :: "string \<Rightarrow> string \<Rightarrow> bool" where
  "begins_with [] t = True"
| "begins_with s [] = False"
| "begins_with (c # s) (d # t) = (if same_char c d then begins_with s t else False)"

lemma begins_sublist: "begins_with s t \<Longrightarrow> sublist s t"
proof -
  assume "begins_with s t"
  then have "prefix s t" by (induction s t rule: begins_with.induct) (auto split: if_splits)
  then show ?thesis by (rule prefix_imp_sublist)
qed

text \<open>No occurrence of one of the two texts can share a character with an occurrence of the other.\<close>

definition disjoint_texts :: "string \<Rightarrow> string \<Rightarrow> bool" where
  "disjoint_texts n m = (if clear_of m n then clear_of n m else False)"

lemma comparable_iff: "comparable s t = (prefix s t \<or> prefix t s)"
  by (induction s t rule: comparable.induct) auto

lemma clear_of_suffix: "clear_of m n \<Longrightarrow> suffix x n \<Longrightarrow> x \<noteq> [] \<Longrightarrow> \<not> prefix m x \<and> \<not> prefix x m"
  by (induction m n rule: clear_of.induct) (auto simp: suffix_Cons comparable_iff split: if_splits)

lemma disjoint_suffix:
  assumes "disjoint_texts n m" and "x \<noteq> []"
  shows "suffix x n \<Longrightarrow> \<not> prefix m x \<and> \<not> prefix x m"
    and "suffix x m \<Longrightarrow> \<not> prefix n x \<and> \<not> prefix x n"
  using assms clear_of_suffix [of m n x] clear_of_suffix [of n m x] unfolding disjoint_texts_def by (auto split: if_splits)

lemma replaced_refl: "replaced old new s s"
  by (induction s) (auto intro: replaced.intros)

lemma replaced_append: "replaced old new s t \<Longrightarrow> replaced old new s' t' \<Longrightarrow> replaced old new (s @ s') (t @ t')"
  by (induction rule: replaced.induct) (auto intro: replaced.intros)

lemma replaced_substitute: "old \<noteq> [] \<Longrightarrow> replaced old new s (substitute old new s)"
proof (induction old new s rule: substitute.induct)
  case (2 old new c cs)
  show ?case
  proof (cases "prefix old (c # cs)")
    case True
    then have "c # cs = old @ drop (length old - 1) cs"
      using 2(3) by (cases old) (auto simp: prefix_def)
    then show ?thesis using 2 True by (metis replaced.swap substitute.simps(2))
  qed (use 2 in \<open>auto intro: replaced.keep\<close>)
qed (auto intro: replaced.empty)

lemma disjoint_front:
  assumes "disjoint_texts n m" and "suffix x n" and "x \<noteq> []"
  shows "\<not> prefix m (x @ b)"
proof
  assume "prefix m (x @ b)"
  then have "prefix m x \<or> prefix x m" by (rule prefix_same_cases) simp
  then show False using disjoint_suffix(1) [OF assms(1,3,2)] by blast
qed

lemma replaced_keeps_front:
  assumes "disjoint_texts n m" and "suffix x n" and "replaced m new (x @ b) t"
  shows "\<exists>b'. t = x @ b' \<and> replaced m new b b'"
  using assms(2,3)
proof (induction x arbitrary: t)
  case (Cons c x)
  have "\<not> prefix m ((c # x) @ b)" using disjoint_front [OF assms(1) Cons.prems(1)] by simp
  moreover have "replaced m new (c # x @ b) t" using Cons.prems(2) by simp
  ultimately obtain t' where t: "t = c # t'" "replaced m new (x @ b) t'"
    by (auto elim!: replaced.cases [of m new "c # x @ b" t] simp: prefix_def)
  have "suffix x n" using Cons.prems(1) by (meson suffix_ConsD)
  then show ?case using Cons.IH [OF _ t(2)] t(1) by auto
qed simp

lemma replaced_survives:
  assumes "disjoint_texts n m" and "n \<noteq> []" and "replaced m new s t" and "s = a @ n @ b"
  shows "sublist n t"
  using assms(3,4)
proof (induction arbitrary: a rule: replaced.induct)
  case empty
  then show ?case using assms(2) by simp
next
  case (keep s t c)
  show ?case
  proof (cases a)
    case Nil
    have "replaced m new (c # s) (c # t)" using keep(1) by (rule replaced.keep)
    then have "replaced m new (n @ b) (c # t)" using keep(3) Nil by simp
    then obtain b' where "c # t = n @ b'" using replaced_keeps_front [OF assms(1), of n] by blast
    then show ?thesis unfolding sublist_def by (metis append_Nil)
  next
    case (Cons d a')
    then have "sublist n t" using keep by auto
    then show ?thesis by (simp add: sublist_Cons_right)
  qed
next
  case (swap s t)
  show ?case
  proof (cases "prefix m a")
    case True
    then obtain a' where "a = m @ a'" by (auto simp: prefix_def)
    then have "sublist n t" using swap by auto
    then show ?thesis by (auto simp: sublist_def) (metis append.assoc)
  next
    case False
    have "m @ s = a @ n @ b" by fact
    then obtain us where "m = a @ us \<and> us @ s = n @ b \<or> m @ us = a \<and> s = us @ n @ b"
      unfolding append_eq_append_conv2 by blast
    then have y: "m = a @ us" "us @ s = n @ b" "us \<noteq> []" using False by auto
    then have "prefix us n \<or> prefix n us" by (metis prefix_same_cases prefixI)
    moreover have "suffix us m" using y(1) by (auto simp: suffix_def)
    ultimately show ?thesis using disjoint_suffix(2) [OF assms(1) y(3)] by blast
  qed
qed

lemma replaced_keeps:
  "disjoint_texts n m \<Longrightarrow> n \<noteq> [] \<Longrightarrow> replaced m new s t \<Longrightarrow> sublist n s \<Longrightarrow> sublist n t"
  using replaced_survives by (auto simp: sublist_def)

text \<open>A replacement that finds its text leaves the new one.\<close>

lemma occurrences_substitute: "0 < occurrences old s \<Longrightarrow> sublist new (substitute old new s)"
proof (induction old new s rule: substitute.induct)
  case (2 old new c cs)
  show ?case
  proof (cases "prefix old (c # cs)")
    case False
    then show ?thesis using 2 by (simp add: sublist_Cons_right)
  qed (auto simp: sublist_def)
qed simp

section \<open>Texts in parts\<close>

text \<open>
  A replacement on a text that is given in parts, when the replaced text is one of the parts and
  cannot overlap the others; the last line of the new text grows together with what follows. It decides what happens to a text without walking through all of it.
\<close>

fun join_parts :: "string list \<Rightarrow> string list \<Rightarrow> string list" where
  "join_parts [] ps = ps"
| "join_parts [l] ps = (case ps of [] \<Rightarrow> [l] | p # ps' \<Rightarrow> (l @ p) # ps')"
| "join_parts (l # ls) ps = l # join_parts ls ps"

fun swap_part :: "string \<Rightarrow> string list \<Rightarrow> string list \<Rightarrow> string list option" where
  "swap_part old new [] = None"
| "swap_part old new (p # ps) =
    (if begins_with old p then
       if begins_with p old then if list_all (clear_of old) ps then Some (join_parts new ps) else None else None
     else if clear_of old p then map_option (Cons p) (swap_part old new ps)
     else None)"

definition same_text :: "string \<Rightarrow> string \<Rightarrow> bool" where
  "same_text s t = (if begins_with s t then begins_with t s else False)"

lemma begins_prefix: "begins_with s t = prefix s t"
  by (induction s t rule: begins_with.induct) auto

lemma replacement_code [code]:
  "occurrences old [] = 0"
  "occurrences old (c # cs) =
    (if begins_with old (c # cs) then Suc (occurrences old (drop (length old - 1) cs)) else occurrences old cs)"
  "substitute old new [] = []"
  "substitute old new (c # cs) =
    (if begins_with old (c # cs) then new @ substitute old new (drop (length old - 1) cs)
     else c # substitute old new cs)"
  "index_of p [] = (if p = [] then Some 0 else None)"
  "index_of p (c # cs) = (if begins_with p (c # cs) then Some 0 else map_option Suc (index_of p cs))"
  by (simp_all add: begins_prefix)

lemma same_text_iff [simp]: "same_text s t = (s = t)"
  by (auto simp: same_text_def begins_prefix prefix_order.eq_iff)

lemma clear_skips:
  assumes "clear_of old p"
  shows "occurrences old (p @ s) = occurrences old s \<and> substitute old new (p @ s) = p @ substitute old new s"
  using assms
proof (induction old p rule: clear_of.induct)
  case (2 m c p)
  then have "\<not> prefix m (c # p @ s)"
    by (auto simp: comparable_iff split: if_splits dest: prefix_same_cases [of m _ "c # p"])
  with 2 show ?case by (auto split: if_splits)
qed simp

lemma clear_parts:
  "list_all (clear_of old) ps \<Longrightarrow> occurrences old (concat ps) = 0 \<and> substitute old new (concat ps) = concat ps"
  by (induction ps) (auto simp: clear_skips)

lemma found_first:
  "old \<noteq> [] \<Longrightarrow> occurrences old (old @ s) = Suc (occurrences old s) \<and> substitute old new (old @ s) = new @ substitute old new s"
  by (cases old) auto

lemma concat_join: "concat (join_parts ls ps) = concat ls @ concat ps"
  by (induction ls ps rule: join_parts.induct) (auto split: list.splits)

lemma swap_part_sound:
  "swap_part old new ps = Some qs \<Longrightarrow> old \<noteq> [] \<Longrightarrow>
    occurrences old (concat ps) = 1 \<and> substitute old (concat new) (concat ps) = concat qs"
proof (induction old new ps arbitrary: qs rule: swap_part.induct)
  case (2 old new p ps)
  show ?case
  proof (cases "begins_with old p")
    case True
    then have "p = old" "list_all (clear_of old) ps" "qs = join_parts new ps"
      using 2(2) by (auto simp: begins_prefix split: if_splits)
    then show ?thesis using found_first [of old] clear_parts [of old ps] concat_join 2(3) by simp
  next
    case False
    then show ?thesis using 2 clear_skips [of old p] by (auto split: if_splits)
  qed
qed simp

text \<open>The lines of a text, with their ends.\<close>

fun lines_of :: "string \<Rightarrow> string list" where
  "lines_of [] = []"
| "lines_of (c # s) =
    (if same_char c (CHR 0x0A) then [c] # lines_of s
     else case lines_of s of [] \<Rightarrow> [[c]] | l # ls \<Rightarrow> (c # l) # ls)"

lemma concat_lines [simp]: "concat (lines_of s) = s"
  by (induction s) (auto split: list.splits)

text \<open>A search that does not stop before the end of a passage.\<close>

definition skips :: "string \<Rightarrow> string \<Rightarrow> bool" where
  "skips m p =
    (\<forall>s new. occurrences m (p @ s) = occurrences m s \<and> substitute m new (p @ s) = p @ substitute m new s \<and>
      index_of m (p @ s) = map_option ((+) (length p)) (index_of m s))"

definition clear_lines :: "string \<Rightarrow> string \<Rightarrow> bool" where
  "clear_lines m p = list_all (clear_of m) (lines_of p)"

lemma map_option_shift:
  "map_option ((+) (0 :: nat)) x = x"
  "map_option ((+) (a :: nat)) (map_option ((+) b) x) = map_option ((+) (a + b)) x"
  "map_option Suc (map_option ((+) b) x) = map_option ((+) (Suc b)) x"
  by (cases x; simp)+

lemma skips_empty: "skips m []"
  by (simp add: skips_def map_option_shift)

lemma skips_append: "skips m p \<Longrightarrow> skips m q \<Longrightarrow> skips m (p @ q)"
  by (simp add: skips_def map_option_shift)

lemma clear_index: "clear_of m p \<Longrightarrow> index_of m (p @ s) = map_option ((+) (length p)) (index_of m s)"
proof (induction m p rule: clear_of.induct)
  case (2 m c p)
  then have "\<not> prefix m (c # p @ s)"
    by (auto simp: comparable_iff split: if_splits dest: prefix_same_cases [of m _ "c # p"])
  with 2 show ?case by (cases "index_of m s") (auto split: if_splits)
qed (simp add: map_option_shift)

lemma clear_skips_all: "clear_of m p \<Longrightarrow> skips m p"
  using clear_skips clear_index by (simp add: skips_def)

lemma clear_lines_skips: "clear_lines m p \<Longrightarrow> skips m p"
proof -
  have "skips m (concat ls)" if "list_all (clear_of m) ls" for ls
    using that by (induction ls) (auto intro: skips_empty skips_append clear_skips_all)
  then show "clear_lines m p \<Longrightarrow> skips m p" by (metis clear_lines_def concat_lines)
qed

lemma skips_whole: "skips m p \<Longrightarrow> substitute m new p = p"
  unfolding skips_def by (metis append_Nil2 substitute.simps(1))

lemma index_first: "index_of p (p @ s) = Some 0"
proof (cases "p @ s")
  case (Cons c t)
  then have "prefix p (c # t)" by (metis prefixI)
  then show ?thesis using Cons by simp
qed simp

end
