(* ===== verification/Deployment.thy ===== *)
theory Deployment
  imports Patching
begin

text \<open>
  deploy/patch_node.py: how the pinned sources of the node get the guards that the gateway relies on
  (the wallet lock, the journal of attempts, the stake limit). The source tree maps file names to
  texts. The script ends at the first check that fails, which ends the build; what it has written
  until then is of no use to anyone, so a failure carries no tree.
\<close>

section \<open>The script\<close>

type_synonym source_tree = "string \<Rightarrow> string option"

datatype stop = No_file | Pinned_mismatch | Assertion_failed | No_such_text

definition newline :: string where "newline = [CHR 0x0A]"
definition tab :: string where "tab = [CHR 0x09]"

type_synonym patch_step = "string \<times> string \<times> string"

text \<open>\<open>replace(file, old, new)\<close>; the count that the script asks for is always one.\<close>

fun patch_file :: "patch_step \<Rightarrow> source_tree \<Rightarrow> stop + source_tree" where
  "patch_file (file, old, new) t =
    (case t file of
       None \<Rightarrow> Inl No_file
     | Some s \<Rightarrow> if occurrences old s \<noteq> 1 then Inl Pinned_mismatch else Inr (t(file \<mapsto> substitute old new s)))"

fun patch_all :: "patch_step list \<Rightarrow> source_tree \<Rightarrow> stop + source_tree" where
  "patch_all [] t = Inr t"
| "patch_all (p # ps) t = (case patch_file p t of Inl e \<Rightarrow> Inl e | Inr t' \<Rightarrow> patch_all ps t')"

text \<open>The library files that are copied into the tree; \<open>native\<close> is the directory deploy/native.\<close>

definition library_names :: "string list" where
  "library_names = [''gateway_progress.go'', ''gateway_progress_test.go'', ''gateway_stake.go'', ''gateway_stake_test.go'']"

fun copy_library :: "source_tree \<Rightarrow> string list \<Rightarrow> source_tree \<Rightarrow> stop + source_tree" where
  "copy_library native [] t = Inr t"
| "copy_library native (n # ns) t =
    (case native n of None \<Rightarrow> Inl No_file | Some s \<Rightarrow> copy_library native ns (t(''internal/lib/'' @ n \<mapsto> s)))"

subsection \<open>The replacements before the controller\<close>

definition service_file :: string where
  "service_file = ''internal/blockchainapi/service.go''"

definition hdkeychain :: patch_step where
  "hdkeychain =
    (''internal/repositories/wallet/hdwallet.go'',
     ''\"github.com/btcsuite/btcutil/hdkeychain\"'',
     ''\"github.com/btcsuite/btcd/btcutil/hdkeychain\"'')"

definition ceil_stake :: patch_step where
  "ceil_stake =
    (service_file,
     ''stake := new(big.Int).Div(new(big.Int).Mul(supply, sessionCost), budget)'' @ newline @ tab @
     ''return stake, nil'',
     ''return lib.GatewaySessionStake(&bid.PricePerSecond.Int, duration, supply, budget)'')"

definition supply_read_again :: string where
  "supply_read_again =
    tab @ ''if !directPayment {'' @ newline @ ''      timestamp := big.NewInt(time.Now().Unix())'' @
    newline @ ''      var refreshErr error'' @ newline @
    ''      supply, refreshErr = s.sessionRouter.GetTotalMORSupply(ctx, timestamp)''"

definition fresh_quote :: patch_step where
  "fresh_quote =
    (service_file,
     tab @
     ''amountTransferred, err := computeSessionTokenAmount(bid, duration, supply, budget, directPayment)'',
     supply_read_again @ newline @
     ''      if refreshErr != nil { return common.Hash{}, false, fmt.Errorf(\"failed to parse token supply: %w\", refreshErr) }'' @
     newline @ ''      budget, refreshErr = s.sessionRouter.GetTodaysBudget(ctx, timestamp)'' @
     newline @
     ''      if refreshErr != nil { return common.Hash{}, false, fmt.Errorf(\"failed to parse token budget: %w\", refreshErr) }'' @
     newline @ ''    }'' @ newline @
     ''    amountTransferred, err := computeSessionTokenAmount(bid, duration, supply, budget, directPayment)'')"

definition max_stake_field :: patch_step where
  "max_stake_field =
    (let old = ''type OpenSessionWithDurationRequest struct {''
     in (''internal/blockchainapi/structs/req.go'',
         old,
         old @ newline @ '' MaxStakeWei *lib.BigInt `json:\"maxStakeWei\"`''))"

definition capability_field :: patch_step where
  "capability_field =
    (let old = ''type ConfigResponse struct {''
     in (''internal/system/structs.go'',
         old,
         old @ newline @ '' GatewayCapabilities []string''))"

definition capabilities :: patch_step where
  "capabilities =
    (let old = ''Version: config.BuildVersion,''
     in (''internal/system/controller.go'',
         old,
         old @ newline @
         '' GatewayCapabilities: []string{\"stake-limit-v1\", \"operation-journal-v1\", \"transaction-progress-v1\"},''))"

definition first_patches :: "patch_step list" where
  "first_patches = [hdkeychain, ceil_stake, fresh_quote, max_stake_field, capability_field, capabilities]"

subsection \<open>The handlers of the controller\<close>

definition controller_file :: string where
  "controller_file = ''internal/blockchainapi/controller.go''"

definition handler_names :: "string list" where
  "handler_names = [''openSessionByBid'', ''closeSession'', ''withdrawUserStakes'']"

definition handler_signature :: "string \<Rightarrow> string" where
  "handler_signature name =
    (if name \<noteq> ''openSessionByBid'' then ''func (c *BlockchainController) '' else ''func (s *BlockchainController) '') @
    name @ ''(ctx *gin.Context) {''"

definition claim_operation :: string where
  "claim_operation = newline @
     '' progress, progressErr := lib.BeginGatewayOperation(ctx.GetHeader(\"X-Gateway-Operation\"))'' @ newline @
     '' if progressErr != nil {ctx.JSON(http.StatusConflict''"

definition injection :: string where
  "injection = claim_operation @
     '', gin.H{\"error\":\"operation exists or journal unavailable\"});return}'' @
     newline @ '' ctx.Set(lib.GatewayProgressKey,progress)'' @ newline @
     '' defer func(){progress.Finish(ctx.Writer.Status())}()'' @ newline"

definition error_result :: string where
  "error_result = ''structs.ErrRes{Error: err.Error()}''"

definition error_with_progress :: string where
  "error_with_progress = ''gin.H{\"error\":err.Error(), \"progress\":progress, \"sessionID\":progress.SessionID}''"

definition open_call :: string where
  "open_call = ''sessionId, err :=''"

definition open_call_limited :: string where
  "open_call_limited = ''if reqPayload.MaxStakeWei != nil {'' @ newline @
     '' ctx.Set(lib.GatewayMaxStakeKey,reqPayload.MaxStakeWei.Unpack())'' @ newline @ '' }'' @ newline @
     '' sessionId, err :=''"

definition open_result :: string where
  "open_result = ''structs.OpenSessionRes{SessionID: sessionId}''"

definition tx_result :: string where
  "tx_result = ''structs.TxRes{Tx: txHash}''"

definition patch_body :: "string \<Rightarrow> string \<Rightarrow> string" where
  "patch_body name part =
    (let p = substitute error_result error_with_progress part in
     if name = ''openSessionByBid'' then
       substitute open_result ''gin.H{\"sessionID\":sessionId,\"progress\":progress}''
         (substitute open_call open_call_limited p)
     else substitute tx_result ''gin.H{\"tx\":txHash,\"progress\":progress}'' p)"

definition closing :: string where
  "closing = newline @ ''}'' @ newline"

text \<open>One round of the loop; the end of a handler is the first line with a closing brace only.\<close>

definition patch_handler :: "string \<Rightarrow> string \<Rightarrow> stop + string" where
  "patch_handler name s =
    (let sig = handler_signature name in
     if occurrences sig s \<noteq> 1 then Inl Assertion_failed
     else
       (let s1 = substitute sig (sig @ injection) s in
        case index_of sig s1 of
          None \<Rightarrow> Inl No_such_text
        | Some start \<Rightarrow>
           (case index_of closing (drop start s1) of
              None \<Rightarrow> Inl No_such_text
            | Some l \<Rightarrow>
               (let n = l + 3 in
                Inr (take start s1 @ patch_body name (take n (drop start s1)) @ drop n (drop start s1))))))"

fun patch_handlers :: "string list \<Rightarrow> string \<Rightarrow> stop + string" where
  "patch_handlers [] s = Inr s"
| "patch_handlers (n # ns) s = (case patch_handler n s of Inl e \<Rightarrow> Inl e | Inr s' \<Rightarrow> patch_handlers ns s')"

definition patch_controller :: "source_tree \<Rightarrow> stop + source_tree" where
  "patch_controller t =
    (case t controller_file of
       None \<Rightarrow> Inl No_file
     | Some s \<Rightarrow> (case patch_handlers handler_names s of Inl e \<Rightarrow> Inl e | Inr s' \<Rightarrow> Inr (t(controller_file \<mapsto> s'))))"

subsection \<open>The replacements after it\<close>

definition stake_check :: patch_step where
  "stake_check =
    (let old = tab @ ''log.Infof(\"attempting to initiate session %s\",''
     in (service_file,
         old,
         tab @
         ''if err := lib.CheckGatewayStake(ctx, amountTransferred); err != nil {return common.Hash{}, false, err}'' @
         newline @ old))"

definition session_mark :: patch_step where
  "session_mark =
    (let old = tab @ ''// Poll until the session is visible on-chain''
     in (service_file,
         old,
         tab @ ''lib.GatewaySession(ctx,sessionID)'' @ newline @ old))"

text \<open>An attempt is journaled before the transaction is built and recorded after it.\<close>

definition attempt_mark :: "string \<Rightarrow> string \<Rightarrow> string" where
  "attempt_mark kind tx =
    ''if err := lib.GatewayAttempt(ctx,\"'' @ kind @ ''\"); err != nil {return nil,err}'' @ newline @ '' tx,err := '' @ tx"

definition attempt_patch :: "string \<Rightarrow> string \<Rightarrow> patch_step" where
  "attempt_patch kind tx =
    (service_file, ''return '' @ tx,
     attempt_mark kind tx @ newline @
     '' if opts.NoSend && err != nil && tx == nil {lib.GatewayBuildFailure(ctx,\"'' @ kind @ ''\")}'' @ newline @
     '' lib.GatewayRecord(ctx,\"'' @ kind @ ''\",tx)'' @ newline @ '' return tx,err'')"

definition approval_tx :: string where
  "approval_tx = ''s.morToken.IncreaseAllowanceTx(opts, s.diamonContractAddr, stake)''"

definition open_tx :: string where
  "open_tx = ''s.sessionRouter.OpenSessionTx(opts, approval, approvalSig, stake, directPayment)''"

definition close_tx :: string where
  "close_tx = ''s.sessionRouter.CloseSessionTx(opts, reportMessage, signedReport)''"

definition withdraw_attempt :: patch_step where
  "withdraw_attempt =
    (let old = ''tx, err := g.sessionRouter.WithdrawUserStakes(opts, user, iterations)''
     in (''internal/repositories/registries/session_router.go'',
         old,
         ''if err := lib.GatewayAttempt(opts.Context,\"withdraw\");err!=nil{return common.Hash{},err}'' @
         newline @ '' '' @ old @ newline @ '' lib.GatewayRecord(opts.Context,\"withdraw\",tx)''))"

definition expiry_owner :: patch_step where
  "expiry_owner =
    (let old = tab @ ''s.rehydrateFromChain(ctx)''
     in (''internal/blockchainapi/session_expiry_handler.go'',
         old,
         old @ newline @ '' if lib.GatewayManaged() { <-ctx.Done(); return ctx.Err() }''))"

text \<open>The lock is held across approval and opening, also when the HTTP client is gone.\<close>

definition open_signature :: string where
  "open_signature = ''func (s *BlockchainService) OpenSession(ctx context.Context, approval, approvalSig []byte, stake *big.Int, directPayment bool, agentUsername string, isTee bool) (common.Hash, error) {''"

definition close_signature :: string where
  "close_signature = ''func (s *BlockchainService) CloseSession(ctx context.Context, sessionID common.Hash) (common.Hash, error) {''"

definition withdraw_signature :: string where
  "withdraw_signature = ''func (s *BlockchainService) WithdrawUserStakes(ctx context.Context, iterations uint8) (common.Hash, error) {''"

definition locked_signature :: "string \<Rightarrow> string" where
  "locked_signature sig = sig @ newline @
     '' unlock, lockErr := lib.GatewayWalletLock(ctx); if lockErr != nil {return common.Hash{},lockErr}; defer unlock()''"

definition lock_patch :: "string \<Rightarrow> patch_step" where
  "lock_patch sig = (service_file, sig, locked_signature sig)"

definition last_patches :: "patch_step list" where
  "last_patches = [stake_check, session_mark,
     attempt_patch ''approval'' approval_tx, attempt_patch ''open'' open_tx, attempt_patch ''close'' close_tx,
     withdraw_attempt, expiry_owner,
     lock_patch open_signature, lock_patch close_signature, lock_patch withdraw_signature]"

definition patch_node :: "source_tree \<Rightarrow> source_tree \<Rightarrow> stop + source_tree" where
  "patch_node native t =
    (case copy_library native library_names t of
       Inl e \<Rightarrow> Inl e
     | Inr t1 \<Rightarrow> (case patch_all first_patches t1 of
         Inl e \<Rightarrow> Inl e
       | Inr t2 \<Rightarrow> (case patch_controller t2 of
           Inl e \<Rightarrow> Inl e
         | Inr t3 \<Rightarrow> patch_all last_patches t3)))"

section \<open>Passages that the script establishes\<close>

definition contains :: "source_tree \<Rightarrow> string \<times> string \<Rightarrow> bool" where
  "contains t g = (case t (fst g) of None \<Rightarrow> False | Some s \<Rightarrow> sublist (snd g) s)"

text \<open>No step touches the passage, and: some step writes it and none after it touches it.\<close>

fun untouched :: "string \<times> string \<Rightarrow> patch_step list \<Rightarrow> bool" where
  "untouched g [] = True"
| "untouched g ((f, old, new) # ps) =
    (if f = fst g then if old \<noteq> [] then if disjoint_texts (snd g) old then untouched g ps else False else False
     else untouched g ps)"

fun established :: "string \<times> string \<Rightarrow> patch_step list \<Rightarrow> bool" where
  "established g [] = False"
| "established g ((f, old, new) # ps) =
    (if f \<noteq> fst g then established g ps
     else if begins_with (snd g) new then untouched g ps
     else established g ps)"

lemma patch_file_keeps:
  assumes "patch_file (f, old, new) t = Inr t'" and "contains t g" and "snd g \<noteq> []"
    and "f = fst g \<longrightarrow> old \<noteq> [] \<and> disjoint_texts (snd g) old"
  shows "contains t' g"
  using assms replaced_keeps [OF _ _ replaced_substitute]
  by (auto simp: contains_def split: option.splits if_splits)

lemma patch_file_writes:
  "patch_file (f, old, new) t = Inr t' \<Longrightarrow> sublist n new \<Longrightarrow> contains t' (f, n)"
  using occurrences_substitute [of old _ new] sublist_order.order.trans
  by (fastforce simp: contains_def split: option.splits if_splits)

lemma patch_all_keeps:
  "patch_all ps t = Inr t' \<Longrightarrow> contains t g \<Longrightarrow> snd g \<noteq> [] \<Longrightarrow> untouched g ps \<Longrightarrow> contains t' g"
  by (induction ps arbitrary: t) (auto split: sum.splits split: if_splits dest: patch_file_keeps simp del: patch_file.simps)

lemma patch_all_establishes:
  "patch_all ps t = Inr t' \<Longrightarrow> established g ps \<Longrightarrow> snd g \<noteq> [] \<Longrightarrow> contains t' g"
proof (induction g ps arbitrary: t rule: established.induct)
  case (2 g f old new ps)
  then obtain t1 where t1: "patch_file (f, old, new) t = Inr t1" "patch_all ps t1 = Inr t'"
    by (auto split: sum.splits simp del: patch_file.simps)
  then show ?case
    using 2 patch_file_writes [OF t1(1) begins_sublist, of "snd g"] patch_all_keeps [OF t1(2), of g]
    by (auto split: if_splits)
qed simp

text \<open>The handlers of the controller.\<close>

definition apart_from_bodies :: "string \<Rightarrow> bool" where
  "apart_from_bodies n = list_all (disjoint_texts n) [error_result, open_call, open_result, tx_result]"

lemma substitute_part_keeps:
  assumes "disjoint_texts n old" and "old \<noteq> []" and "n \<noteq> []" and "sublist n (u @ p @ v)"
  shows "sublist n (u @ substitute old new p @ v)"
  by (rule replaced_keeps [where new = new, OF assms(1,3) _ assms(4)])
    (intro replaced_append replaced_refl replaced_substitute assms(2))

lemma replaced_texts: "error_result \<noteq> []" "open_call \<noteq> []" "open_result \<noteq> []" "tx_result \<noteq> []"
  by (simp_all add: error_result_def open_call_def open_result_def tx_result_def)

lemma patch_body_keeps:
  assumes "apart_from_bodies n" and "n \<noteq> []" and "sublist n (u @ p @ v)"
  shows "sublist n (u @ patch_body name p @ v)"
  using assms unfolding patch_body_def Let_def
  by (auto simp: apart_from_bodies_def intro!: substitute_part_keeps replaced_texts)

lemma patch_handler_text:
  assumes "patch_handler name s = Inr s'" and "apart_from_bodies n" and "n \<noteq> []"
    and "sublist n (substitute (handler_signature name) (handler_signature name @ injection) s)"
  shows "sublist n s'"
proof -
  let ?s1 = "substitute (handler_signature name) (handler_signature name @ injection) s"
  obtain st k where s': "s' = take st ?s1 @ patch_body name (take k (drop st ?s1)) @ drop k (drop st ?s1)"
    using assms(1) by (auto simp: patch_handler_def Let_def split: if_splits option.splits)
  show ?thesis unfolding s'
    by (rule patch_body_keeps [OF assms(2,3)]) (use assms(4) in \<open>simp only: append_take_drop_id\<close>)
qed

lemma patch_handler_keeps:
  assumes "patch_handler name s = Inr s'" and "apart_from_bodies n" and "n \<noteq> []"
    and "disjoint_texts n (handler_signature name)" and "sublist n s"
  shows "sublist n s'"
proof (rule patch_handler_text [OF assms(1-3)])
  have "handler_signature name \<noteq> []" by (simp add: handler_signature_def)
  then show "sublist n (substitute (handler_signature name) (handler_signature name @ injection) s)"
    by (rule replaced_keeps [OF assms(4,3) replaced_substitute assms(5)])
qed

definition journaled_handler :: "string \<Rightarrow> string" where
  "journaled_handler name = handler_signature name @ claim_operation"

lemma patch_handler_writes:
  assumes "patch_handler name s = Inr s'" and "apart_from_bodies (journaled_handler name)"
  shows "sublist (journaled_handler name) s'"
proof (rule patch_handler_text [OF assms])
  have "0 < occurrences (handler_signature name) s"
    using assms(1) by (auto simp: patch_handler_def Let_def split: if_splits)
  then have "sublist (handler_signature name @ injection) (substitute (handler_signature name) (handler_signature name @ injection) s)"
    by (rule occurrences_substitute)
  moreover have "sublist (journaled_handler name) (handler_signature name @ injection)"
    unfolding journaled_handler_def injection_def by (intro prefix_imp_sublist) simp
  ultimately show "sublist (journaled_handler name) (substitute (handler_signature name) (handler_signature name @ injection) s)"
    by (rule sublist_order.order.trans [rotated])
qed (simp add: journaled_handler_def handler_signature_def)

lemma patch_handlers_keeps:
  "patch_handlers ns s = Inr s' \<Longrightarrow> sublist n s \<Longrightarrow> apart_from_bodies n \<Longrightarrow> n \<noteq> [] \<Longrightarrow>
    list_all (\<lambda>m. disjoint_texts n (handler_signature m)) ns \<Longrightarrow> sublist n s'"
  by (induction ns arbitrary: s) (auto split: sum.splits dest: patch_handler_keeps)

definition handler_apart :: "string \<Rightarrow> bool" where
  "handler_apart n =
    (apart_from_bodies (journaled_handler n) \<and>
     list_all (\<lambda>m. if m = n then True else disjoint_texts (journaled_handler n) (handler_signature m)) handler_names)"

lemma patch_handlers_writes:
  assumes "patch_handlers ns s = Inr s'" and "distinct ns" and "n \<in> set ns"
    and "apart_from_bodies (journaled_handler n)"
    and "\<And>m. m \<in> set ns \<Longrightarrow> m \<noteq> n \<Longrightarrow> disjoint_texts (journaled_handler n) (handler_signature m)"
  shows "sublist (journaled_handler n) s'"
  using assms
proof (induction ns arbitrary: s)
  case (Cons m ns)
  then obtain s1 where s1: "patch_handler m s = Inr s1" "patch_handlers ns s1 = Inr s'" by (auto split: sum.splits)
  show ?case
  proof (cases "n = m")
    case True
    have "journaled_handler n \<noteq> []" by (simp add: journaled_handler_def handler_signature_def)
    moreover have "sublist (journaled_handler n) s1" using patch_handler_writes [OF s1(1)] True Cons.prems(4) by simp
    moreover have "list_all (\<lambda>m. disjoint_texts (journaled_handler n) (handler_signature m)) ns"
      using Cons.prems(2,5) True by (auto simp: list_all_iff)
    ultimately show ?thesis using patch_handlers_keeps [OF s1(2)] Cons.prems(4) by blast
  qed (use Cons s1(2) in simp)
qed simp

lemma open_handler_apart: "handler_apart ''openSessionByBid''"
  by code_simp

lemma close_handler_apart: "handler_apart ''closeSession''"
  by code_simp

lemma withdraw_handler_apart: "handler_apart ''withdrawUserStakes''"
  by code_simp

lemma handlers_are_apart: "list_all handler_apart handler_names"
  by (simp add: handler_names_def open_handler_apart close_handler_apart withdraw_handler_apart)

lemma handler_texts:
  assumes "patch_controller t = Inr t'" and "n \<in> set handler_names"
  shows "contains t' (controller_file, journaled_handler n)"
proof -
  obtain s s' where s: "patch_handlers handler_names s = Inr s'" "t' = t(controller_file \<mapsto> s')"
    using assms(1) by (auto simp: patch_controller_def split: option.splits sum.splits)
  have "sublist (journaled_handler n) s'"
    by (rule patch_handlers_writes [OF s(1) _ assms(2)])
      (use handlers_are_apart assms(2) in \<open>auto simp: handler_apart_def list_all_iff handler_names_def\<close>)
  then show ?thesis by (simp add: contains_def s(2))
qed

lemma controller_elsewhere:
  "patch_controller t = Inr t' \<Longrightarrow> contains t g \<Longrightarrow> fst g \<noteq> controller_file \<Longrightarrow> contains t' g"
  by (auto simp: patch_controller_def contains_def split: option.splits sum.splits)

section \<open>Properties\<close>

text \<open>What the gateway relies on in the node.\<close>

definition early_guards :: "(string \<times> string) list" where
  "early_guards = [(service_file, snd (snd ceil_stake)), (service_file, supply_read_again)]"

definition late_guards :: "(string \<times> string) list" where
  "late_guards =
    [(service_file, snd (snd stake_check)), (fst withdraw_attempt, snd (snd withdraw_attempt)),
     (fst expiry_owner, snd (snd expiry_owner)),
     (service_file, attempt_mark ''approval'' approval_tx), (service_file, attempt_mark ''open'' open_tx),
     (service_file, attempt_mark ''close'' close_tx),
     (service_file, locked_signature open_signature), (service_file, locked_signature close_signature),
     (service_file, locked_signature withdraw_signature)]"

definition early_guard :: "string \<times> string \<Rightarrow> bool" where
  "early_guard g =
    (established g first_patches \<and> untouched g last_patches \<and> snd g \<noteq> [] \<and> fst g \<noteq> controller_file)"

definition late_guard :: "string \<times> string \<Rightarrow> bool" where
  "late_guard g = (established g last_patches \<and> snd g \<noteq> [])"

definition handler_guard :: "string \<Rightarrow> bool" where
  "handler_guard n = (untouched (controller_file, journaled_handler n) last_patches \<and> journaled_handler n \<noteq> [])"

lemma ceil_stake_established: "early_guard (service_file, snd (snd ceil_stake))"
  by code_simp

lemma supply_established: "early_guard (service_file, supply_read_again)"
  by code_simp

lemma early_guards_established: "list_all early_guard early_guards"
  by (simp add: early_guards_def ceil_stake_established supply_established)

lemma stake_check_established: "late_guard (service_file, snd (snd stake_check))"
  by code_simp

lemma marks_established:
  "late_guard (fst withdraw_attempt, snd (snd withdraw_attempt))"
  "late_guard (fst expiry_owner, snd (snd expiry_owner))"
  by code_simp+

lemma approval_established: "late_guard (service_file, attempt_mark ''approval'' approval_tx)"
  by code_simp

lemma open_established: "late_guard (service_file, attempt_mark ''open'' open_tx)"
  by code_simp

lemma close_established: "late_guard (service_file, attempt_mark ''close'' close_tx)"
  by code_simp

lemma open_lock_established: "late_guard (service_file, locked_signature open_signature)"
  by code_simp

lemma close_lock_established: "late_guard (service_file, locked_signature close_signature)"
  by code_simp

lemma withdraw_lock_established: "late_guard (service_file, locked_signature withdraw_signature)"
  by code_simp

lemma late_guards_established: "list_all late_guard late_guards"
  by (simp add: late_guards_def stake_check_established marks_established approval_established open_established
      close_established open_lock_established close_lock_established withdraw_lock_established)

lemma handler_guards_established: "list_all handler_guard handler_names"
  by code_simp

lemmas guards_established =
  early_guards_established [unfolded list_all_iff early_guard_def]
  late_guards_established [unfolded list_all_iff late_guard_def]
  handler_guards_established [unfolded list_all_iff handler_guard_def]


section \<open>A tree that is patched\<close>

text \<open>The replacements on a tree whose files are given in parts.\<close>

type_synonym parts_tree = "(string \<times> string list) list"

definition tree_of :: "parts_tree \<Rightarrow> source_tree" where
  "tree_of pt = (\<lambda>f. map_option concat (map_of pt f))"

fun parts_step :: "patch_step \<Rightarrow> parts_tree \<Rightarrow> parts_tree option" where
  "parts_step (file, old, new) [] = None"
| "parts_step (file, old, new) ((f, ps) # pt) =
    (if same_text f file then map_option (\<lambda>qs. (f, qs) # pt) (swap_part old (lines_of new) ps)
     else map_option (Cons (f, ps)) (parts_step (file, old, new) pt))"

fun parts_steps :: "patch_step list \<Rightarrow> parts_tree \<Rightarrow> parts_tree option" where
  "parts_steps [] pt = Some pt"
| "parts_steps ((file, old, new) # ps) pt =
    (if old = [] then None else case parts_step (file, old, new) pt of None \<Rightarrow> None | Some pt' \<Rightarrow> parts_steps ps pt')"

lemma parts_step_sound:
  "parts_step (file', old, new) pt = Some pt' \<Longrightarrow> old \<noteq> [] \<Longrightarrow> patch_file (file', old, new) (tree_of pt) = Inr (tree_of pt')"
proof (induction pt arbitrary: pt')
  case (Cons e pt)
  obtain f ps where e: "e = (f, ps)" by fastforce
  show ?case
  proof (cases "f = file'")
    case True
    then obtain qs where qs: "swap_part old (lines_of new) ps = Some qs" "pt' = (f, qs) # pt"
      using Cons.prems e by auto
    then show ?thesis
      using swap_part_sound [OF qs(1) Cons.prems(2)] True e by (auto simp: tree_of_def fun_eq_iff)
  next
    case False
    then obtain pt1 where pt1: "parts_step (file', old, new) pt = Some pt1" "pt' = e # pt1"
      using Cons.prems e by auto
    have "tree_of (e # qt) g = (if g = f then Some (concat ps) else tree_of qt g)" for qt g
      by (simp add: tree_of_def e)
    then show ?thesis
      using Cons.IH [OF pt1(1) Cons.prems(2)] pt1(2) False by (auto simp: fun_eq_iff split: option.splits if_splits)
  qed
qed simp

lemma parts_steps_sound:
  "parts_steps ps pt = Some pt' \<Longrightarrow> patch_all ps (tree_of pt) = Inr (tree_of pt')"
proof (induction ps pt rule: parts_steps.induct)
  case (2 f old new ps pt)
  then obtain pt1 where "old \<noteq> []" "parts_step (f, old, new) pt = Some pt1" "parts_steps ps pt1 = Some pt'"
    by (auto split: if_splits option.splits)
  with 2 show ?case using parts_step_sound by simp
qed simp

lemma patch_all_frame:
  "patch_all ps t = Inr t' \<Longrightarrow> list_all (\<lambda>p. fst p \<notin> dom u) ps \<Longrightarrow> patch_all ps (t ++ u) = Inr (t' ++ u)"
proof (induction ps arbitrary: t)
  case (Cons p ps)
  obtain f old new where p: "p = (f, old, new)" by (cases p)
  have u: "u f = None" using Cons.prems(2) p by auto
  then have "(t ++ u) f = t f" "t(f \<mapsto> s) ++ u = (t ++ u)(f \<mapsto> s)" for s
    by (auto simp: map_add_def fun_eq_iff split: option.splits)
  then show ?case using Cons p by (auto split: option.splits if_splits) metis+
qed simp

text \<open>A controller with empty handlers.\<close>

definition empty_body :: string where "empty_body = '' return''"

definition raw_handler :: "string \<Rightarrow> string" where
  "raw_handler n = handler_signature n @ empty_body @ closing"

definition claimed_handler :: "string \<Rightarrow> string" where
  "claimed_handler n = handler_signature n @ injection @ empty_body @ closing"

lemma patch_quiet_handler:
  assumes "skips (handler_signature n) u" and "skips (handler_signature n) (empty_body @ closing @ v)"
    and "skips closing (handler_signature n @ injection @ empty_body)"
    and "list_all (\<lambda>m. skips m (claimed_handler n)) [error_result, open_call, open_result, tx_result]"
  shows "patch_handler n (u @ raw_handler n @ v) = Inr (u @ claimed_handler n @ v)"
proof -
  let ?sig = "handler_signature n" and ?b = "handler_signature n @ injection @ empty_body"
  let ?s = "u @ raw_handler n @ v" and ?s1 = "u @ ?b @ closing @ v"
  have sig: "?sig \<noteq> []" by (simp add: handler_signature_def)
  have rest: "occurrences ?sig (empty_body @ closing @ v) = 0" "substitute ?sig new (empty_body @ closing @ v) = empty_body @ closing @ v" for new
    using assms(2) skips_whole [OF assms(2)] unfolding skips_def by (metis append_Nil2 occurrences.simps(1), simp)
  have "occurrences ?sig ?s = 1" "substitute ?sig (?sig @ injection) ?s = ?s1"
    using assms(1) found_first [OF sig] rest unfolding skips_def raw_handler_def by simp_all
  moreover have "index_of ?sig ?s1 = Some (length u)"
    using assms(1) index_first [of ?sig "injection @ empty_body @ closing @ v"] unfolding skips_def by simp
  moreover have "index_of closing (drop (length u) ?s1) = Some (length ?b)"
    using assms(3) index_first [of closing v] unfolding skips_def by simp
  moreover have "length closing = 3" by (simp add: closing_def newline_def)
  moreover have "patch_body n c = c" if "list_all (\<lambda>m. skips m c) [error_result, open_call, open_result, tx_result]" for c
    using that by (simp add: patch_body_def Let_def skips_whole)
  then have "patch_body n (claimed_handler n) = claimed_handler n" using assms(4) by blast
  ultimately show ?thesis
    by (simp add: patch_handler_def claimed_handler_def Let_def)
qed

definition quiet_handler :: "string \<Rightarrow> bool" where
  "quiet_handler n =
    (clear_of closing (injection @ empty_body) \<and>
     list_all (clear_lines (handler_signature n))
       (injection # (empty_body @ closing) # map handler_signature (filter (\<lambda>m. m \<noteq> n) handler_names)) \<and>
     list_all (\<lambda>m. list_all (clear_lines m) [handler_signature n, injection, empty_body, closing])
       [error_result, open_call, open_result, tx_result] \<and>
     clear_lines closing (handler_signature n))"

lemma handlers_quiet: "list_all quiet_handler handler_names"
  by code_simp

lemma quiet_handler_skips:
  assumes "quiet_handler n"
  shows "skips closing (handler_signature n @ injection @ empty_body)"
    and "list_all (\<lambda>m. skips m (claimed_handler n)) [error_result, open_call, open_result, tx_result]"
    and "skips (handler_signature n) (empty_body @ closing)"
    and "m \<in> set handler_names \<Longrightarrow> m \<noteq> n \<Longrightarrow> skips (handler_signature n) (raw_handler m)"
    and "m \<in> set handler_names \<Longrightarrow> m \<noteq> n \<Longrightarrow> skips (handler_signature n) (claimed_handler m)"
  using assms clear_skips_all clear_lines_skips
  unfolding quiet_handler_def claimed_handler_def raw_handler_def list_all_iff
  by (simp_all add: skips_append)

lemma patch_sample_handler:
  assumes "n \<in> set handler_names"
    and "skips (handler_signature n) u" and "skips (handler_signature n) v"
  shows "patch_handler n (u @ raw_handler n @ v) = Inr (u @ claimed_handler n @ v)"
proof (rule patch_quiet_handler [OF assms(2)])
  have q: "quiet_handler n" using handlers_quiet assms(1) by (simp add: list_all_iff)
  show "skips (handler_signature n) (empty_body @ closing @ v)"
    using skips_append [OF quiet_handler_skips(3) [OF q] assms(3)] by simp
qed (rule quiet_handler_skips, use handlers_quiet assms(1) in \<open>simp add: list_all_iff\<close>)+

lemma sample_handler_skips:
  assumes "n \<in> set handler_names" and "m \<in> set handler_names" and "m \<noteq> n"
  shows "skips (handler_signature n) (raw_handler m)" and "skips (handler_signature n) (claimed_handler m)"
  using quiet_handler_skips(4,5) [OF _ assms(2,3)] handlers_quiet assms(1) by (auto simp: list_all_iff)

definition sample_controller :: string where
  "sample_controller = concat (map raw_handler handler_names)"

lemma controller_patched: "patch_handlers handler_names sample_controller = Inr (concat (map claimed_handler handler_names))"
proof -
  define a b c where "a = ''openSessionByBid''" and "b = ''closeSession''" and "c = ''withdrawUserStakes''"
  have names: "handler_names = [a, b, c]" and d: "b \<noteq> a" "c \<noteq> a" "c \<noteq> b"
    by (simp_all add: a_def b_def c_def handler_names_def)
  have abc: "a \<in> set handler_names" "b \<in> set handler_names" "c \<in> set handler_names" by (simp_all add: names)
  note s = sample_handler_skips
  have "patch_handler a (raw_handler a @ raw_handler b @ raw_handler c) = Inr (claimed_handler a @ raw_handler b @ raw_handler c)"
    using patch_sample_handler [OF abc(1) skips_empty skips_append [OF s(1) [OF abc(1,2) d(1)] s(1) [OF abc(1,3) d(2)]]]
    by simp
  moreover have "patch_handler b (claimed_handler a @ raw_handler b @ raw_handler c) = Inr (claimed_handler a @ claimed_handler b @ raw_handler c)"
    by (rule patch_sample_handler [OF abc(2) s(2) [OF abc(2,1) d(1) [symmetric]] s(1) [OF abc(2,3) d(3)]])
  moreover have "patch_handler c (claimed_handler a @ claimed_handler b @ raw_handler c) = Inr (claimed_handler a @ claimed_handler b @ claimed_handler c)"
    using patch_sample_handler [OF abc(3) skips_append [OF s(2) [OF abc(3,1) d(2) [symmetric]] s(2) [OF abc(3,2) d(3) [symmetric]]] skips_empty]
    by simp
  ultimately show ?thesis by (simp add: sample_controller_def names)
qed

definition sample_parts :: parts_tree where
  "sample_parts =
    [(service_file,
      concat (map (\<lambda>p. [fst (snd p), newline])
        (filter (\<lambda>p. same_text (fst p) service_file) (first_patches @ last_patches))))] @
    map (\<lambda>p. (fst p, [fst (snd p)])) (filter (\<lambda>p. \<not> same_text (fst p) service_file) (first_patches @ last_patches))"

lemma sample_runs: "(case parts_steps (first_patches @ last_patches) sample_parts of None \<Rightarrow> False | Some pt \<Rightarrow> True)"
  by code_simp

lemma parts_steps_append:
  "parts_steps (ps @ qs) pt = (case parts_steps ps pt of None \<Rightarrow> None | Some pt' \<Rightarrow> parts_steps qs pt')"
  by (induction ps pt rule: parts_steps.induct) (auto split: option.splits)

definition sample_native :: source_tree where
  "sample_native = map_of (map (\<lambda>n. (n, '''')) library_names)"

definition sample_rest :: source_tree where
  "sample_rest = [controller_file \<mapsto> sample_controller]"

definition sample_copied :: source_tree where
  "sample_copied = sample_rest(''internal/lib/gateway_progress.go'' \<mapsto> '''', ''internal/lib/gateway_progress_test.go'' \<mapsto> '''',
    ''internal/lib/gateway_stake.go'' \<mapsto> '''', ''internal/lib/gateway_stake_test.go'' \<mapsto> '''')"

lemma sample_copies:
  "copy_library sample_native library_names (t ++ sample_rest) = Inr (t ++ sample_copied)"
  by (simp add: sample_native_def library_names_def sample_copied_def)

lemma sample_apart:
  "list_all (\<lambda>p. fst p \<notin> insert controller_file (dom sample_copied)) (first_patches @ last_patches)"
  by (simp add: sample_copied_def sample_rest_def first_patches_def last_patches_def hdkeychain_def ceil_stake_def
      fresh_quote_def max_stake_field_def capability_field_def capabilities_def stake_check_def session_mark_def
      attempt_patch_def withdraw_attempt_def expiry_owner_def lock_patch_def service_file_def controller_file_def Let_def)

lemma sample_patched: "\<exists>t'. patch_node sample_native (tree_of sample_parts ++ sample_rest) = Inr t'"
proof -
  obtain pt1 pt2 where pt: "parts_steps first_patches sample_parts = Some pt1" "parts_steps last_patches pt1 = Some pt2"
    using sample_runs by (auto simp: parts_steps_append split: option.splits)
  let ?c = "concat (map claimed_handler handler_names)"
  let ?u = "sample_copied(controller_file \<mapsto> ?c)"
  have apart: "list_all (\<lambda>p. fst p \<notin> dom sample_copied) first_patches" "list_all (\<lambda>p. fst p \<notin> dom ?u) last_patches"
    using sample_apart by (auto simp: list_all_iff)
  have "sample_copied controller_file = Some sample_controller"
    by (simp add: sample_copied_def sample_rest_def controller_file_def)
  then have "(tree_of pt1 ++ sample_copied) controller_file = Some sample_controller" by simp
  then have "patch_controller (tree_of pt1 ++ sample_copied) = Inr (tree_of pt1 ++ ?u)"
    by (simp add: patch_controller_def controller_patched)
  moreover have "patch_all first_patches (tree_of sample_parts ++ sample_copied) = Inr (tree_of pt1 ++ sample_copied)"
    by (rule patch_all_frame [OF parts_steps_sound [OF pt(1)] apart(1)])
  moreover have "patch_all last_patches (tree_of pt1 ++ ?u) = Inr (tree_of pt2 ++ ?u)"
    by (rule patch_all_frame [OF parts_steps_sound [OF pt(2)] apart(2)])
  ultimately have "patch_node sample_native (tree_of sample_parts ++ sample_rest) = Inr (tree_of pt2 ++ ?u)"
    by (simp add: patch_node_def sample_copies)
  then show ?thesis by blast
qed


end
