(* ===== verification/Ledger.thy ===== *)
theory Ledger
  imports SessionLease
begin

text \<open>
  Exact accounting of the counters of the process (waiting requests, requests per key, open
  connections) when coroutines interleave. What the others do to a counter during the awaits of a
  program is its \<open>drift\<close> along the trace; a program \<open>tallies\<close> when the counter moves by the drift and
  by a known amount of its own, whatever the environment does. No hypothesis on the others is needed.
\<close>

section \<open>Tallies\<close>

definition drift :: "(gw \<Rightarrow> int) \<Rightarrow> env \<Rightarrow> trace \<Rightarrow> int" where
  "drift f E t = sum_list (map (\<lambda>(c, u). f (snd (respond E c u)) - f u) t)"

definition tallies :: "(gw \<Rightarrow> int) \<Rightarrow> env \<Rightarrow> (exn + 'a \<Rightarrow> int) \<Rightarrow> 'a prog \<Rightarrow> bool" where
  "tallies f E d p = (\<forall>s. f (final p s) = f s + drift f E (calls p s) + d (result p s))"

abbreviation neutral :: "(gw \<Rightarrow> int) \<Rightarrow> env \<Rightarrow> 'a prog \<Rightarrow> bool" where
  "neutral f E p \<equiv> tallies f E (\<lambda>_. 0) p"

lemma drift_simps [simp]:
  "drift f E [] = 0"
  "drift f E (x # t) = f (snd (respond E (fst x) (snd x))) - f (snd x) + drift f E t"
  "drift f E (t @ u) = drift f E t + drift f E u"
  by (simp_all add: drift_def case_prod_beta)

lemma tallies_run: "tallies f E d p \<Longrightarrow> p s = (r, u, t) \<Longrightarrow> f u = f s + drift f E t + d r"
  unfolding tallies_def run_defs by (drule spec [of _ s]) simp

lemma talliesI: "(\<And>s r u t. p s = (r, u, t) \<Longrightarrow> f u = f s + drift f E t + d r) \<Longrightarrow> tallies f E d p"
  unfolding tallies_def run_defs by (metis prod.collapse)

lemma tallies_pure [intro!]:
  "neutral f E (retP x)" "neutral f E (raiseP e)" "neutral f E (getP g)" "neutral f E (liftP r)" "neutral f E (pyP y)"
  by (simp_all add: tallies_def run_defs retP_def raiseP_def getP_def liftP_def pyP_def)

lemma tallies_call [intro!]: "neutral f E (callP E c)"
  by (simp add: tallies_def run_defs callP_def split: prod.split)

lemma tallies_mod: "(\<And>s. f (g s) = f s) \<Longrightarrow> neutral f E (modP g)"
  by (simp add: tallies_def run_defs modP_def)

lemma tallies_bind:
  assumes p: "neutral f E p" and k: "\<And>x. tallies f E d (k x)" and "\<And>e s. fst (p s) = Inl e \<Longrightarrow> d (Inl e) = 0"
  shows "tallies f E d (bindP p k)"
proof (rule talliesI)
  fix s r u t assume run: "bindP p k s = (r, u, t)"
  obtain r0 u0 t0 where p0: "p s = (r0, u0, t0)" by (rule prod_cases3)
  with p have 1: "f u0 = f s + drift f E t0" using tallies_run by fastforce
  show "f u = f s + drift f E t + d r"
  proof (cases r0)
    case (Inr x)
    obtain r1 u1 t1 where k1: "k x u0 = (r1, u1, t1)" by (rule prod_cases3)
    from tallies_run [OF k k1] 1 run p0 k1 Inr show ?thesis by (auto simp: bindP_def)
  qed (use 1 run p0 assms(3) [of s] in \<open>auto simp: bindP_def\<close>)
qed

lemma tallies_seq:
  assumes p: "tallies f E d0 p" and k: "\<And>x. tallies f E d (k x)"
    and "\<And>x. d0 (Inr x) = n" and "\<And>e. d0 (Inl e) = n + d (Inl e)"
  shows "tallies f E (\<lambda>r. n + d r) (bindP p k)"
proof (rule talliesI)
  fix s r u t assume run: "bindP p k s = (r, u, t)"
  obtain r0 u0 t0 where p0: "p s = (r0, u0, t0)" by (rule prod_cases3)
  note 1 = tallies_run [OF p p0]
  show "f u = f s + drift f E t + (n + d r)"
  proof (cases r0)
    case (Inr x)
    obtain r1 u1 t1 where k1: "k x u0 = (r1, u1, t1)" by (rule prod_cases3)
    from tallies_run [OF k k1] 1 run p0 k1 Inr assms(3) show ?thesis by (auto simp: bindP_def)
  qed (use 1 run p0 assms(4) in \<open>auto simp: bindP_def\<close>)
qed

lemma tallies_then: "neutral f E p \<Longrightarrow> tallies f E d q \<Longrightarrow> (\<And>e. d (Inl e) = 0) \<Longrightarrow> tallies f E d (thenP p q)"
  unfolding thenP_def by (rule tallies_bind)

lemma tallies_get: "(\<And>x. tallies f E d (k x)) \<Longrightarrow> tallies f E d (bindP (getP g) k)"
  by (rule tallies_bind [OF tallies_pure(3)]) (simp_all add: getP_def)

lemma tallies_try:
  assumes p: "neutral f E p" and h: "\<And>e. tallies f E d (h e)" and k: "\<And>x. tallies f E d (k x)"
  shows "tallies f E d (tryP p h k)"
proof (rule talliesI)
  fix s r u t assume run: "tryP p h k s = (r, u, t)"
  obtain r0 u0 t0 where p0: "p s = (r0, u0, t0)" by (rule prod_cases3)
  with p have 1: "f u0 = f s + drift f E t0" using tallies_run by fastforce
  obtain r1 u1 t1 where q: "(case r0 of Inl e \<Rightarrow> h e u0 | Inr x \<Rightarrow> k x u0) = (r1, u1, t1)" by (rule prod_cases3)
  then have "f u1 = f u0 + drift f E t1 + d r1" by (cases r0) (auto dest: tallies_run [OF h] tallies_run [OF k])
  with 1 run p0 q show "f u = f s + drift f E t + d r" by (auto simp: tryP_def)
qed

lemma tryP_catch: "catchP p h = tryP p h retP"
  by (rule ext) (simp add: catchP_def tryP_def retP_def split: prod.split sum.split)

lemma tallies_catch: "neutral f E p \<Longrightarrow> (\<And>e. neutral f E (h e)) \<Longrightarrow> neutral f E (catchP p h)"
  unfolding tryP_catch by (intro tallies_try tallies_pure)

lemma tallies_finally:
  assumes "tallies f E d p" and "\<And>s. f (g s) = f s + n"
  shows "tallies f E (\<lambda>r. d r + n) (finallyP p g)"
  by (rule talliesI) (auto simp: finallyP_def assms(2) dest: tallies_run [OF assms(1)] split: prod.splits)

text \<open>A step that adds to the counter, before a program that tallies.\<close>

lemma tallies_step:
  assumes "\<And>s. f (g s) = f s + n" and "tallies f E d q"
  shows "tallies f E (\<lambda>r. n + d r) (thenP (modP g) q)"
  by (rule talliesI)
    (auto simp: thenP_def bindP_def modP_def assms(1) dest: tallies_run [OF assms(2)] split: prod.splits)

lemma tallies_weaken: "tallies f E d p \<Longrightarrow> (\<And>s. d (result p s) = d' (result p s)) \<Longrightarrow> tallies f E d' p"
  by (simp add: tallies_def)

text \<open>A program that takes a fixed amount whatever its outcome, before programs that take nothing.\<close>

lemma tallies_sure_then:
  assumes p: "tallies f E (\<lambda>_. n) p" and sure: "\<And>s. result p s = Inr ()" and q: "tallies f E d q"
  shows "tallies f E (\<lambda>r. n + d r) (thenP p q)"
proof (rule talliesI)
  fix s r u t assume run: "thenP p q s = (r, u, t)"
  obtain u0 t0 where p0: "p s = (Inr (), u0, t0)" using sure [of s] by (cases "p s") (simp add: result_def)
  obtain r1 u1 t1 where q1: "q u0 = (r1, u1, t1)" by (rule prod_cases3)
  from tallies_run [OF p p0] tallies_run [OF q q1] run p0 q1 show "f u = f s + drift f E t + (n + d r)"
    by (auto simp: thenP_def bindP_def)
qed

lemma tallies_then_first:
  assumes p: "neutral f E p" and sure: "\<And>s. result p s = Inr ()" and q: "tallies f E d q"
  shows "tallies f E d (thenP p q)"
  using tallies_sure_then [OF p sure q] by simp

lemma tallies_fixed_try:
  assumes p: "tallies f E (\<lambda>_. n) p" and h: "\<And>e. neutral f E (h e)" and k: "\<And>x. neutral f E (k x)"
  shows "tallies f E (\<lambda>_. n) (tryP p h k)"
proof (rule talliesI)
  fix s r u t assume run: "tryP p h k s = (r, u, t)"
  obtain r0 u0 t0 where p0: "p s = (r0, u0, t0)" by (rule prod_cases3)
  obtain r1 u1 t1 where q: "(case r0 of Inl e \<Rightarrow> h e u0 | Inr x \<Rightarrow> k x u0) = (r1, u1, t1)" by (rule prod_cases3)
  then have "f u1 = f u0 + drift f E t1" by (cases r0) (auto dest: tallies_run [OF h] tallies_run [OF k])
  with tallies_run [OF p p0] run p0 q show "f u = f s + drift f E t + n" by (auto simp: tryP_def)
qed

lemma thenP_try: "thenP p q = tryP p raiseP (\<lambda>_. q)"
  by (rule ext) (simp add: thenP_def bindP_def tryP_def raiseP_def split: prod.split sum.split)

lemma tallies_fixed_then: "tallies f E (\<lambda>_. n) p \<Longrightarrow> neutral f E q \<Longrightarrow> tallies f E (\<lambda>_. n) (thenP p q)"
  unfolding thenP_try by (intro tallies_fixed_try tallies_pure)

lemma tallies_if: "tallies f E d p \<Longrightarrow> tallies f E d q \<Longrightarrow> tallies f E d (if b then p else q)"
  by simp

lemma tallies_when: "neutral f E p \<Longrightarrow> neutral f E (whenP b p)"
  by (auto simp: whenP_def)

lemma tallies_option: "tallies f E d p \<Longrightarrow> (\<And>x. tallies f E d (g x)) \<Longrightarrow> tallies f E d (case v of None \<Rightarrow> p | Some x \<Rightarrow> g x)"
  by (cases v) auto

lemma tallies_sum: "(\<And>x. tallies f E d (g x)) \<Longrightarrow> (\<And>y. tallies f E d (h y)) \<Longrightarrow> tallies f E d (case v of Inl x \<Rightarrow> g x | Inr y \<Rightarrow> h y)"
  by (cases v) auto

lemma tallies_exn: "(\<And>g. tallies f E d (k g)) \<Longrightarrow> (\<And>x. tallies f E d (h x)) \<Longrightarrow> tallies f E d p \<Longrightarrow>
    tallies f E d (case e of Gateway g \<Rightarrow> k g | Python x \<Rightarrow> h x | Cancelled \<Rightarrow> p)"
  by (cases e) auto

lemma neutral_bind: "neutral f E p \<Longrightarrow> (\<And>x. neutral f E (k x)) \<Longrightarrow> neutral f E (bindP p k)"
  by (rule tallies_bind) auto

lemma neutral_then: "neutral f E p \<Longrightarrow> neutral f E q \<Longrightarrow> neutral f E (thenP p q)"
  by (rule tallies_then) auto

lemma neutral_finally: "neutral f E p \<Longrightarrow> (\<And>s. f (g s) = f s) \<Longrightarrow> neutral f E (finallyP p g)"
  using tallies_finally [of f E "\<lambda>_. 0" p g 0] by simp

lemmas neutral_rules = tallies_pure tallies_call neutral_bind neutral_then tallies_try tallies_catch neutral_finally
  tallies_if tallies_when tallies_option tallies_sum tallies_exn

section \<open>The session manager does not touch the counters\<close>

text \<open>
  A counter of the gateway is read off the number of waiting requests, the requests per key and the
  connections. Leasing changes the first of them only, and gives back what it takes.
\<close>

locale counter =
  fixes f :: "gw \<Rightarrow> int"
  assumes only: "waiting t = waiting s \<Longrightarrow> key_active t = key_active s \<Longrightarrow> connections t = connections s \<Longrightarrow> f t = f s"
begin

lemma step: "(\<And>s. waiting (g s) = waiting s \<and> key_active (g s) = key_active s \<and> connections (g s) = connections s) \<Longrightarrow>
    neutral f E (modP g)"
  by (intro tallies_mod only) simp_all

lemma uuids: "neutral f E (uuidP E)"
  by (rule talliesI) (auto simp: uuidP_def intro: only)

lemma spawn: "neutral f E (spawnP j)"
  by (rule talliesI) (auto simp: spawnP_def intro: only)

lemma save: "neutral f E (saveP r)"
  unfolding saveP_def by (rule step) simp

lemma setting: "neutral f E (put_settingP i d)"
  unfolding put_settingP_def by (rule step) simp

lemma event: "neutral f E (eventP E a)"
  unfolding eventP_def by (intro neutral_rules uuids step) simp

lemmas local_rules = neutral_rules uuids spawn save setting event

lemma request: "neutral f E (node_request E c)"
  unfolding node_request_def by (intro local_rules)

lemma verify: "neutral f E (verify_identity E)"
  unfolding verify_identity_def node_identity_def not_ready_def by (intro local_rules request step) simp_all

lemma lookup: "neutral f E (sessions_model i)"
  unfolding sessions_model_def by (intro local_rules)

lemma session: "neutral f E (node_session E i)"
  unfolding node_session_def by (intro local_rules request)

lemma check: "neutral f E (check_truth row j)"
  unfolding check_truth_def by (intro local_rules)

lemma mark: "neutral f E (mark_error E row e)"
  unfolding mark_error_def Let_def by (intro local_rules)

lemma schedule: "neutral f E (schedule_close row)"
  unfolding schedule_close_def by (intro local_rules step) simp

lemma rebalance_loop: "neutral f E (rebalance_rows pol rows n counts)"
  by (induction rows arbitrary: n counts) (auto simp: Let_def intro!: local_rules schedule)

lemma balance_pool: "neutral f E rebalance"
  unfolding rebalance_def case_prod_beta by (intro local_rules rebalance_loop)

lemma invalid: "neutral f E (invalidate E row why)"
  unfolding invalidate_def cool_provider_def Let_def by (intro local_rules schedule step) simp

lemma ends_lease: "neutral f E (release row)"
  unfolding release_def case_prod_beta Let_def by (intro local_rules schedule step) simp

lemma discard: "neutral f E (discard_active i)"
  unfolding discard_active_def by (rule step) simp

lemma hot: "neutral f E (lease E i prewarm row t)"
  unfolding lease_def Let_def by (intro local_rules discard schedule)

lemma hot_failed: "neutral f E (lease_failed E row e)"
  unfolding lease_failed_def by (intro local_rules discard mark)

lemma scan: "neutral f E (hot_scan E i prewarm rows)"
  by (induction rows)
    (auto simp: try_hot_def intro!: local_rules verify session check hot hot_failed discard step)

lemma cold: "neutral f E (cold_path E m d od)"
  unfolding cold_path_def await_opener_def start_open_def Let_def case_prod_beta
  by (intro local_rules step) (auto simp: pop_done_def opener_finished_def intro!: local_rules only split: reply.split)

lemma rounds: "neutral f E (acquire_rounds n E i prewarm d od)"
  by (induction n) (auto intro!: local_rules lookup balance_pool scan cold)

end

locale idle_counter = counter +
  assumes unwaiting: "key_active t = key_active s \<Longrightarrow> connections t = connections s \<Longrightarrow> f t = f s"
begin

lemma leasing: "neutral f E (acquire n E i prewarm)"
  unfolding acquire_def case_prod_beta
  by (intro local_rules rounds tallies_mod unwaiting) simp_all

end

interpretation waiting: counter waiting
  by unfold_locales simp

text \<open>
  A request counts as waiting from its admission until \<open>acquire\<close> ends, on every path: what it adds it
  takes off again, whatever the others do meanwhile.
\<close>

lemma acquire_waiting: "neutral waiting E (acquire n E i prewarm)"
proof -
  have "tallies waiting E (\<lambda>r. 1 + (0 + - 1)) (thenP (modP (\<lambda>s. s\<lparr>waiting := waiting s + 1\<rparr>))
      (bindP (getP (\<lambda>s. (mono s + of_int (queue_seconds (db_policy (db s))), mono s + acquisition_timeout (cfg E))))
        (\<lambda>(d, od). finallyP (acquire_rounds n E i prewarm d od) (\<lambda>s. s\<lparr>waiting := waiting s - 1\<rparr>))))"
    unfolding case_prod_beta
    by (intro tallies_step tallies_get tallies_finally waiting.rounds) simp_all
  then show ?thesis
    unfolding acquire_def case_prod_beta
    by (intro neutral_bind tallies_if tallies_pure) (simp add: case_prod_beta)
qed

interpretation requests: idle_counter "\<lambda>s. key_active s k"
  by unfold_locales simp_all

interpretation connections: idle_counter connections
  by unfold_locales simp_all

end
