(* ===== verification/Completion.thy ===== *)
theory Completion
  imports Admission Ledger
begin

text \<open>
  gateway/app.py: \<open>/v1/chat/completions\<close>. A request is checked and admitted without an await; then its
  idempotency key is recorded, a session is leased, the right to use it is checked again, and the
  provider's answer is read whole or as a stream. What the handler holds on the way (the slot of the
  key, the record, the lease, the upstream response) is given back by \<open>cleanup\<close>. A Python handler
  that reads a variable the body assigns becomes one \<open>tryP\<close> per value of it.

  \<open>model_dump\<close> of pydantic is a parameter. The fields of the final log entry are its request and
  outcome. The answer None is a request that is still waiting for a session after the rounds given.
\<close>

section \<open>Checking a request\<close>

definition invalid_request :: exn where
  "invalid_request = err_status ''invalid_request'' 400"

definition routing_fields :: "string list" where
  "routing_fields = [''session_id'', ''model_id'', ''chat_id'', ''provider_url'', ''node_url'']"

definition shape_ok :: "json \<Rightarrow> bool" where
  "shape_ok body =
    (is_dict body \<and> is_str (jget_null ''model'' body) \<and>
     (case jget ''messages'' body of Some (JArr ms) \<Rightarrow> ms \<noteq> [] | _ \<Rightarrow> False) \<and>
     is_bool (jget_or ''stream'' (JBool False) body))"

definition parse_request :: "app \<Rightarrow> string \<Rightarrow> exn + json" where
  "parse_request A raw =
    (case strict_json raw of
       None \<Rightarrow> Inl invalid_request
     | Some body \<Rightarrow>
        if \<not> shape_ok body \<or> list_ex (\<lambda>k. has_key k body) routing_fields \<or> \<not> chat_request_ok (lax_float A) body
        then Inl invalid_request else Inr (model_dump A body))"

section \<open>Admission\<close>

definition window :: "time \<Rightarrow> time list \<Rightarrow> time list" where
  "window now bucket = dropWhile (\<lambda>t. t < now - 60) bucket"

definition count_request :: "key_row \<Rightarrow> time list \<Rightarrow> gw \<Rightarrow> gw" where
  "count_request k bucket s = s\<lparr>rates := (rates s)(key_id k := bucket @ [mono s]),
     key_active := (key_active s)(key_id k := key_active s (key_id k) + 1)\<rparr>"

definition admit :: "key_row \<Rightarrow> json \<Rightarrow> model_policy prog" where
  "admit k body = bindP (getP (\<lambda>s. resolve (db_policy (db s)) (py_str (jget_null ''model'' body)))) (\<lambda>found.
     case found of
       None \<Rightarrow> raiseP (err_status ''model_not_found'' 404)
     | Some m \<Rightarrow>
        if key_models k \<noteq> [] \<and> model_id m \<notin> set (key_models k) then raiseP (err_status ''model_forbidden'' 403)
        else bindP (getP (\<lambda>s. window (mono s) (rates s (key_id k)))) (\<lambda>bucket.
          thenP (modP (\<lambda>s. s\<lparr>rates := (rates s)(key_id k := bucket)\<rparr>))
          (bindP (getP (\<lambda>s. key_rpm k \<le> int (length bucket) \<or> key_concurrency k \<le> key_active s (key_id k))) (\<lambda>full.
            if full then raiseP (err_status ''rate_limit'' 429)
            else thenP (modP (count_request k bucket)) (retP m)))))"

section \<open>What a request holds, and giving it back\<close>

record held =
  h_row :: "srow option"
  h_upstream :: bool
  h_record :: "string option"

definition close_upstream :: "env \<Rightarrow> bool \<Rightarrow> unit prog" where
  "close_upstream E upstream =
    whenP upstream (bindP (callP E Close_upstream) (\<lambda>r. if r = Unreachable then raiseP (Python HTTPError) else retP ()))"

definition free_slot :: "string \<Rightarrow> gw \<Rightarrow> gw" where
  "free_slot i s = s\<lparr>key_active := (key_active s)(i := key_active s i - 1)\<rparr>"

definition finish_record :: "string \<Rightarrow> string option \<Rightarrow> unit prog" where
  "finish_record rid i = (case i of None \<Rightarrow> retP () | Some x \<Rightarrow>
     bindP (getP clock) (\<lambda>now. put_requestP x (completed_request now rid)))"

text \<open>The final blocks of \<open>cleanup\<close>, which run even when closing the upstream response fails.\<close>

definition give_back :: "app \<Rightarrow> http \<Rightarrow> key_row \<Rightarrow> held \<Rightarrow> bool \<Rightarrow> unit prog" where
  "give_back A q k h succeeded =
    thenP (case h_row h of None \<Rightarrow> retP () | Some row \<Rightarrow> release row)
    (thenP (modP (free_slot (key_id k)))
    (thenP (finish_record (request_id q) (h_record h))
      (eventP (app_env A) (Request_finished (request_id q) succeeded))))"

definition cleanup :: "app \<Rightarrow> http \<Rightarrow> key_row \<Rightarrow> held \<Rightarrow> bool \<Rightarrow> unit prog" where
  "cleanup A q k h succeeded = tryP (close_upstream (app_env A) (h_upstream h))
     (\<lambda>e. thenP (give_back A q k h succeeded) (raiseP e)) (\<lambda>_. give_back A q k h succeeded)"

definition blame :: "app \<Rightarrow> held \<Rightarrow> string \<Rightarrow> unit prog" where
  "blame A h why = (case h_row h of None \<Rightarrow> retP () | Some row \<Rightarrow> invalidate (app_env A) row why)"

definition provider_faults :: "string list" where
  "provider_faults = [''provider_protocol'', ''provider_response_too_large'', ''inference_transport'']"

text \<open>The error handlers of the request: what the session is blamed for, and what the client is told.\<close>

definition fault :: "exn \<Rightarrow> string option" where
  "fault e = (case e of
     Gateway g \<Rightarrow> if code g \<in> set provider_faults then Some (code g) else None
   | Python TimeoutError \<Rightarrow> Some ''inference_timeout''
   | Python HTTPError \<Rightarrow> Some ''inference_transport''
   | _ \<Rightarrow> None)"

definition told :: "exn \<Rightarrow> exn" where
  "told e = (case e of
     Python TimeoutError \<Rightarrow> err_status ''inference_timeout'' 504
   | Python HTTPError \<Rightarrow> err_status ''inference_transport'' 502
   | _ \<Rightarrow> e)"

definition failed :: "app \<Rightarrow> http \<Rightarrow> key_row \<Rightarrow> held \<Rightarrow> exn \<Rightarrow> 'a prog" where
  "failed A q k h e =
    thenP (case fault e of None \<Rightarrow> retP () | Some why \<Rightarrow> blame A h why)
      (thenP (cleanup A q k h False) (raiseP (told e)))"

text \<open>The same when \<open>cleanup\<close> has run already and raised itself.\<close>

definition failed_late :: "app \<Rightarrow> held \<Rightarrow> exn \<Rightarrow> 'a prog" where
  "failed_late A h e =
    thenP (case fault e of None \<Rightarrow> retP () | Some why \<Rightarrow> blame A h why) (raiseP (told e))"

section \<open>The idempotency key\<close>

definition record_id :: "app \<Rightarrow> key_row \<Rightarrow> string \<Rightarrow> string" where
  "record_id A k idem = digest A (key_id k @ '':'' @ idem)"

definition claim :: "app \<Rightarrow> http \<Rightarrow> key_row \<Rightarrow> string option prog" where
  "claim A q k =
    (let idem = idempotency_key q; i = record_id A k idem in
     if idem = [] then retP None
     else if 200 < text_length idem then raiseP (err_status ''invalid_idempotency_key'' 400)
     else bindP (getP (\<lambda>s. (db_get (db s) KRequest i \<noteq> None, clock s))) (\<lambda>(again, now).
       if again then raiseP (err_status ''request_already_attempted'' 409)
       else thenP (put_requestP i (DRequest \<lparr>req_state = Started, req_created = now, req_id = request_id q\<rparr>)) (retP (Some i))))"

section \<open>Asking the provider\<close>

definition still_allowed :: "app \<Rightarrow> http \<Rightarrow> string \<Rightarrow> string \<Rightarrow> gw \<Rightarrow> exn + key_row" where
  "still_allowed A q m provider s =
    (case get_key (db s) (digest A (bearer q)) of
       None \<Rightarrow> Inl (err_status ''invalid_api_key'' 401)
     | Some k \<Rightarrow>
        if \<not> key_enabled k \<or> key_models k \<noteq> [] \<and> m \<notin> set (key_models k) then Inl (err_status ''invalid_api_key'' 401)
        else if lease_refused m provider s then Inl (err ''policy_changed'')
        else Inr k)"

fun upstream_status :: "reply \<Rightarrow> exn + int" where
  "upstream_status (Upstream st) = Inr st"
| "upstream_status Task_timeout = Inl (Python TimeoutError)"
| "upstream_status _ = Inl (err_status ''inference_transport'' 502)"

text \<open>From the check after the wait to the status line of the provider; with the deadline.\<close>

definition ask :: "app \<Rightarrow> http \<Rightarrow> string \<Rightarrow> json \<Rightarrow> srow \<Rightarrow> (int \<times> time) prog" where
  "ask A q m body row =
    bindP (getP (still_allowed A q m (row_provider row))) (\<lambda>r. bindP (liftP r) (\<lambda>k.
    bindP (getP (\<lambda>s. (clock s, mono s + request_timeout (cfg (app_env A))))) (\<lambda>(now, deadline).
    thenP (put_keyP (digest A (bearer q)) (k\<lparr>key_last_used := Some now\<rparr>))
    (case chain_id row of
       None \<Rightarrow> raiseP (Python TypeError)
     | Some c \<Rightarrow> bindP (callP (app_env A) (Post_completion c m body (request_id q))) (\<lambda>reply.
         bindP (liftP (upstream_status reply)) (\<lambda>st. retP (st, deadline)))))))"

definition is_error :: "int \<Rightarrow> bool" where
  "is_error st = (400 \<le> st \<and> st \<le> 599)"

definition client_fault :: "int \<Rightarrow> bool" where
  "client_fault st = (400 \<le> st \<and> st < 500 \<and> st \<noteq> 429)"

definition refuse :: "int \<Rightarrow> exn" where
  "refuse st = err_status (if client_fault st then ''provider_request_rejected'' else ''provider_error'')
     (if 400 \<le> st \<and> st < 500 then st else 502)"

definition check_status :: "app \<Rightarrow> srow \<Rightarrow> int \<Rightarrow> unit prog" where
  "check_status A row st =
    (if \<not> is_error st then retP ()
     else thenP (whenP (500 \<le> st \<or> st = 429) (invalidate (app_env A) row (''provider_http_'' @ dec st)))
       (raiseP (refuse st)))"

section \<open>Reading the answer\<close>

datatype reading = Whole json | Events "string list"

definition read_upstream :: "env \<Rightarrow> time \<Rightarrow> (string list \<times> stream_end) prog" where
  "read_upstream E deadline = bindP (getP (\<lambda>s. max 0 (deadline - mono s))) (\<lambda>limit.
     bindP (callP E (Read_upstream limit)) (\<lambda>r.
     case r of Chunks cs e \<Rightarrow> retP (cs, e) | Task_timeout \<Rightarrow> raiseP (Python TimeoutError) | _ \<Rightarrow> raiseP (Python HTTPError)))"

definition checked_answer :: "string \<Rightarrow> exn + json" where
  "checked_answer raw = (case strict_json raw of None \<Rightarrow> Inl protocol_error | Some v \<Rightarrow> validate_completion False v)"

definition read_whole :: "app \<Rightarrow> time \<Rightarrow> json prog" where
  "read_whole A deadline = bindP (read_upstream (app_env A) deadline) (\<lambda>(cs, e).
     bindP (liftP (bounded_body (response_bytes A) cs e)) (\<lambda>raw. liftP (checked_answer raw)))"

text \<open>
  The generator of the streaming response: the events the client gets and, when the stream fails,
  the event that says so. A cancellation (the client has gone) only cleans up.
\<close>

definition interrupted_event :: string where
  "interrupted_event = event_text (''{\"error\":{\"code\":\"stream_interrupted\",'' @
     ''\"message\":\"Provider stream interrupted; no automatic replay was attempted\"}}'')"

definition stream_fault :: "exn \<Rightarrow> string option" where
  "stream_fault e = (case e of
     Gateway g \<Rightarrow> Some (code g)
   | Python x \<Rightarrow> if x \<in> {HTTPError, ValueError, TimeoutError} then Some ''stream_interrupted'' else None
   | Cancelled \<Rightarrow> None)"

definition stream_failed :: "app \<Rightarrow> http \<Rightarrow> key_row \<Rightarrow> held \<Rightarrow> string list \<Rightarrow> exn \<Rightarrow> reading option prog" where
  "stream_failed A q k h evs e = (case stream_fault e of
     None \<Rightarrow> thenP (cleanup A q k h False) (raiseP e)
   | Some why \<Rightarrow> thenP (blame A h why)
       (thenP (cleanup A q k h False) (retP (Some (Events (evs @ [interrupted_event]))))))"

definition stream_answer :: "app \<Rightarrow> http \<Rightarrow> key_row \<Rightarrow> held \<Rightarrow> time \<Rightarrow> reading option prog" where
  "stream_answer A q k h deadline = tryP (read_upstream (app_env A) deadline) (stream_failed A q k h [])
     (\<lambda>(cs, e). case chat_events (float_repr A) (response_bytes A) cs e of
        (evs, Inr _) \<Rightarrow> thenP (cleanup A q k h True) (retP (Some (Events evs)))
      | (evs, Inl x) \<Rightarrow> stream_failed A q k h evs x)"

definition whole_answer :: "app \<Rightarrow> http \<Rightarrow> key_row \<Rightarrow> held \<Rightarrow> time \<Rightarrow> reading option prog" where
  "whole_answer A q k h deadline = tryP (read_whole A deadline) (failed A q k h)
     (\<lambda>v. tryP (cleanup A q k h True) (failed_late A h) (\<lambda>_. retP (Some (Whole v))))"

section \<open>The handler\<close>

definition answer_request :: "app \<Rightarrow> http \<Rightarrow> key_row \<Rightarrow> json \<Rightarrow> srow \<Rightarrow> string option \<Rightarrow> int \<times> time \<Rightarrow> reading option prog" where
  "answer_request A q k body row i answer = (case answer of (st, deadline) \<Rightarrow>
     let h = \<lparr>h_row = Some row, h_upstream = True, h_record = i\<rparr> in
     tryP (check_status A row st) (failed A q k h) (\<lambda>_.
       if truthy (jget_null ''stream'' body) then stream_answer A q k h deadline
       else whole_answer A q k h deadline))"

definition with_session :: "app \<Rightarrow> http \<Rightarrow> key_row \<Rightarrow> json \<Rightarrow> string \<Rightarrow> string option \<Rightarrow> srow option \<Rightarrow> reading option prog" where
  "with_session A q k body m i got = (case got of
     None \<Rightarrow> retP None
   | Some row \<Rightarrow> tryP (ask A q m body row)
       (failed A q k \<lparr>h_row = Some row, h_upstream = False, h_record = i\<rparr>)
       (answer_request A q k body row i))"

definition serve :: "nat \<Rightarrow> app \<Rightarrow> http \<Rightarrow> key_row \<Rightarrow> json \<Rightarrow> string \<Rightarrow> reading option prog" where
  "serve n A q k body m = tryP (claim A q k) (failed A q k \<lparr>h_row = None, h_upstream = False, h_record = None\<rparr>) (\<lambda>i.
     tryP (acquire n (app_env A) m False) (failed A q k \<lparr>h_row = None, h_upstream = False, h_record = i\<rparr>)
       (with_session A q k body m i))"

definition completion :: "nat \<Rightarrow> app \<Rightarrow> http \<Rightarrow> string \<Rightarrow> reading option prog" where
  "completion n A q raw =
    bindP (getP (api_key A q)) (\<lambda>auth. bindP (liftP auth) (\<lambda>k.
    bindP (liftP (parse_request A raw)) (\<lambda>body.
    bindP (admit k body) (\<lambda>m. serve n A q k body (model_id m)))))"

section \<open>Programs that end\<close>

text \<open>A handler that never answers None: it is not left waiting.\<close>

definition answers :: "'a option prog \<Rightarrow> bool" where
  "answers p = (\<forall>s. result p s \<noteq> Inr None)"

lemma answersI: "(\<And>s. wp (\<lambda>_ _. True) p (\<lambda>r _. r \<noteq> Inr None) s) \<Longrightarrow> answers p"
  by (auto simp: answers_def wp_def)

lemma answersD: "answers p \<Longrightarrow> wp (\<lambda>_ _. True) p (\<lambda>r _. r \<noteq> Inr None) s"
  by (auto simp: answers_def wp_def)

lemma answers_rules [intro!]:
  "answers (raiseP e)" "answers (retP (Some x))"
  by (auto intro!: answersI)

lemma answers_then [intro!]: "answers q \<Longrightarrow> answers (thenP p q)"
  unfolding thenP_def by (rule answersI, rule wp_bind_any) (auto dest: answersD)

lemma answers_try [intro!]: "(\<And>e. answers (h e)) \<Longrightarrow> (\<And>x. answers (k x)) \<Longrightarrow> answers (tryP p h k)"
  by (rule answersI, rule wp_try_any) (auto dest: answersD)

lemma failed_answers: "answers (failed A q k h e)"
  unfolding failed_def by (intro answers_then answers_rules)

lemma stream_failed_answers: "answers (stream_failed A q k h evs e)"
  unfolding stream_failed_def by (auto split: option.split)

lemma stream_answers: "answers (stream_answer A q k h deadline)"
  unfolding stream_answer_def by (auto simp: stream_failed_answers split: prod.split sum.split)

lemma whole_answers: "answers (whole_answer A q k h deadline)"
  unfolding whole_answer_def failed_late_def by (auto simp: failed_answers)

lemma request_answers: "answers (answer_request A q k body row i a)"
  unfolding answer_request_def Let_def case_prod_beta
  by (auto simp: failed_answers stream_answers whole_answers)

section \<open>The slot of the key\<close>

lemma sure_result: "(\<And>s. wp (\<lambda>_ _. True) p (\<lambda>r _. r = Inr ()) s) \<Longrightarrow> result p s = Inr ()"
  by (simp add: wp_def)

lemma release_sure: "result (release row) s = Inr ()"
  by (rule sure_result) (auto simp: release_def schedule_close_def Let_def split: option.split)

lemma finish_record_sure: "result (finish_record rid i) s = Inr ()"
  by (rule sure_result) (auto simp: finish_record_def put_requestP_def split: option.split)

lemma blame_sure: "result (blame A h why) s = Inr ()"
  by (rule sure_result)
    (auto simp: blame_def invalidate_def cool_provider_def schedule_close_def Let_def split: option.split)

lemma charge_sure: "result (case why of None \<Rightarrow> retP () | Some w \<Rightarrow> blame A h w) s = Inr ()"
  by (cases why; simp add: blame_sure; simp add: result_def retP_def)

lemma end_lease_sure: "result (case r of None \<Rightarrow> retP () | Some row \<Rightarrow> release row) s = Inr ()"
  by (cases r; simp add: release_sure; simp add: result_def retP_def)

text \<open>
  What the outcome of a part owes for a slot: None is a request that still waits, and keeps it; an
  admission takes it unless it fails.
\<close>

definition kept_slot :: "int \<Rightarrow> exn + 'a option \<Rightarrow> int" where
  "kept_slot v r = (if r = Inr None then 0 else - v)"

definition taken_slot :: "int \<Rightarrow> exn + 'a \<Rightarrow> int" where
  "taken_slot v r = (case r of Inl e \<Rightarrow> 0 | Inr x \<Rightarrow> v)"

definition waits_slot :: "int \<Rightarrow> exn + 'a option \<Rightarrow> int" where
  "waits_slot v r = (if r = Inr None then v else 0)"

text \<open>
  A counter that moves with the slots of the keys: \<open>owed i\<close> is what a slot of key \<open>i\<close> counts for. The
  requests of one key are such a counter, and so are the connections, for which a slot counts nothing.
\<close>

locale slotted = idle_counter +
  fixes owed :: "string \<Rightarrow> int"
  assumes freed: "f (free_slot i s) = f s - owed i"
    and counted: "f (count_request k b s) = f s + owed (key_id k)"
begin

lemma blame_neutral: "neutral f (app_env A) (blame A h why)"
  unfolding blame_def by (intro local_rules invalid)

lemma close_upstream_neutral: "neutral f E (close_upstream E b)"
  unfolding close_upstream_def by (intro local_rules)

lemma put_request_neutral: "neutral f E (put_requestP x d)"
  unfolding put_requestP_def by (rule step) simp

lemma finish_record_neutral: "neutral f E (finish_record rid x)"
  unfolding finish_record_def by (intro local_rules put_request_neutral)

lemma end_lease: "neutral f E (case r of None \<Rightarrow> retP () | Some row \<Rightarrow> release row)"
  by (intro local_rules ends_lease)

lemma give_back_slot: "tallies f (app_env A) (\<lambda>_. - owed (key_id k)) (give_back A q k h b)"
proof -
  have "tallies f (app_env A) (\<lambda>r. 0 + (- owed (key_id k) + 0)) (give_back A q k h b)"
    unfolding give_back_def
    by (rule tallies_sure_then [OF end_lease end_lease_sure], intro tallies_step local_rules finish_record_neutral)
      (simp add: freed)
  then show ?thesis by simp
qed

lemma cleanup_slot: "tallies f (app_env A) (\<lambda>_. - owed (key_id k)) (cleanup A q k h b)"
  unfolding cleanup_def
  by (intro tallies_try tallies_fixed_then give_back_slot local_rules close_upstream_neutral)

lemma charge: "neutral f (app_env A) (case why of None \<Rightarrow> retP () | Some w \<Rightarrow> blame A h w)"
  by (intro local_rules blame_neutral)

lemma failed_slot: "tallies f (app_env A) (\<lambda>_. - owed (key_id k)) (failed A q k h e)"
  unfolding failed_def
  by (intro tallies_then_first [OF charge charge_sure] tallies_fixed_then cleanup_slot tallies_pure)

lemma failed_late_neutral: "neutral f (app_env A) (failed_late A h e)"
  unfolding failed_late_def by (intro neutral_rules charge)

lemma stream_failed_slot: "tallies f (app_env A) (\<lambda>_. - owed (key_id k)) (stream_failed A q k h evs e)"
  unfolding stream_failed_def
  by (intro tallies_option tallies_then_first tallies_fixed_then cleanup_slot blame_neutral blame_sure tallies_pure)

lemma read_upstream_neutral: "neutral f E (read_upstream E deadline)"
  unfolding read_upstream_def by (intro local_rules) (auto split: reply.split)

lemma stream_answer_slot: "tallies f (app_env A) (\<lambda>_. - owed (key_id k)) (stream_answer A q k h deadline)"
  unfolding stream_answer_def case_prod_beta
  by (intro tallies_try tallies_sum tallies_fixed_then stream_failed_slot read_upstream_neutral cleanup_slot tallies_pure)

lemma whole_answer_slot: "tallies f (app_env A) (\<lambda>_. - owed (key_id k)) (whole_answer A q k h deadline)"
  unfolding whole_answer_def read_whole_def case_prod_beta
  by (intro tallies_try failed_slot tallies_fixed_try failed_late_neutral cleanup_slot local_rules read_upstream_neutral)

lemma answer_request_slot: "tallies f (app_env A) (\<lambda>_. - owed (key_id k)) (answer_request A q k body row rec a)"
  unfolding answer_request_def check_status_def Let_def case_prod_beta
  by (intro tallies_try tallies_if failed_slot whole_answer_slot stream_answer_slot local_rules invalid)

lemma answers_slot: "tallies f E (\<lambda>_. - owed (key_id k)) p \<Longrightarrow> answers p \<Longrightarrow> tallies f E (kept_slot (owed (key_id k))) p"
  by (erule tallies_weaken) (simp add: kept_slot_def answers_def)

lemma ask_neutral: "neutral f (app_env A) (ask A q m body row)"
  unfolding ask_def put_keyP_def case_prod_beta
  by (intro local_rules step) simp_all

lemma claim_neutral: "neutral f E (claim A q k)"
  unfolding claim_def case_prod_beta Let_def by (intro local_rules put_request_neutral)

lemma with_session_slot: "tallies f (app_env A) (kept_slot (owed (key_id k))) (with_session A q k body m rec got)"
proof (cases got)
  case None
  have "tallies f (app_env A) (kept_slot (owed (key_id k))) (retP None)"
    by (rule tallies_weaken [OF tallies_pure(1)]) (simp add: kept_slot_def result_def retP_def)
  with None show ?thesis by (simp add: with_session_def)
next
  case (Some row)
  show ?thesis unfolding Some with_session_def option.case
    by (intro tallies_try ask_neutral answers_slot failed_slot answer_request_slot failed_answers request_answers)
qed

lemma serve_slot: "tallies f (app_env A) (kept_slot (owed (key_id k))) (serve n A q k body m)"
  unfolding serve_def
  by (intro tallies_try claim_neutral answers_slot failed_slot failed_answers leasing with_session_slot)

lemma raise_slot: "tallies f E (taken_slot (owed (key_id k))) (raiseP e)"
  by (rule tallies_weaken [OF tallies_pure(2)]) (simp add: taken_slot_def result_def raiseP_def)

lemma count_slot: "tallies f E (taken_slot (owed (key_id k))) (thenP (modP (count_request k bucket)) (retP m))"
proof -
  have "tallies f E (\<lambda>r. owed (key_id k) + 0) (thenP (modP (count_request k bucket)) (retP m))"
    by (intro tallies_step tallies_pure) (simp add: counted)
  then show ?thesis
    by (rule tallies_weaken) (simp add: taken_slot_def result_def thenP_def bindP_def modP_def retP_def)
qed

lemma admit_slot: "tallies f E (taken_slot (owed (key_id k))) (admit k body)"
  unfolding admit_def
  by (intro tallies_get tallies_option tallies_if tallies_then raise_slot count_slot step)
    (simp_all add: taken_slot_def)

lemma admitted_slot:
  "tallies f (app_env A) (waits_slot (owed (key_id k))) (bindP (liftP (parse_request A raw)) (\<lambda>body.
     bindP (admit k body) (\<lambda>m. serve n A q k body (model_id m))))"
proof -
  have "tallies f (app_env A) (\<lambda>r. owed (key_id k) + kept_slot (owed (key_id k)) r)
      (bindP (admit k body) (\<lambda>m. serve n A q k body (model_id m)))" for body
    by (rule tallies_seq [OF admit_slot serve_slot]) (simp_all add: taken_slot_def kept_slot_def)
  then have "tallies f (app_env A) (waits_slot (owed (key_id k)))
      (bindP (admit k body) (\<lambda>m. serve n A q k body (model_id m)))" for body
    by (rule tallies_weaken) (simp add: kept_slot_def waits_slot_def)
  then show ?thesis by - (rule tallies_bind [OF tallies_pure(4)], simp_all add: waits_slot_def)
qed

end

interpretation requests: slotted "\<lambda>s. key_active s i" "\<lambda>k. of_bool (k = i)"
  by unfold_locales (simp_all add: free_slot_def count_request_def)

interpretation connections: slotted connections "\<lambda>_. 0"
  by unfold_locales (simp_all add: free_slot_def count_request_def)

text \<open>The request's key at its start, if it has one.\<close>

definition caller :: "app \<Rightarrow> http \<Rightarrow> gw \<Rightarrow> string option" where
  "caller A q s = (case api_key A q s of Inl e \<Rightarrow> None | Inr k \<Rightarrow> Some (key_id k))"

context slotted
begin

lemma completing:
  "f (final (completion n A q raw) s) = f s + drift f (app_env A) (calls (completion n A q raw) s) +
     waits_slot (case caller A q s of None \<Rightarrow> 0 | Some i \<Rightarrow> owed i) (result (completion n A q raw) s)"
proof (cases "api_key A q s")
  case (Inl e)
  then show ?thesis by (simp add: completion_def run_defs bindP_def getP_def liftP_def waits_slot_def)
next
  case (Inr k)
  let ?p = "bindP (liftP (parse_request A raw)) (\<lambda>body. bindP (admit k body) (\<lambda>m. serve n A q k body (model_id m)))"
  have run: "completion n A q raw s = ?p s"
    using Inr by (simp add: completion_def bindP_def getP_def liftP_def split: prod.split)
  have "f (final ?p s) = f s + drift f (app_env A) (calls ?p s) + waits_slot (owed (key_id k)) (result ?p s)"
    using admitted_slot [of A k raw n q] by (simp add: tallies_def)
  then show ?thesis by (simp add: run_defs run caller_def Inr)
qed

end

text \<open>
  C16. The concurrency count of an application key is exact under every interleaving. From the start
  of a completion request to its end, on every path (refusals, errors of the provider, broken
  streams, timeouts, cancellation at any await), the count moves only by what the other coroutines
  do to it meanwhile; a request that is still waiting for a session holds one slot of its key.
\<close>

theorem completion_counts_slots:
  "key_active (final (completion n A q raw) s) i = key_active s i +
     drift (\<lambda>s. key_active s i) (app_env A) (calls (completion n A q raw) s) +
     (if result (completion n A q raw) s = Inr None \<and> caller A q s = Some i then 1 else 0)"
  by (simp add: requests.completing waits_slot_def split: option.split)

text \<open>
  The middleware counts a request in and out exactly once, whether it is served, refused for its
  size, too slow to upload, or broken off. The framework sends the body of a stream after the
  middleware has returned, so a stream is counted up to the start of its answer.
\<close>

lemma boundary_counts_connections:
  assumes "neutral connections (app_env A) handler"
  shows "connections (final (boundary A q chunks handler) s) =
     connections s + drift connections (app_env A) (calls (boundary A q chunks handler) s)"
proof -
  have "tallies connections (app_env A) (\<lambda>r. 1 + (0 + - 1)) (thenP (modP (\<lambda>s. s\<lparr>connections := connections s + 1\<rparr>))
       (finallyP
         (case (if has_upload (http_method q) then upload_status 0 chunks else None) of
            Some st \<Rightarrow> retP (Inl st)
          | None \<Rightarrow> bindP handler (\<lambda>x. retP (Inr x)))
         (\<lambda>s. s\<lparr>connections := connections s - 1\<rparr>)))"
    by (intro tallies_step tallies_finally tallies_option neutral_bind assms tallies_pure) simp_all
  then have "neutral connections (app_env A) (boundary A q chunks handler)"
    unfolding boundary_def by (intro tallies_get tallies_if tallies_pure) simp
  then show ?thesis by (simp add: tallies_def)
qed

lemma completion_keeps_connections: "neutral connections (app_env A) (completion n A q raw)"
  using connections.completing by (simp add: tallies_def waits_slot_def split: option.split)

section \<open>Who is served, and when\<close>

text \<open>
  What holds in the state in which the provider is asked: the key is known, enabled and in scope for
  the model, the gateway is neither paused nor restarting its node, the model is configured and the
  session's provider permitted. The request is the one admitted, in its checked form.
\<close>

fun authorised :: "app \<Rightarrow> http \<Rightarrow> string \<Rightarrow> call \<times> gw \<Rightarrow> bool" where
  "authorised A q raw (Post_completion c m body rid, u) =
    (parse_request A raw = Inr body \<and> rid = request_id q \<and>
     (\<exists>row :: srow. chain_id row = Some c \<and> \<not> lease_refused m (row_provider row) u) \<and>
     (\<exists>k. get_key (db u) (digest A (bearer q)) = Some k \<and> key_enabled k \<and>
        (key_models k = [] \<or> m \<in> set (key_models k))))"
| "authorised A q raw (c, u) = True"

definition serves :: "app \<Rightarrow> http \<Rightarrow> string \<Rightarrow> 'a prog \<Rightarrow> bool" where
  "serves A q raw p = (\<forall>s. wp (\<lambda>c u. \<not> wallet_call c \<and> authorised A q raw (c, u)) p (\<lambda>_ _. True) s)"

lemma authorised_other: "\<not> inference_call c \<Longrightarrow> authorised A q raw (c, u)"
  by (cases c) simp_all

lemma stays_serves: "stays anything background_call p \<Longrightarrow> serves A q raw p"
  unfolding serves_def by (auto intro!: any.use authorised_other)

lemma serves_try: "serves A q raw p \<Longrightarrow> (\<And>e. serves A q raw (h e)) \<Longrightarrow> (\<And>x. serves A q raw (k x)) \<Longrightarrow> serves A q raw (tryP p h k)"
  unfolding serves_def wp_try by (auto elim!: allE intro: wp_mono split: sum.split)

lemma serves_bind: "serves A q raw p \<Longrightarrow> (\<And>x. serves A q raw (k x)) \<Longrightarrow> serves A q raw (bindP p k)"
  unfolding serves_def wp_bind by (auto elim!: allE intro: wp_mono split: sum.split)

lemma serves_lift: "(\<And>x. r = Inr x \<Longrightarrow> serves A q raw (k x)) \<Longrightarrow> serves A q raw (bindP (liftP r) k)"
  by (cases r) (simp_all add: serves_def)

lemma get_key_put: "get_key (db_put KKey i (DKey k) rs) i = Some k"
  by (simp add: get_key_def)

lemma policy_put_key: "db_policy (db_put KKey i d rs) = db_policy rs"
  by (simp add: db_policy_def)

lemma still_allowedD:
  "still_allowed A q m p s = Inr k \<Longrightarrow>
    get_key (db s) (digest A (bearer q)) = Some k \<and> key_enabled k \<and> (key_models k = [] \<or> m \<in> set (key_models k)) \<and>
    \<not> lease_refused m p s"
  by (auto simp: still_allowed_def split: option.splits if_splits)

lemma ask_serves:
  assumes "parse_request A raw = Inr body"
  shows "serves A q raw (ask A q m body row)"
  unfolding serves_def
proof
  fix s
  show "wp (\<lambda>c u. \<not> wallet_call c \<and> authorised A q raw (c, u)) (ask A q m body row) (\<lambda>_ _. True) s"
  proof (cases "still_allowed A q m (row_provider row) s")
    case (Inr k)
    from still_allowedD [OF this] assms show ?thesis
      by (cases "chain_id row")
        (auto simp: ask_def Inr put_keyP_def get_key_put policy_put_key lease_refused_def Let_def split: sum.split)
  qed (simp add: ask_def)
qed

definition no_submission :: "call \<Rightarrow> bool" where
  "no_submission c = (\<not> wallet_call c)"

lemma no_submission_background: "stays R background_call p \<Longrightarrow> stays R no_submission p"
  by (erule stays_weaken) (simp add: no_submission_def)

context quiet_interference
begin

lemma request_record: "doc_ok KRequest i d \<Longrightarrow> stays R C (put_requestP i d)"
  unfolding put_requestP_def by (rule local) simp

lemma key_record: "stays R C (put_keyP i k)"
  unfolding put_keyP_def by (rule local) simp

lemma claiming: "stays R C (claim A q k)"
  unfolding claim_def Let_def case_prod_beta by (intro local_rules request_record) simp

lemma blaming_one: "stays R C (blame A h w)"
  unfolding blame_def by (intro local_rules invalid)

lemma blaming: "stays R C (case why of None \<Rightarrow> retP () | Some w \<Rightarrow> blame A h w)"
  by (intro local_rules blaming_one)

lemma admitting: "stays R C (admit k body)"
  unfolding admit_def by (intro local_rules local) (simp_all add: count_request_def)

lemma status_check: "stays R C (check_status A row st)"
  unfolding check_status_def by (intro local_rules invalid)

lemma reading_upstream: "rely E R \<Longrightarrow> stays R background_call (read_upstream E d)"
  unfolding read_upstream_def by (intro local_rules await) (auto intro!: local_rules split: reply.split)

lemma reading_whole: "rely (app_env A) R \<Longrightarrow> stays R background_call (read_whole A d)"
  unfolding read_whole_def case_prod_beta by (intro local_rules reading_upstream)

lemma closing_upstream: "rely E R \<Longrightarrow> stays R background_call (close_upstream E b)"
  unfolding close_upstream_def by (intro local_rules await) simp_all

lemma asking: "rely (app_env A) R \<Longrightarrow> stays R no_submission (ask A q m body row)"
  unfolding ask_def case_prod_beta by (intro local_rules key_record await) (simp_all add: no_submission_def)

lemma recording: "stays R C (finish_record rid i)"
  unfolding finish_record_def by (intro local_rules request_record) (simp add: completed_request_def)

end

context lease_interference
begin

lemma giving_back: "stays R C (give_back A q k h b)"
  unfolding give_back_def by (intro local_rules releasing recording lease_step) (simp add: free_slot_def)

lemma cleaning: "rely (app_env A) R \<Longrightarrow> stays R background_call (cleanup A q k h b)"
  unfolding cleanup_def by (intro local_rules closing_upstream giving_back)

lemma failing: "rely (app_env A) R \<Longrightarrow> stays R background_call (failed A q k h e)"
  unfolding failed_def by (intro local_rules cleaning blaming)

lemma stream_failing: "rely (app_env A) R \<Longrightarrow> stays R background_call (stream_failed A q k h evs e)"
  unfolding stream_failed_def blame_def by (intro local_rules cleaning invalid)

lemma answering: "rely (app_env A) R \<Longrightarrow> stays R background_call (answer_request A q k body row i a)"
  unfolding answer_request_def stream_answer_def whole_answer_def failed_late_def Let_def case_prod_beta
  by (intro local_rules cleaning failing stream_failing status_check reading_upstream reading_whole blaming)

lemma with_a_session: "rely (app_env A) R \<Longrightarrow> stays R no_submission (with_session A q k body m i got)"
  unfolding with_session_def
  by (intro local_rules asking no_submission_background answering failing)

lemma serving: "rely (app_env A) R \<Longrightarrow> stays R no_submission (serve n A q k body m)"
  unfolding serve_def
  by (intro local_rules claiming no_submission_background [OF acquiring] no_submission_background [OF failing] with_a_session)

lemma completing: "rely (app_env A) R \<Longrightarrow> stays R no_submission (completion n A q raw)"
  unfolding completion_def by (intro local_rules admitting serving)

end

lemma serve_serves:
  assumes "parse_request A raw = Inr body"
  shows "serves A q raw (serve n A q k body m)"
proof -
  have "serves A q raw (with_session A q k body m i got)" for i got
    unfolding with_session_def
    by (cases got) (simp_all add: serves_try ask_serves [OF assms] stays_serves any.pure any.failing any.answering)
  then show ?thesis unfolding serve_def
    by (intro serves_try [OF stays_serves [OF any.claiming]] serves_try [OF stays_serves [OF any.acquiring]]
      stays_serves [OF any.failing] rely_anything)
qed

text \<open>
  C3. A provider is asked only for a caller who may be served at that moment, whatever happened
  during the waits: the key still exists, is enabled and covers the model; nothing pauses the
  gateway; the policy in force still lists the model and permits the session's provider; and the
  request sent is the checked one. The handler makes no wallet transaction of its own.
\<close>

theorem completion_serves_authorised:
  "list_all (\<lambda>(c, u). \<not> wallet_call c \<and> authorised A q raw (c, u)) (calls (completion n A q raw) s)"
proof -
  have "serves A q raw (completion n A q raw)"
    unfolding completion_def
    by (intro serves_bind [OF stays_serves [OF any.pure(3)]] serves_lift
      serves_bind [OF stays_serves [OF any.admitting]] serve_serves)
  then show ?thesis by (fastforce simp: serves_def wp_def list_all_iff)
qed

section \<open>Leases and the table\<close>

text \<open>
  A program that ends the lease of session \<open>i\<close>: afterwards \<open>j\<close> is reserved if it was and is another
  session. Around it, programs that leave the reservations alone.
\<close>

definition lease_dropped :: "string \<Rightarrow> string \<Rightarrow> gw \<Rightarrow> gw \<Rightarrow> bool" where
  "lease_dropped i j s t = ((db_wf (db s) \<longrightarrow> db_wf (db t)) \<and> (j \<in> active t \<longleftrightarrow> j \<in> active s \<and> j \<noteq> i))"

definition drops :: "string \<Rightarrow> string \<Rightarrow> 'a prog \<Rightarrow> bool" where
  "drops i j p = (\<forall>s. wp (\<lambda>_ _. True) p (\<lambda>_. lease_dropped i j s) s)"

lemma keeps_lease_dropped: "keeps_active j s t \<Longrightarrow> lease_dropped i j t u \<Longrightarrow> lease_dropped i j s u"
  by (auto simp: keeps_active_def lease_dropped_def)

lemma lease_dropped_keeps: "lease_dropped i j s t \<Longrightarrow> keeps_active j t u \<Longrightarrow> lease_dropped i j s u"
  by (auto simp: keeps_active_def lease_dropped_def)

lemma drops_wp: "drops i j p \<Longrightarrow> keeps_active j s t \<Longrightarrow> wp (\<lambda>_ _. True) p (\<lambda>_. lease_dropped i j s) t"
  unfolding drops_def by (blast intro: wp_mono keeps_lease_dropped)

lemma drops_then: "stays (keeps_active j) C p \<Longrightarrow> (\<And>s. result p s = Inr ()) \<Longrightarrow> drops i j q \<Longrightarrow> drops i j (thenP p q)"
  unfolding drops_def wp_then stays_def
  by (auto simp: wp_def intro: keeps_lease_dropped)

lemma drops_try:
  assumes "stays (keeps_active j) C p" and "\<And>e. drops i j (h e)" and "\<And>x. drops i j (k x)"
  shows "drops i j (tryP p h k)"
  unfolding drops_def wp_try
  by (intro allI lease.use [OF assms(1)]) (auto split: sum.split intro: drops_wp assms(2,3))

lemma drops_try_keeps:
  assumes "drops i j p" and "\<And>e. stays (keeps_active j) (\<lambda>_. True) (h e)" and "\<And>x. stays (keeps_active j) (\<lambda>_. True) (k x)"
  shows "drops i j (tryP p h k)"
proof -
  have keep: "wp (\<lambda>_ _. True) q (\<lambda>_. lease_dropped i j s) t" if "stays (keeps_active j) (\<lambda>_. True) q" "lease_dropped i j s t" for q s t
    by (rule lease.use [OF that(1)]) (auto intro: lease_dropped_keeps [OF that(2)])
  have "wp (\<lambda>_ _. True) (tryP p h k) (\<lambda>_. lease_dropped i j s) s" for s
    using assms(1) unfolding drops_def wp_try
    by (elim allE [of _ s] wp_mono) (auto split: sum.split intro: keep assms(2,3))
  then show ?thesis by (simp add: drops_def)
qed

lemma drops_then_keeps: "drops i j p \<Longrightarrow> stays (keeps_active j) (\<lambda>_. True) q \<Longrightarrow> drops i j (thenP p q)"
  unfolding thenP_try by (intro drops_try_keeps lease.pure)

lemma drops_release: "drops (sid row) j (release row)"
  unfolding drops_def
  by (auto simp: release_def schedule_close_def Let_def lease_dropped_def split: option.split)

lemma drops_give_back: "h_row h = Some row \<Longrightarrow> drops (sid row) j (give_back A q k h b)"
  unfolding give_back_def
  by (simp, intro drops_then_keeps drops_release lease.local_rules lease.recording lease.local) (simp add: free_slot_def)

lemma drops_cleanup:
  "h_row h = Some row \<Longrightarrow> rely (app_env A) (keeps_active j) \<Longrightarrow> drops (sid row) j (cleanup A q k h b)"
  unfolding cleanup_def
  by (rule drops_try [OF lease.closing_upstream]) (auto intro: drops_then_keeps drops_give_back lease.pure)

lemma drops_failed:
  "h_row h = Some row \<Longrightarrow> rely (app_env A) (keeps_active j) \<Longrightarrow> drops (sid row) j (failed A q k h e)"
  unfolding failed_def by (intro drops_then drops_then_keeps drops_cleanup lease.pure lease.blaming charge_sure)

lemma drops_stream_failed:
  "h_row h = Some row \<Longrightarrow> rely (app_env A) (keeps_active j) \<Longrightarrow> drops (sid row) j (stream_failed A q k h evs e)"
  unfolding stream_failed_def
  by (cases "stream_fault e")
    (simp_all, (intro drops_then [OF lease.blaming_one blame_sure] drops_then_keeps drops_cleanup lease.pure; assumption)+)

lemma drops_stream:
  "h_row h = Some row \<Longrightarrow> rely (app_env A) (keeps_active j) \<Longrightarrow> drops (sid row) j (stream_answer A q k h d)"
  unfolding stream_answer_def case_prod_beta
  by (rule drops_try [OF lease.reading_upstream])
    (auto simp: drops_stream_failed split: sum.split intro!: drops_then_keeps drops_cleanup lease.pure)

lemma drops_whole:
  "h_row h = Some row \<Longrightarrow> rely (app_env A) (keeps_active j) \<Longrightarrow> drops (sid row) j (whole_answer A q k h d)"
  unfolding whole_answer_def failed_late_def
  by (rule drops_try [OF lease.reading_whole])
    (auto intro!: drops_failed drops_try_keeps drops_cleanup lease.rules lease.blaming)

lemma drops_request:
  "rely (app_env A) (keeps_active j) \<Longrightarrow> drops (sid row) j (answer_request A q k body row i a)"
  unfolding answer_request_def Let_def case_prod_beta
  by (rule drops_try [OF lease.status_check]) (auto intro!: drops_failed drops_stream drops_whole)

lemma drops_session:
  "rely (app_env A) (keeps_active j) \<Longrightarrow> drops (sid row) j (with_session A q k body m i (Some row))"
  unfolding with_session_def option.case
  by (rule drops_try [OF lease.asking]) (auto intro!: drops_failed drops_request)

lemma give_back_none: "h_row h = None \<Longrightarrow> stays (keeps_active j) C (give_back A q k h b)"
  unfolding give_back_def
  by (simp, intro lease.local_rules lease.recording lease.local) (simp add: free_slot_def)

lemma failed_none:
  "h_row h = None \<Longrightarrow> rely (app_env A) (keeps_active j) \<Longrightarrow> stays (keeps_active j) background_call (failed A q k h e)"
  unfolding failed_def cleanup_def
  by (intro lease.local_rules lease.blaming lease.closing_upstream give_back_none)

lemma serve_keeps_leases:
  assumes rely: "rely (app_env A) (keeps_active j)" and wf: "db_wf (db s)"
  shows "wp (\<lambda>_ _. True) (serve n A q k body m) (\<lambda>_. keeps_active j s) s"
proof -
  have fail: "wp (\<lambda>_ _. True) (failed A q k \<lparr>h_row = None, h_upstream = False, h_record = i\<rparr> e) (\<lambda>_. keeps_active j s) u"
    if "keeps_active j s u" for i e u
    by (rule lease.use [OF failed_none [OF _ rely]]) (auto intro: lease.trans [OF that])
  have leased: "wp (\<lambda>_ _. True) (tryP (acquire n (app_env A) m False)
      (failed A q k \<lparr>h_row = None, h_upstream = False, h_record = i\<rparr>) (with_session A q k body m i)) (\<lambda>_. keeps_active j s) u"
    if u: "keeps_active j s u" for i u
    unfolding wp_try
  proof (rule wp_mono [OF acquire_exact [OF rely]])
    show "db_wf (db u)" using u wf by (simp add: keeps_active_def)
    fix r t assume r: "lease_exact j False u r t"
    show "case r of Inl e \<Rightarrow> wp (\<lambda>_ _. True) (failed A q k \<lparr>h_row = None, h_upstream = False, h_record = i\<rparr> e) (\<lambda>_. keeps_active j s) t
      | Inr got \<Rightarrow> wp (\<lambda>_ _. True) (with_session A q k body m i got) (\<lambda>_. keeps_active j s) t"
    proof (cases r)
      case (Inl e)
      with r u wf have "keeps_active j s t" by (simp add: keeps_active_def lease_exact_def)
      with Inl fail show ?thesis by simp
    next
      case (Inr got)
      show ?thesis
      proof (cases got)
        case None
        with Inr r u wf show ?thesis by (simp add: keeps_active_def lease_exact_def with_session_def)
      next
        case (Some row)
        have "wp (\<lambda>_ _. True) (with_session A q k body m i (Some row)) (\<lambda>_. lease_dropped (sid row) j t) t"
          using drops_session [OF rely] by (simp add: drops_def)
        then have "wp (\<lambda>_ _. True) (with_session A q k body m i (Some row)) (\<lambda>_. keeps_active j s) t"
          by (rule wp_mono) (use r u wf Inr Some in \<open>auto simp: keeps_active_def lease_exact_def lease_dropped_def\<close>)
        with Inr Some show ?thesis by simp
      qed
    qed
  qed simp
  show ?thesis unfolding serve_def wp_try [of _ "claim A q k"]
    by (rule lease.use [OF lease.claiming [where C = "\<lambda>_. True"]]) (auto split: sum.split intro: fail leased simp del: wp_try)
qed

text \<open>
  C15. A request leaves no lease behind and takes none from anybody else: for every session that the
  other coroutines leave alone, it is reserved after the request exactly if it was before, and the
  table stays well formed, on every path including errors, timeouts and cancellation. This is the
  very contract the request relies on, so any number of requests can run side by side.
\<close>

theorem completion_keeps_leases:
  assumes "rely (app_env A) (keeps_active j)" and "db_wf (db s)"
  shows "keeps_active j s (final (completion n A q raw) s)"
proof -
  have serve: "wp (\<lambda>_ _. True) (serve n A q k body m) (\<lambda>_. keeps_active j s) u" if "keeps_active j s u" for k body m u
    by (rule wp_mono [OF serve_keeps_leases [OF assms(1)]])
      (use that assms(2) in \<open>auto simp: keeps_active_def intro: lease.trans\<close>)
  have admitted: "wp (\<lambda>_ _. True) (bindP (admit k body) (\<lambda>m. serve n A q k body (model_id m))) (\<lambda>_. keeps_active j s) s" for k body
    by (rule lease.use_bind [OF lease.admitting [where C = "\<lambda>_. True"]]) (auto intro: serve)
  have "wp (\<lambda>_ _. True) (completion n A q raw) (\<lambda>_. keeps_active j s) s"
    unfolding completion_def wp_get_bind by (intro wp_liftI admitted) (simp_all add: lease.refl)
  then show ?thesis by (simp add: wp_def)
qed

theorem completion_keeps_leases_witness:
  "keeps_active ''s1'' hot_state (final (completion 1 sample_app sample_http ''{}'') hot_state)"
proof (rule completion_keeps_leases)
  have "rely (scenario_env 0) (keeps_active ''s1'')" by (intro rely_scenario, unfold_locales)
  then show "rely (app_env sample_app) (keeps_active ''s1'')" by (simp add: sample_app_def)
  show "db_wf (db hot_state)" by (simp add: hot_state_def)
qed

section \<open>What the client gets\<close>

text \<open>
  The events of a stream: provider chunks that passed validation, and at the end the provider's end
  marker or the notice that the stream was interrupted.
\<close>

definition client_events :: "app \<Rightarrow> string list \<Rightarrow> bool" where
  "client_events A evs = (\<exists>es z. evs = es @ [z] \<and> list_all (chunk_event (float_repr A)) es \<and>
     z \<in> {event_text ''[DONE]'', interrupted_event})"

definition client_answer :: "app \<Rightarrow> exn + reading option \<Rightarrow> bool" where
  "client_answer A r = (case r of
     Inr (Some (Whole v)) \<Rightarrow> validate_completion False v = Inr v
   | Inr (Some (Events evs)) \<Rightarrow> client_events A evs
   | _ \<Rightarrow> True)"

definition shows_client :: "app \<Rightarrow> reading option prog \<Rightarrow> bool" where
  "shows_client A p = (\<forall>s. wp (\<lambda>_ _. True) p (\<lambda>r _. client_answer A r) s)"

lemma shows_simple:
  "shows_client A (raiseP e)" "shows_client A (retP None)"
  "client_answer A (Inr (Some x)) \<Longrightarrow> shows_client A (retP (Some x))"
  by (auto simp: shows_client_def client_answer_def)

lemma shows_then: "shows_client A q \<Longrightarrow> shows_client A (thenP p q)"
  unfolding shows_client_def thenP_def by (intro allI wp_bind_any) (auto simp: client_answer_def)

lemma shows_bind: "(\<And>x. shows_client A (k x)) \<Longrightarrow> shows_client A (bindP p k)"
  unfolding shows_client_def by (intro allI wp_bind_any) (auto simp: client_answer_def)

lemma shows_try: "(\<And>e. shows_client A (h e)) \<Longrightarrow> (\<And>x. shows_client A (k x)) \<Longrightarrow> shows_client A (tryP p h k)"
  unfolding shows_client_def by (intro allI wp_try_any) auto

lemma shows_failed: "shows_client A (failed A q k h e)" "shows_client A (failed_late A h e)"
  unfolding failed_def failed_late_def by (intro shows_then shows_simple)+

lemma shows_stream_failed: "list_all (chunk_event (float_repr A)) evs \<Longrightarrow> shows_client A (stream_failed A q k h evs e)"
  unfolding stream_failed_def
  by (cases "stream_fault e") (auto simp: client_answer_def client_events_def intro!: shows_then shows_simple)

lemma chat_events_parts:
  assumes "chat_events repr limit cs e = (evs, r)"
  shows "case r of Inr _ \<Rightarrow> \<exists>es. evs = es @ [event_text ''[DONE]''] \<and> list_all (chunk_event repr) es
    | Inl _ \<Rightarrow> list_all (chunk_event repr) evs"
  using events_loop_events [of repr limit "[]" 0 cs e] assms by (auto simp: chat_events_def list_all_iff split: sum.split)

lemma shows_stream: "shows_client A (stream_answer A q k h d)"
proof -
  have "shows_client A (case r of Inr _ \<Rightarrow> thenP (cleanup A q k h True) (retP (Some (Events evs)))
      | Inl x \<Rightarrow> stream_failed A q k h evs x)"
    if "chat_events (float_repr A) (response_bytes A) cs e = (evs, r)" for cs e evs r
    using chat_events_parts [OF that]
    by (cases r) (auto simp: client_answer_def client_events_def intro!: shows_stream_failed shows_then shows_simple)
  then show ?thesis unfolding stream_answer_def
    by (intro shows_try shows_stream_failed) (auto split: prod.split)
qed

lemma validated_same: "validate_completion b v = Inr w \<Longrightarrow> validate_completion b w = Inr w"
  by (auto simp: validate_completion_def split: option.splits if_splits)

lemma read_whole_validated:
  "wp (\<lambda>_ _. True) (read_whole A d) (\<lambda>r _. \<forall>v. r = Inr v \<longrightarrow> validate_completion False v = Inr v) s"
  unfolding read_whole_def case_prod_beta
  by (rule wp_bind_any) (auto simp: checked_answer_def split: sum.split option.split dest: validated_same)

lemma shows_whole: "shows_client A (whole_answer A q k h d)"
  unfolding shows_client_def
proof
  fix s
  have "wp (\<lambda>_ _. True) (tryP (cleanup A q k h True) (failed_late A h) (\<lambda>_. retP (Some (Whole v)))) (\<lambda>r _. client_answer A r) u"
    if "validate_completion False v = Inr v" for v u
  proof -
    have "shows_client A (tryP (cleanup A q k h True) (failed_late A h) (\<lambda>_. retP (Some (Whole v))))"
      by (intro shows_try shows_failed shows_simple) (simp add: client_answer_def that)
    then show ?thesis by (simp add: shows_client_def)
  qed
  moreover have "wp (\<lambda>_ _. True) (failed A q k h e) (\<lambda>r _. client_answer A r) u" for e u
    using shows_failed(1) by (simp add: shows_client_def)
  ultimately show "wp (\<lambda>_ _. True) (whole_answer A q k h d) (\<lambda>r _. client_answer A r) s"
    unfolding whole_answer_def wp_try [of _ "read_whole A d"]
    by - (rule wp_mono [OF read_whole_validated], auto split: sum.split simp del: wp_try)
qed

text \<open>
  C18. The client gets nothing from a provider that has not been checked: a whole answer passed the
  validation of a completion, and a stream consists of validated chunks and ends with the provider's
  end marker or the gateway's notice of interruption, and with nothing else.
\<close>

theorem completion_answers_validated:
  "client_answer A (result (completion n A q raw) s)"
proof -
  have "shows_client A (answer_request A q k body row i a)" for k body row i a
    unfolding answer_request_def Let_def case_prod_beta
    by (auto intro!: shows_try shows_failed shows_stream shows_whole)
  then have "shows_client A (with_session A q k body m i got)" for k body m i got
    unfolding with_session_def by (cases got) (auto intro!: shows_try shows_failed shows_simple)
  then have "shows_client A (completion n A q raw)"
    unfolding completion_def serve_def by (intro shows_bind shows_try shows_failed)
  then show ?thesis by (simp add: shows_client_def wp_def)
qed

section \<open>At most one attempt\<close>

text \<open>
  C19. A request that carries an \<open>Idempotency-Key\<close> its application has used before is refused at once:
  no session is leased or opened for it, no provider is asked, and the record of the first attempt
  stays as it is.
\<close>

theorem completion_attempted_once:
  assumes "api_key A q s = Inr k" and "idempotency_key q \<noteq> []"
    and "db_get (db s) KRequest (record_id A k (idempotency_key q)) = Some d"
  shows "\<exists>e s'. completion n A q raw s = (Inl e, s', []) \<and>
    db_get (db s') KRequest (record_id A k (idempotency_key q)) = Some d \<and> active s' = active s"
proof -
  let ?i = "record_id A k (idempotency_key q)"
  let ?Q = "\<lambda>r s'. (\<exists>e. r = Inl e) \<and> db_get (db s') KRequest ?i = Some d \<and> active s' = active s"
  have claim: "wp (\<lambda>_ _. False) (serve n A q k body m) ?Q u"
    if "db_get (db u) KRequest ?i = Some d" "active u = active s" for body m u
    using that assms(2)
    by (simp add: serve_def claim_def Let_def failed_def cleanup_def close_upstream_def give_back_def finish_record_def
        free_slot_def fault_def err_status_def gateway_error_def provider_faults_def blame_def told_def db_event_def)
  have "wp (\<lambda>_ _. False) (admit k body) (\<lambda>r u. db_get (db u) KRequest ?i = Some d \<and> active u = active s) s" for body
    using assms(3) by (auto simp: admit_def count_request_def Let_def split: option.split)
  then have "wp (\<lambda>_ _. False) (bindP (admit k body) (\<lambda>m. serve n A q k body (model_id m))) ?Q s" for body
    unfolding wp_bind by (rule wp_mono) (auto split: sum.split intro: claim)
  then have "wp (\<lambda>_ _. False) (completion n A q raw) ?Q s"
    unfolding completion_def wp_get_bind assms(1)
    by (auto simp: assms(3) simp del: wp_bind intro!: wp_liftI)
  then show ?thesis unfolding wp_silent by auto
qed
definition used_state :: gw where
  "used_state = key_state\<lparr>db := db_put KRequest (''k1:once'') (completed_request 1900 ''r0'') (db key_state)\<rparr>"

theorem completion_attempted_once_witness:
  "\<exists>e s'. completion 1 sample_app sample_http ''{}'' used_state = (Inl e, s', []) \<and> active s' = {}"
proof -
  have "api_key sample_app sample_http used_state = Inr sample_key"
    by (simp add: sample_key_def api_key_def sample_app_def sample_http_def bearer_def used_state_def key_state_db get_key_def)
  from completion_attempted_once [OF this, of "completed_request 1900 ''r0''" 1 "''{}''"]
  show ?thesis
    by (simp add: sample_key_def sample_http_def record_id_def sample_app_def used_state_def key_state_def admin_state_def
        scenario_state_def initial_gw_def) blast
qed

section \<open>The limits of a key\<close>

text \<open>
  The specification of the limits: from all times at which the key has been admitted and the number
  of its requests in progress, whether it is admitted now.
\<close>

definition limiter :: "key_row \<Rightarrow> time \<Rightarrow> time list \<Rightarrow> int \<Rightarrow> (time list \<times> int) option" where
  "limiter k now admissions busy =
    (if int (length (filter (\<lambda>t. now - 60 \<le> t) admissions)) < key_rpm k \<and> busy < key_concurrency k
     then Some (admissions @ [now], busy + 1) else None)"

text \<open>The queue the gateway keeps is what is left of the admissions when old ones are dropped.\<close>

definition tracks :: "string \<Rightarrow> time list \<Rightarrow> gw \<Rightarrow> bool" where
  "tracks i admissions s =
    (sorted admissions \<and> list_all (\<lambda>t. t \<le> mono s) admissions \<and>
     (\<exists>old. admissions = old @ rates s i \<and> list_all (\<lambda>t. t < mono s - 60) old))"

definition requested :: "key_row \<Rightarrow> json \<Rightarrow> gw \<Rightarrow> model_policy option" where
  "requested k body s = (case resolve (db_policy (db s)) (py_str (jget_null ''model'' body)) of
     Some m \<Rightarrow> if key_models k = [] \<or> model_id m \<in> set (key_models k) then Some m else None | None \<Rightarrow> None)"

lemma window_filter: "sorted b \<Longrightarrow> window now b = filter (\<lambda>t. now - 60 \<le> t) b"
proof (induction b)
  case (Cons t b)
  then have "now - 60 \<le> t \<Longrightarrow> filter (\<lambda>t. now - 60 \<le> t) b = b" by (auto simp: filter_id_conv)
  with Cons show ?case by (auto simp: window_def)
qed (simp add: window_def)

lemma tracks_window:
  assumes "tracks i H s"
  shows "window (mono s) (rates s i) = filter (\<lambda>t. mono s - 60 \<le> t) H"
proof -
  from assms obtain old where H: "H = old @ rates s i" "sorted H" "\<forall>t \<in> set old. t < mono s - 60"
    by (auto simp: tracks_def list_all_iff)
  then have "sorted (rates s i)" "filter (\<lambda>t. mono s - 60 \<le> t) old = []" by (auto simp: sorted_append filter_empty_conv)
  then show ?thesis using H(1) by (simp add: window_filter)
qed

lemma tracks_trimmed:
  assumes "tracks i H s"
  shows "\<exists>old. H = old @ window (mono s) (rates s i) \<and> list_all (\<lambda>t. t < mono s - 60) old"
proof -
  from assms obtain old where H: "H = old @ rates s i" "list_all (\<lambda>t. t < mono s - 60) old" by (auto simp: tracks_def)
  let ?tw = "takeWhile (\<lambda>t. t < mono s - 60) (rates s i)"
  have "H = (old @ ?tw) @ window (mono s) (rates s i)" using H(1) by (simp add: window_def)
  moreover have "list_all (\<lambda>t. t < mono s - 60) (old @ ?tw)" using H(2) by (auto simp: list_all_iff dest: set_takeWhileD)
  ultimately show ?thesis by blast
qed

text \<open>Time passing keeps the relation, so it holds from the start of the process on.\<close>

lemma tracks_later: "tracks i H s \<Longrightarrow> rates t i = rates s i \<Longrightarrow> mono s \<le> mono t \<Longrightarrow> tracks i H t"
  unfolding tracks_def list_all_iff by (metis diff_right_mono dual_order.strict_trans1 order_trans)

lemma tracks_start: "rates s i = [] \<Longrightarrow> tracks i [] s"
  by (simp add: tracks_def)

lemma tracks_keep:
  assumes "tracks i H s" "rates t i = window (mono s) (rates s i)" "mono t = mono s"
  shows "tracks i H t"
  using assms tracks_trimmed [OF assms(1)] by (simp add: tracks_def)

lemma tracks_add:
  assumes "tracks i H s" "rates t i = window (mono s) (rates s i) @ [mono s]" "mono t = mono s"
  shows "tracks i (H @ [mono s]) t"
  using assms tracks_trimmed [OF assms(1)] by (auto simp: tracks_def sorted_append list_all_iff)

text \<open>
  C17. The limits of a key are those of the specification that remembers every admission: a request
  for a model the key may use is admitted exactly when fewer than its rate were admitted in the last
  60 seconds and fewer than its concurrency are in progress, and then counts as one of both; a
  request that is refused counts as neither. The gateway's queue, which forgets what is older than a
  minute, answers as if it forgot nothing.
\<close>

theorem admit_refines_limiter:
  assumes "tracks (key_id k) H s"
  shows "case admit k body s of (r, s', t) \<Rightarrow> t = [] \<and>
    (case requested k body s of
       None \<Rightarrow> s' = s \<and> r \<in> {Inl (err_status ''model_not_found'' 404), Inl (err_status ''model_forbidden'' 403)}
     | Some m \<Rightarrow>
        (case limiter k (mono s) H (key_active s (key_id k)) of
           Some (H', n) \<Rightarrow> r = Inr m \<and> tracks (key_id k) H' s' \<and> key_active s' = (key_active s)(key_id k := n)
         | None \<Rightarrow> r = Inl (err_status ''rate_limit'' 429) \<and> tracks (key_id k) H s' \<and> key_active s' = key_active s))"
proof -
  have "wp (\<lambda>_ _. False) (admit k body) (\<lambda>r s'. case requested k body s of
       None \<Rightarrow> s' = s \<and> r \<in> {Inl (err_status ''model_not_found'' 404), Inl (err_status ''model_forbidden'' 403)}
     | Some m \<Rightarrow>
        (case limiter k (mono s) H (key_active s (key_id k)) of
           Some (H', n) \<Rightarrow> r = Inr m \<and> tracks (key_id k) H' s' \<and> key_active s' = (key_active s)(key_id k := n)
         | None \<Rightarrow> r = Inl (err_status ''rate_limit'' 429) \<and> tracks (key_id k) H s' \<and> key_active s' = key_active s)) s"
    by (auto simp: admit_def requested_def limiter_def count_request_def tracks_window [OF assms, symmetric]
        intro: tracks_keep [OF assms] tracks_add [OF assms] split: option.split)
  then show ?thesis unfolding wp_silent by auto
qed

text \<open>The second request of a key in a second, and its third, which its rate does not allow.\<close>

theorem admit_refines_limiter_witness:
  "\<exists>m s'. admit (sample_key\<lparr>key_rpm := 2\<rparr>) (JObj [(''model'', JStr ''fast'')]) key_state = (Inr m, s', []) \<and>
     tracks ''k1'' [mono key_state] s' \<and> key_active s' ''k1'' = 1"
proof -
  let ?k = "sample_key\<lparr>key_rpm := 2\<rparr>"
  let ?body = "JObj [(''model'', JStr ''fast'')]"
  have k: "key_id ?k = ''k1''" "key_models ?k = []" "key_rpm ?k = 2" "key_concurrency ?k = 2" by (simp_all add: sample_key_def)
  have idle: "rates key_state = (\<lambda>_. [])" "key_active key_state = (\<lambda>_. 0)"
    by (simp_all add: key_state_def admin_state_def scenario_state_def initial_gw_def)
  have "\<not> Option.is_none (resolve scenario_policy ''fast'')" by code_simp
  then obtain m where m: "requested ?k ?body key_state = Some m"
    by (auto simp: Option.is_none_def requested_def key_state_db db_policy_def k)
  have "tracks (key_id ?k) [] key_state" by (intro tracks_start) (simp add: idle)
  from admit_refines_limiter [OF this, of ?body] show ?thesis
    by (auto simp: m limiter_def idle k split: prod.splits)
qed

end
