(* ===== verification/Lifecycle.thy ===== *)
theory Lifecycle
  imports Completion
begin

text \<open>
  The life of a session row as a state machine over its \<open>state\<close>, and the proof that every operation
  of the session manager moves a row only along it, provided that the others do. The machine
  is the specification; the operations are those of gateway/sessions.py and the completion handler.
\<close>

section \<open>The state machine\<close>

text \<open>
  A row in service or about to be retired may be drained, closed by a submission, or found closed on
  chain. An uncertain opening is resolved to an open or a failed one, an open session may be
  quarantined and come back, and an unconfirmed close is confirmed or taken back.
\<close>

inductive life_step :: "sstate \<Rightarrow> sstate \<Rightarrow> bool" where
  opened: "life_step Opening Open"
| uncertain: "life_step Opening Open_unknown"
| declined: "life_step Opening Failed"
| resolved: "life_step Open_unknown Open"
| reverted: "life_step Open_unknown Failed"
| unverified: "life_step Open Quarantined"
| verified: "life_step Quarantined Open"
| drain: "x \<in> {Opening, Open_unknown, Open, Quarantined, Orphaned, Closing, Close_pending} \<Longrightarrow> life_step x Draining"
| submit: "x \<in> {Opening, Open_unknown, Open, Quarantined, Orphaned, Draining} \<Longrightarrow> life_step x Closing"
| submitted: "life_step Closing Close_pending"
| seen_closed: "x \<notin> {Closed, Failed} \<Longrightarrow> life_step x Closed"

abbreviation life :: "sstate \<Rightarrow> sstate \<Rightarrow> bool" where
  "life \<equiv> life_step\<^sup>*\<^sup>*"

inductive_cases from_Closed: "life_step Closed y"
inductive_cases from_Failed: "life_step Failed y"
inductive_cases to_Failed: "life_step x Failed"
inductive_cases to_service: "life_step x Open" "life_step x Quarantined" "life_step x Open_unknown"
inductive_cases to_Orphaned: "life_step x Orphaned" "life_step x Opening"

text \<open>What the machine means: closed and failed rows are final; \<close>

lemma life_final: "life x y \<Longrightarrow> x \<in> {Closed, Failed} \<Longrightarrow> y = x"
  by (induction rule: rtranclp_induct) (auto elim: from_Closed from_Failed)

text \<open>only an opening that was never confirmed is given up as failed;\<close>

lemma life_failed: "life x y \<Longrightarrow> y = Failed \<Longrightarrow> x \<in> {Opening, Open_unknown, Failed}"
  by (induction rule: converse_rtranclp_induct) (auto elim: life_step.cases)

text \<open>a session that is being retired never returns to service;\<close>

lemma life_retired:
  "life x y \<Longrightarrow> x \<in> {Draining, Closing, Close_pending, Closed} \<Longrightarrow> y \<in> {Draining, Closing, Close_pending, Closed}"
  by (induction rule: rtranclp_induct) (auto elim: life_step.cases)

text \<open>and every session can still be closed.\<close>

lemma life_closes: "x \<notin> {Closed, Failed} \<Longrightarrow> life x Closed"
  by (auto intro: life_step.intros)

section \<open>Operations within a set of states\<close>

definition row_in :: "string \<Rightarrow> (sstate \<Rightarrow> bool) \<Rightarrow> srow \<Rightarrow> bool" where
  "row_in i L row = (sid row = i \<longrightarrow> L (sstate row))"

text \<open>
  The row \<open>i\<close> is stored in a state of the set \<open>L\<close>; it is a session the gateway opened itself, and
  identifiers still to be generated are new.
\<close>

definition row_stored :: "env \<Rightarrow> string \<Rightarrow> (sstate \<Rightarrow> bool) \<Rightarrow> gw \<Rightarrow> bool" where
  "row_stored E i L s =
    (db_wf (db s) \<and> \<not> prefix ''wallet-'' i \<and> (\<forall>n. uuids s \<le> n \<longrightarrow> uuid E n \<noteq> i) \<and>
     (\<exists>r. get_session (db s) i = Some r \<and> L (sstate r)))"

definition keeps_stored :: "env \<Rightarrow> string \<Rightarrow> (sstate \<Rightarrow> bool) \<Rightarrow> gw \<Rightarrow> gw \<Rightarrow> bool" where
  "keeps_stored E i L s t = (row_stored E i L s \<longrightarrow> row_stored E i L t)"

lemma row_stored_mono:
  assumes "row_stored E i L s" "get_session (db t) i = get_session (db s) i" "db_wf (db s) \<longrightarrow> db_wf (db t)" "uuids s \<le> uuids t"
  shows "row_stored E i L t"
  using assms order_trans [OF assms(4)] by (auto simp: row_stored_def)

lemma row_stored_session: "row_stored E i L s \<Longrightarrow> get_session (db s) j = Some r \<Longrightarrow> row_in i L r"
  by (auto simp: row_stored_def row_in_def dest: get_session_sid)

lemma row_stored_listed: "row_stored E i L s \<Longrightarrow> r \<in> set (db_sessions (db s)) \<Longrightarrow> row_in i L r"
  using row_stored_session [of E i L s "sid r" r] by (auto simp: row_stored_def in_db_sessions)

lemma row_stored_live: "row_stored E i L s \<Longrightarrow> r \<in> set (db_sessions (db s)) \<Longrightarrow> sstate r \<noteq> Closed \<and> sstate r \<noteq> Failed"
  by (auto simp: row_stored_def in_db_sessions)

locale session_states =
  fixes E :: env and i :: string and L :: "sstate \<Rightarrow> bool"
  assumes forward: "L x \<Longrightarrow> life_step x y \<Longrightarrow> L y"
begin

lemma moved: "row_in i L row \<Longrightarrow> sid row' = sid row \<Longrightarrow> sstate row' = sstate row \<or> life_step (sstate row) (sstate row') \<Longrightarrow>
    row_in i L row'"
  by (auto simp: row_in_def intro: forward)

end

sublocale session_states \<subseteq> interference "keeps_stored E i L"
  by unfold_locales (simp_all add: keeps_stored_def)

context session_states
begin

abbreviation tame :: "'a prog \<Rightarrow> bool" where
  "tame \<equiv> stays (keeps_stored E i L) (\<lambda>_. True)"

lemma step: "(\<And>s. get_session (db (f s)) i = get_session (db s) i \<and> (db_wf (db s) \<longrightarrow> db_wf (db (f s))) \<and> uuids s \<le> uuids (f s)) \<Longrightarrow>
    stays (keeps_stored E i L) C (modP f)"
  by (rule update) (auto simp: keeps_stored_def intro: row_stored_mono)

text \<open>What a program reads where the row is stored as it should be.\<close>

lemma get: "(\<And>s. row_stored E i L s \<Longrightarrow> tame (k (f s))) \<Longrightarrow> tame (bindP (getP f) k)"
  unfolding stays_def wp_get_bind
proof
  fix s
  assume k: "\<And>s. row_stored E i L s \<Longrightarrow> \<forall>t. wp (\<lambda>c u. True \<and> keeps_stored E i L t u) (k (f s)) (\<lambda>_ s'. keeps_stored E i L t s') t"
  show "wp (\<lambda>c u. True \<and> keeps_stored E i L s u) (k (f s)) (\<lambda>_ s'. keeps_stored E i L s s') s"
  proof (cases "row_stored E i L s")
    case False
    then show ?thesis by (simp add: keeps_stored_def wp_any)
  qed (use k in blast)
qed

lemma seq_where:
  assumes "tame p" and "\<And>s. wp (\<lambda>_ _. True) p (\<lambda>r _. \<forall>x. r = Inr x \<longrightarrow> P x) s" and "\<And>x. P x \<Longrightarrow> tame (f x)"
  shows "tame (bindP p f)"
  unfolding stays_def
  by (intro allI use_bind_result [OF assms(1,2)] use [OF assms(3)]) (auto intro: trans)

lemma mod: "(\<And>s. db (f s) = db s \<and> uuids (f s) = uuids s) \<Longrightarrow> stays (keeps_stored E i L) C (modP f)"
  by (rule step) simp

lemma uuids: "stays (keeps_stored E i L) C (uuidP E)"
  by (auto simp: stays_def keeps_stored_def row_stored_def)

lemma fresh: "(\<And>x. x \<noteq> i \<Longrightarrow> tame (f x)) \<Longrightarrow> tame (bindP (uuidP E) f)"
proof -
  assume f: "\<And>x. x \<noteq> i \<Longrightarrow> tame (f x)"
  have "tame (bindP (getP (\<lambda>s. uuid E (uuids s))) (\<lambda>x. thenP (modP (\<lambda>s. s\<lparr>uuids := Suc (uuids s)\<rparr>)) (f x)))"
    by (intro get seq_unit step f) (auto simp: row_stored_def)
  moreover have "bindP (getP (\<lambda>s. uuid E (uuids s))) (\<lambda>x. thenP (modP (\<lambda>s. s\<lparr>uuids := Suc (uuids s)\<rparr>)) (f x)) = bindP (uuidP E) f"
    by (auto simp: fun_eq_iff bindP_def getP_def thenP_def modP_def uuidP_def split: prod.split sum.split)
  ultimately show ?thesis by simp
qed

lemma spawn: "stays (keeps_stored E i L) C (spawnP j)"
  by (auto simp: stays_def keeps_stored_def row_stored_def)

lemma save: "row_in i L r \<Longrightarrow> tame (saveP r)"
  unfolding saveP_def
  by (rule update) (auto simp: keeps_stored_def row_stored_def row_in_def)

lemma save_op: "tame (save_opP op)"
  unfolding save_opP_def by (rule step) simp

lemma setting: "doc_ok KSettings j d \<Longrightarrow> tame (put_settingP j d)"
  unfolding put_settingP_def by (rule step) simp

lemma event: "tame (eventP E a)"
  unfolding eventP_def by (intro rules uuids step) simp

lemma if_eq: "(b \<Longrightarrow> tame p) \<Longrightarrow> (\<not> b \<Longrightarrow> tame q) \<Longrightarrow> tame (if b then p else q)"
  by simp

lemma when_eq: "(b \<Longrightarrow> tame p) \<Longrightarrow> tame (whenP b p)"
  by (simp add: whenP_def pure)

lemma option_eq: "(v = None \<Longrightarrow> tame p) \<Longrightarrow> (\<And>x. v = Some x \<Longrightarrow> tame (f x)) \<Longrightarrow>
    tame (case v of None \<Rightarrow> p | Some x \<Rightarrow> f x)"
  by (cases v) simp_all

lemmas careful = get if_eq when_eq option_eq

lemmas plain = rules uuids spawn event save_op

section \<open>Shared operations\<close>

lemma fail: "tame (not_ready c)"
  unfolding not_ready_def by (intro rules mod) simp

lemma verify: "rely E (keeps_stored E i L) \<Longrightarrow> tame (verify_identity E)"
  unfolding verify_identity_def by (intro plain stays_every [OF identity] fail setting mod) simp_all

lemma lookup: "tame (sessions_model j)"
  unfolding sessions_model_def by (intro rules)

lemma mark: "row_in i L row \<Longrightarrow> tame (mark_error E row e)"
  unfolding mark_error_def Let_def by (intro plain save) (simp add: row_in_def error_row_def)

lemma marked: "wp (\<lambda>_ _. True) (mark_error E row e) (\<lambda>r _. \<forall>x. r = Inr x \<longrightarrow> sid x = sid row \<and> sstate x = sstate row) s"
  by (simp add: mark_error_def error_row_def Let_def)

lemma cool: "tame (cool_provider row why)"
  unfolding cool_provider_def by (rule step) simp

lemma choose: "rely E (keeps_stored E i L) \<Longrightarrow> tame (candidates E m)"
  unfolding candidates_def by (intro plain stays_every [OF bids])

lemma schedule: "tame (schedule_close row)"
  unfolding schedule_close_def by (intro plain mod) simp

lemma drained_in: "row_in i L row \<Longrightarrow> sstate row \<notin> {Closed, Failed} \<Longrightarrow> row_in i L (row\<lparr>sstate := Draining\<rparr>)"
  by (rule moved) (cases "sstate row"; auto intro: life_step.intros)+

lemma rebalance_loop: "list_all (row_in i L) rows \<Longrightarrow> tame (rebalance_rows pol rows n counts)"
proof (induction rows arbitrary: n counts)
  case (Cons row rows)
  have "row_in i L (row\<lparr>sstate := Draining, close_reason := Some Pool_limit\<rparr>)" if "sstate row = Open"
    by (rule moved [of row]) (use Cons.prems that in \<open>simp_all add: life_step.intros\<close>)
  then show ?case using Cons by (auto simp: Let_def intro!: plain save schedule)
qed (simp add: pure)

lemma balance_pool: "tame rebalance"
  unfolding rebalance_def case_prod_beta
  by (intro get rebalance_loop) (auto simp: list_all_iff intro: row_stored_listed)

lemma clear_wallet: "tame (require_clear_wallet x)"
  unfolding require_clear_wallet_def by (intro rules)

lemma check: "tame (check_truth row j)"
  unfolding check_truth_def by (intro rules)

lemma closed: "row_in i L row \<Longrightarrow> sstate row \<noteq> Failed \<Longrightarrow> tame (record_closed E row t)"
  unfolding record_closed_def Let_def
  by (intro plain save) (auto simp: closed_row_def intro!: moved [of row] seen_closed)

lemma truth: "rely E (keeps_stored E i L) \<Longrightarrow> tame (bindP (node_session E c) (check_truth row))"
  by (intro plain stays_every [OF session] check)

section \<open>Opening\<close>

lemma price: "rely E (keeps_stored E i L) \<Longrightarrow> tame (price_check E pol m rows sel b)"
  unfolding price_check_def case_prod_beta Let_def
  by (intro plain stays_every [OF balance] stays_every [OF quote] stays_every [OF stake])

lemma select: "rely E (keeps_stored E i L) \<Longrightarrow> tame (select_bid E pol m rows)"
  unfolding select_bid_def by (intro plain choose stays_every [OF bid] price)

lemma preflight_reads: "rely E (keeps_stored E i L) \<Longrightarrow> tame (preflight E j)"
  unfolding preflight_def case_prod_beta
  by (intro plain lookup verify stays_every [OF model] clear_wallet select)

lemma other: "sid row \<noteq> i \<Longrightarrow> row_in i L row"
  by (simp add: row_in_def)

lemma open_failure: "sid row \<noteq> i \<Longrightarrow> tame (open_failed E again row e)"
  unfolding open_failed_def by (intro plain mark save cool other) (simp_all add: failed_row_def)

lemma adopt: "sid row \<noteq> i \<Longrightarrow> tame (adopt_opened pl row)"
  unfolding adopt_opened_def by (intro plain save other) simp_all

lemma on_chain: "rely E (keeps_stored E i L) \<Longrightarrow> sid row \<noteq> i \<Longrightarrow> tame (opened_on_chain E again pl row r c)"
  unfolding opened_on_chain_def Let_def
  by (intro plain truth open_failure adopt save other) (simp_all add: verified_row_def)

lemma submission: "rely E (keeps_stored E i L) \<Longrightarrow> tame (submit_open E again pl)"
  unfolding submit_open_def node_open_def Let_def case_prod_beta
  by (intro fresh plain request on_chain open_failure save other) (simp_all add: opening_row_def)

lemma attempts: "rely E (keeps_stored E i L) \<Longrightarrow> tame (open_attempts E j n)"
proof (induction n)
  case (Suc n)
  then show ?case by (auto intro!: plain preflight_reads submission split: attempt.splits)
qed (simp add: pure)

lemma locking: "rely E (keeps_stored E i L) \<Longrightarrow> tame p \<Longrightarrow> tame (lockedP E p)"
  unfolding lockedP_def by (intro rules await mod) (simp_all add: keeps_stored_def row_stored_def)

lemma open_work: "rely E (keeps_stored E i L) \<Longrightarrow> tame (open_session E j)"
  unfolding open_session_def by (intro locking attempts)

lemma opening_job: "rely E (keeps_stored E i L) \<Longrightarrow> tame (opener E j n)"
  unfolding opener_def by (intro plain step open_work) (simp_all add: note_failure_def Let_def)

lemma starting: "tame (start_open j)"
  unfolding start_open_def by (intro plain mod) simp

section \<open>Leasing\<close>

lemma discard: "tame (discard_active j)"
  unfolding discard_active_def by (intro mod) simp

lemma leasing: "row_in i L row \<Longrightarrow> sstate row = Open \<Longrightarrow> tame (lease E m prewarm row t)"
  unfolding lease_def Let_def
  by (intro plain save discard schedule) (auto intro!: moved [of row] life_step.intros)

lemma leasing_failed: "row_in i L row \<Longrightarrow> sstate row = Open \<Longrightarrow> tame (lease_failed E row e)"
  unfolding lease_failed_def
  by (intro plain discard mark) (auto intro!: moved [of row] life_step.intros)

lemma hot_row: "rely E (keeps_stored E i L) \<Longrightarrow> row_in i L row \<Longrightarrow> sstate row = Open \<Longrightarrow> tame (try_hot E m prewarm row)"
  unfolding try_hot_def
  by (intro careful truth mod verify leasing_failed plain discard leasing) (auto intro: row_stored_session)

lemma hot: "rely E (keeps_stored E i L) \<Longrightarrow> list_all (row_in i L) rows \<Longrightarrow> tame (hot_scan E m prewarm rows)"
proof (induction rows)
  case (Cons row rows)
  have scan: "tame (if skip then hot_scan E m prewarm rows else bindP (try_hot E m prewarm row)
      (\<lambda>got. case got of Some r \<Rightarrow> retP (Some r) | None \<Rightarrow> hot_scan E m prewarm rows))"
    if "\<not> skip \<Longrightarrow> sstate row = Open" for skip
    using Cons that by (cases skip) (auto intro!: plain hot_row)
  show ?case unfolding hot_scan.simps by (intro get scan) simp
qed (simp add: pure)

lemma joining: "rely E (keeps_stored E i L) \<Longrightarrow> tame (await_opener E m t d)"
  unfolding await_opener_def
  by (intro cleanup seq pure await) (auto simp: pop_done_def opener_finished_def keeps_stored_def row_stored_def
      intro!: rules split: reply.splits exn.splits)

lemma cold: "rely E (keeps_stored E i L) \<Longrightarrow> tame (cold_path E m d od)"
  unfolding cold_path_def Let_def case_prod_beta by (intro plain starting joining await) simp_all

lemma rounds: "rely E (keeps_stored E i L) \<Longrightarrow> tame (acquire_rounds n E m prewarm d od)"
proof (induction n)
  case (Suc n)
  then show ?case unfolding acquire_rounds.simps
    by (intro plain lookup balance_pool get hot cold) (auto simp: list_all_iff intro: row_stored_listed)
qed (simp add: pure)

lemma acquiring: "rely E (keeps_stored E i L) \<Longrightarrow> tame (acquire n E m prewarm)"
  unfolding acquire_def case_prod_beta
  by (intro plain mod rounds) (simp_all add: keeps_stored_def row_stored_def)

lemma releasing: "tame (release row)"
  unfolding release_def case_prod_beta Let_def
  by (intro careful mod plain save schedule) (auto intro: moved [OF row_stored_session])

section \<open>Closing and binding\<close>

lemma refused: "row_in i L row \<Longrightarrow> tame (close_refused E row e)"
  unfolding close_refused_def by (intro plain mark)

lemma unclosed:
  "row_in i L row \<Longrightarrow> sstate row \<in> {Closing, Close_pending} \<Longrightarrow> tame (close_failed E row e)"
  unfolding close_failed_def
  by (intro seq_where [OF mark marked] plain refused save)
    (auto simp: row_in_def unclosed_row_def intro: forward [OF _ submitted] forward [OF _ drain])

lemma confirming:
  "rely E (keeps_stored E i L) \<Longrightarrow> row_in i L row \<Longrightarrow> sstate row = Close_pending \<Longrightarrow> tame (confirm_close E row c)"
  unfolding confirm_close_def by (intro truth plain save unclosed closed) simp_all

lemma submit_closing:
  assumes "rely E (keeps_stored E i L)" "row_in i L row" "sstate row \<notin> {Closed, Failed, Closing, Close_pending}"
  shows "tame (submit_close E row c)"
proof -
  have "row_in i L (row\<lparr>sstate := Closing, close_operation_id := x\<rparr>)" for x
    by (rule moved [OF assms(2)]) (use assms(3) in \<open>cases "sstate row"; simp add: life_step.intros\<close>)+
  moreover from this
  have "row_in i L (row\<lparr>close_operation_id := x, close_tx := y, sstate := Close_pending\<rparr>)" for x y
    by (rule moved) (simp_all add: submitted)
  ultimately show ?thesis
    unfolding submit_close_def node_close_def Let_def
    by (intro plain request confirming unclosed save assms(1)) simp_all
qed

lemma close_opened:
  "rely E (keeps_stored E i L) \<Longrightarrow> row_in i L row \<Longrightarrow> sstate row \<notin> {Closed, Failed, Closing, Close_pending} \<Longrightarrow>
    tame (close_open E row c t)"
  unfolding close_open_def by (intro plain refused closed submit_closing) simp_all

lemma closing_row: "rely E (keeps_stored E i L) \<Longrightarrow> row_in i L row \<Longrightarrow> tame (close_session E row)"
  unfolding close_session_def Let_def
  by (intro careful truth plain refused close_opened save drained_in) simp_all

lemma close_body: "rely E (keeps_stored E i L) \<Longrightarrow> tame (close_locked E j)"
  unfolding close_locked_def by (intro careful plain verify mark closing_row) (auto intro: row_stored_session)

lemma close_work: "rely E (keeps_stored E i L) \<Longrightarrow> tame (close E j stop)"
  unfolding close_def close_intent_def
  by (intro careful plain step save locking close_body)
    (auto simp: retire_model_def intro!: moved [OF row_stored_session] life_step.intros split: option.split)

lemma binding: "rely E (keeps_stored E i L) \<Longrightarrow> tame (bind_session E j c)"
  unfolding bind_session_def bind_unmanaged_def adopt_bound_def case_prod_beta
  by (intro careful truth plain verify closed save)
    (auto simp: bound_row_def intro!: moved [OF row_stored_session] life_step.intros)

section \<open>Recovery\<close>

lemma tx_state: "rely E (keeps_stored E i L) \<Longrightarrow> tame (transaction_state E ts)"
proof -
  assume r: "rely E (keeps_stored E i L)"
  have "tame (receipts E xs)" for xs by (induction xs) (auto intro!: plain stays_every [OF receipts] r)
  then show ?thesis unfolding transaction_state_def by (intro plain)
qed

lemma read_journal: "rely E (keeps_stored E i L) \<Longrightarrow> tame (journal E x)"
  unfolding journal_def by (intro plain stays_every [OF helper]) simp_all

lemma unchanged: "tame p \<Longrightarrow> tame (if_unchanged row p)"
  unfolding if_unchanged_def by (intro plain)

lemma sessions_loop:
  "(\<And>r. row_in i L r \<Longrightarrow> sstate r \<notin> {Closed, Failed} \<Longrightarrow> tame (f r)) \<Longrightarrow> tame (for_sessions f)"
  unfolding for_sessions_def
  by (intro get loop) (simp add: row_stored_listed row_stored_live)

lemma journal_step: "rely E (keeps_stored E i L) \<Longrightarrow> row_in i L row \<Longrightarrow> tame (reconcile_journal E row)"
  unfolding reconcile_journal_def case_prod_beta
  by (intro careful plain read_journal save)
    (auto simp: journaled_row_def Let_def intro!: moved [of row] life_step.intros)

lemma settled: "row_in i L row \<Longrightarrow>
    wp (\<lambda>_ _. True) (settle_close E (seen_open row)) (\<lambda>r _. \<forall>x. r = Inr x \<longrightarrow> row_in i L x) s"
proof -
  assume row: "row_in i L row"
  have seen: "row_in i L (seen_open row)"
    by (rule moved [OF row]) (auto simp: seen_open_def intro: life_step.intros)
  have "row_in i L (seen_open row\<lparr>sstate := Draining, retry_at := x\<rparr>)" if "sstate (seen_open row) = Close_pending" for x
    by (rule moved [OF seen]) (simp_all add: that drain)
  with seen show ?thesis unfolding settle_close_def by (auto simp del: wp_bind intro!: wp_bind_any)
qed

lemma settle: "rely E (keeps_stored E i L) \<Longrightarrow> tame (settle_close E row)"
  unfolding settle_close_def by (intro plain tx_state)

lemma chain_open:
  "rely E (keeps_stored E i L) \<Longrightarrow> row_in i L row \<Longrightarrow> sstate row \<noteq> Failed \<Longrightarrow> tame (reconcile_open E row t)"
  unfolding reconcile_open_def
  by (intro seq_where [OF settle settled] plain closed unchanged save) (auto simp: refreshed_row_def row_in_def)

lemma chain_step:
  "rely E (keeps_stored E i L) \<Longrightarrow> row_in i L row \<Longrightarrow> sstate row \<noteq> Failed \<Longrightarrow> tame (reconcile_chain E row)"
  unfolding reconcile_chain_def
  by (intro plain unchanged stays_every [OF session] check chain_open mark)

lemma reverted_step: "rely E (keeps_stored E i L) \<Longrightarrow> row_in i L row \<Longrightarrow> tame (reconcile_reverted E row)"
  unfolding reconcile_reverted_def
  by (intro careful plain tx_state mark save) (auto intro!: moved [of row] life_step.intros)

lemma reconciling: "rely E (keeps_stored E i L) \<Longrightarrow> tame (reconcile E)"
  unfolding reconcile_def by (intro plain sessions_loop journal_step chain_step reverted_step) simp_all

lemma candidate_rows:
  "scan_session c d s known uncertain j = Candidates rows \<Longrightarrow> list_all (row_in i L) uncertain \<Longrightarrow> list_all (row_in i L) rows"
proof -
  have m: "scan_matches c j rs = Inr ms \<Longrightarrow> set ms \<subseteq> set rs" for rs ms
    by (induction c j rs arbitrary: ms rule: scan_matches.induct) (auto split: if_splits sum.splits, blast+)
  assume "scan_session c d s known uncertain j = Candidates rows" and u: "list_all (row_in i L) uncertain"
  then obtain ms where "scan_matches c j uncertain = Inr ms" "rows = map (add_candidate (lower_member ''Id'' j)) ms"
    by (auto simp: scan_session_def scan_foreign_def Let_def split: if_splits sum.splits list.splits option.splits)
  with m u show ?thesis by (fastforce simp: list_all_iff row_in_def add_candidate_def)
qed

lemma found_elsewhere:
  "scan_session c d s known uncertain j = Discover row b \<Longrightarrow> prefix ''wallet-'' (sid row)"
  by (auto simp: scan_session_def scan_foreign_def discovered_row_def Let_def
      split: if_splits sum.splits list.splits option.splits)

lemma replaced_rows: "list_all (row_in i L) new \<Longrightarrow> list_all (row_in i L) rows \<Longrightarrow> list_all (row_in i L) (replace_rows new rows)"
  by (auto simp: list_all_iff replace_rows_def simp: find_Some_iff split: option.splits)

lemma scanning: "list_all (row_in i L) uncertain \<Longrightarrow> tame (scan_batch E d known uncertain js)"
proof (induction js arbitrary: uncertain)
  case (Cons j js)
  have "tame (case scan_session (cfg E) d s known uncertain j of
      Ignore \<Rightarrow> scan_batch E d known uncertain js
    | Candidates rows \<Rightarrow> thenP (forP saveP rows) (scan_batch E d known (replace_rows rows uncertain) js)
    | Discover row expired \<Rightarrow> thenP (saveP row)
        (thenP (eventP E (Wallet_session_discovered (sid row) expired)) (scan_batch E d known uncertain js))
    | Scan_error e \<Rightarrow> if recoverable e
        then thenP (eventP E (Wallet_session_invalid (py_str (jget_or ''Id'' (JStr ''unknown'') j))))
          (scan_batch E d known uncertain js)
        else raiseP e)" if "row_stored E i L s" for s
  proof (cases "scan_session (cfg E) d s known uncertain j")
    case (Candidates rows)
    then have "list_all (row_in i L) rows" using Cons.prems by (rule candidate_rows)
    with Candidates Cons show ?thesis
      by (auto simp: list_all_iff [of _ rows] intro!: plain save Cons.IH replaced_rows)
  next
    case (Discover row b)
    from found_elsewhere [OF this] that have "row_in i L row" by (auto simp: row_stored_def row_in_def)
    with Discover Cons show ?thesis by (auto intro!: plain save Cons.IH)
  qed (use Cons in \<open>auto intro!: plain simp del: jget_or_simps\<close>)
  then show ?case unfolding scan_batch.simps by (intro get)
qed (simp add: pure)

lemma candidate_step: "rely E (keeps_stored E i L) \<Longrightarrow> row_in i L row \<Longrightarrow> tame (resolve_candidate E row)"
  unfolding resolve_candidate_def by (intro plain binding mark)

lemma scan_wallet: "rely E (keeps_stored E i L) \<Longrightarrow> tame (sweep_wallet E)"
  unfolding sweep_wallet_def case_prod_beta
  by (intro careful plain verify stays_every [OF wallet_list] scanning setting sessions_loop candidate_step)
    (auto simp: list_all_iff intro: row_stored_listed)

section \<open>Background work\<close>

lemma settle_receipt: "rely E (keeps_stored E i L) \<Longrightarrow> tame (settle_by_receipt E op)"
  unfolding settle_by_receipt_def by (intro plain tx_state) (auto intro!: plain split: tx_state.splits)

lemma settle_op: "rely E (keeps_stored E i L) \<Longrightarrow> tame (settle_withdrawal E op)"
  unfolding settle_withdrawal_def Let_def by (intro plain read_journal settle_receipt)

lemma record_funds: "rely E (keeps_stored E i L) \<Longrightarrow> tame (record_treasury E)"
  unfolding record_treasury_def case_prod_beta
  by (intro plain stays_every [OF stake] stays_every [OF balance] setting) simp_all

lemma withdrawing: "rely E (keeps_stored E i L) \<Longrightarrow> tame (withdraw E n)"
  unfolding withdraw_def withdraw_failed_def node_withdraw_def Let_def
  by (intro plain setting request record_funds) simp_all

lemma withdrawal: "rely E (keeps_stored E i L) \<Longrightarrow> tame (treasury E manual)"
  unfolding treasury_def treasury_due_def case_prod_beta
  by (intro locking plain verify settle_op record_funds withdrawing)

lemma retiring: "row_in i L row \<Longrightarrow> sstate row \<notin> {Closed, Failed} \<Longrightarrow> tame (retire_row pol row)"
  unfolding retire_row_def case_prod_beta Let_def
  by (intro plain schedule save) (auto intro!: moved [of row] drain)

lemma refreshing: "row_in i L row \<Longrightarrow> sstate row \<notin> {Closed, Failed} \<Longrightarrow> tame (refresh_row E m row)"
  unfolding refresh_row_def Let_def by (intro plain schedule save drained_in)

lemma warming: "tame (keep_warm E m)"
  unfolding keep_warm_def by (intro plain starting sessions_loop refreshing)

lemma sweep_starting: "tame (start_sweep E pol)"
  unfolding start_sweep_def by (intro plain mod) simp

lemma storage_probing: "tame (probe_failed_storage E)" "tame (clear_storage_error E)"
  unfolding probe_failed_storage_def clear_storage_error_def probe_writable_def
  by (intro plain setting mod; simp)+

lemma ticking: "rely E (keeps_stored E i L) \<Longrightarrow> tame (tick E)"
  unfolding tick_def
  by (intro plain verify stays_every [OF balance] reconciling balance_pool sessions_loop retiring warming sweep_starting storage_probing)

lemma recover_rows: "row_in i L row \<Longrightarrow> tame (recover_row row)"
  unfolding recover_row_def
  by (intro careful plain save) (auto intro!: moved [of row] life_step.intros)

lemma recover_ops: "rely E (keeps_stored E i L) \<Longrightarrow> tame (recover_op E op)"
  unfolding recover_op_def restart_confirmed_def
  by (intro plain verify stays_every [OF balance] stays_every [OF helper]) simp_all

lemma recovering: "rely E (keeps_stored E i L) \<Longrightarrow> tame (recover E)"
  unfolding recover_def
  by (intro plain step verify reconciling sessions_loop recover_rows recover_ops) (simp_all add: get_session_def)

lemma draining: "rely E (keeps_stored E i L) \<Longrightarrow> tame (drain n E immediate)"
  by (induction n) (auto intro!: plain mod await)

lemma restart_finish: "tame (restart_end E op)" "tame (restart_failed E op e)"
  unfolding restart_end_def restart_failed_def by (intro plain mod; simp)+

lemma restarting: "rely E (keeps_stored E i L) \<Longrightarrow> tame (do_restart n E op immediate rating)"
  unfolding do_restart_def restart_node_def Let_def
  by (intro plain draining restart_finish verify stays_every [OF balance] stays_every [OF helper] reconciling setting)
    (simp_all add: keeps_stored_def row_stored_def)

end

section \<open>Completion requests\<close>

text \<open>A provider at fault drains the session, so the row must not be one that may have failed.\<close>

locale served_sessions = session_states "app_env A" i L for A :: app and i :: string and L :: "sstate \<Rightarrow> bool" +
  assumes no_failed: "\<not> L Failed"
begin

lemma invalid: "tame (invalidate (app_env A) row why)"
proof -
  have "row_in i L (r\<lparr>sstate := Draining, close_reason := y\<rparr>)"
    if "row_in i L r" "sstate r \<notin> {Closed, Closing, Close_pending}" for r y
    using that no_failed drained_in [of r] by (cases "sstate r = Failed") (auto simp: row_in_def)
  then show ?thesis unfolding invalidate_def Let_def
    by (intro careful plain cool schedule save) (auto intro: row_stored_session)
qed

lemma request_record: "doc_ok KRequest j d \<Longrightarrow> tame (put_requestP j d)"
  unfolding put_requestP_def by (rule step) simp

lemma key_record: "tame (put_keyP j k)"
  unfolding put_keyP_def by (rule step) simp

lemma claiming: "tame (claim A q k)"
  unfolding claim_def Let_def case_prod_beta by (intro plain request_record) simp

lemma blaming: "tame (blame A h w)"
  unfolding blame_def by (intro plain invalid)

lemma admitting: "tame (admit k body)"
  unfolding admit_def by (intro plain mod) (simp_all add: count_request_def)

lemma status_check: "tame (check_status A row st)"
  unfolding check_status_def by (intro plain invalid)

lemma asking: "rely (app_env A) (keeps_stored (app_env A) i L) \<Longrightarrow> tame (ask A q m body row)"
  unfolding ask_def case_prod_beta by (intro plain key_record await) simp_all

lemma reading_upstream: "rely (app_env A) (keeps_stored (app_env A) i L) \<Longrightarrow> tame (read_upstream (app_env A) d)"
  unfolding read_upstream_def by (intro plain await) (auto intro!: plain split: reply.split)

lemma recording: "tame (finish_record rid j)"
  unfolding finish_record_def by (intro plain request_record) (simp add: completed_request_def)

lemma cleaning: "rely (app_env A) (keeps_stored (app_env A) i L) \<Longrightarrow> tame (cleanup A q k h b)"
  unfolding cleanup_def give_back_def close_upstream_def
  by (intro plain await releasing recording mod) (simp_all add: free_slot_def)

lemma failing: "rely (app_env A) (keeps_stored (app_env A) i L) \<Longrightarrow> tame (failed A q k h e)"
  unfolding failed_def by (intro plain cleaning blaming)

lemma stream_failing: "rely (app_env A) (keeps_stored (app_env A) i L) \<Longrightarrow> tame (stream_failed A q k h evs e)"
  unfolding stream_failed_def by (intro plain cleaning blaming)

lemma answering: "rely (app_env A) (keeps_stored (app_env A) i L) \<Longrightarrow> tame (answer_request A q k body row j a)"
  unfolding answer_request_def stream_answer_def whole_answer_def read_whole_def failed_late_def Let_def case_prod_beta
  by (intro plain cleaning failing stream_failing status_check reading_upstream blaming)

lemma serving: "rely (app_env A) (keeps_stored (app_env A) i L) \<Longrightarrow> tame (serve n A q k body m)"
  unfolding serve_def with_session_def by (intro plain claiming acquiring failing asking answering)

lemma completing: "rely (app_env A) (keeps_stored (app_env A) i L) \<Longrightarrow> tame (completion n A q raw)"
  unfolding completion_def by (intro plain admitting serving)

end

interpretation lives: session_states E i "life x" for E i x
  by unfold_locales (rule rtranclp.rtrancl_into_rtrancl)

text \<open>Sessions that have been confirmed once can no longer fail.\<close>

definition confirmed :: "sstate \<Rightarrow> bool" where
  "confirmed x = (x \<notin> {Opening, Open_unknown, Failed})"

interpretation confirmed: served_sessions A i "\<lambda>y. confirmed x \<and> life x y" for A i x
proof
  show "confirmed x \<and> life x y \<Longrightarrow> life_step y z \<Longrightarrow> confirmed x \<and> life x z" for y z by auto
  show "\<not> (confirmed x \<and> life x Failed)" using life_failed [of x Failed] by (auto simp: confirmed_def)
qed

section \<open>The property\<close>

text \<open>The states in which others may see the shared state: at each await of a program, and at its end.\<close>

definition shown :: "'a prog \<Rightarrow> gw \<Rightarrow> gw list" where
  "shown p s = map snd (calls p s) @ [final p s]"

lemma stays_shown: "stays R C p \<Longrightarrow> t \<in> set (shown p s) \<Longrightarrow> R s t"
  by (auto simp: shown_def stays_def wp_def list_all_iff)

text \<open>Along the machine, with what that means for the stake: see the lemmas above.\<close>

definition lawful :: "sstate \<Rightarrow> sstate \<Rightarrow> bool" where
  "lawful x y = (life x y \<and> (x \<in> {Closed, Failed} \<longrightarrow> y = x) \<and> (y = Failed \<longrightarrow> x \<in> {Opening, Open_unknown, Failed}) \<and>
     (x \<in> {Draining, Closing, Close_pending} \<longrightarrow> y \<in> {Draining, Closing, Close_pending, Closed}))"

lemma life_lawful: "life x y \<Longrightarrow> lawful x y"
  unfolding lawful_def using life_final [of x y] life_failed [of x y] life_retired [of x y] by auto

definition moves_lawfully :: "string \<Rightarrow> sstate \<Rightarrow> gw \<Rightarrow> bool" where
  "moves_lawfully i x t = (case get_session (db t) i of None \<Rightarrow> False | Some r \<Rightarrow> lawful x (sstate r))"

lemma lawfully:
  assumes "stays (keeps_stored E i (life (sstate r))) C p" and "db_wf (db s)" and "get_session (db s) i = Some r"
    and "\<not> prefix ''wallet-'' i" and "\<forall>n. uuids s \<le> n \<longrightarrow> uuid E n \<noteq> i"
  shows "list_all (moves_lawfully i (sstate r)) (shown p s)"
proof -
  have "row_stored E i (life (sstate r)) s" using assms by (simp add: row_stored_def)
  then show ?thesis using stays_shown [OF assms(1)]
    by (fastforce simp: list_all_iff moves_lawfully_def keeps_stored_def row_stored_def intro: life_lawful)
qed



end
