(* ===== verification/Spec2Isabelle.thy ===== *)
theory Spec2Isabelle
  imports Startup Deployment Lifecycle
begin

text \<open>
  A verification library for the consumer gateway: the process that keeps paid inference sessions
  open on a Morpheus node, leases them to requests, and recovers from whatever happens to the
  wallet transactions in between.

  \<^bold>\<open>The program.\<close> gateway/models.py is the policy document an operator edits; gateway/store.py is a
  single-owner SQLite table of JSON documents; gateway/node.py is the adapter for the node's HTTP
  API, the recovery RPC and the local helper; gateway/sessions.py is the session manager. Its
  coroutines share one state object and interleave at every await. Opening, closing and
  withdrawing submit wallet transactions under one lock and journal them first; serving requests
  leases open sessions without the lock; reconciliation resolves what a lost answer left uncertain.

  \<^bold>\<open>The model.\<close>

  \<^item> Prelude: text, decimal and hexadecimal numbers as Python reads and prints them, the two
    identifier patterns, and the equations that let witnesses evaluate them.

  \<^item> PyData: JSON values, the conversions the gateway applies to them, and errors as values.

  \<^item> Doubles, Weights: IEEE doubles as integer multiples of the smallest one, with Python's compensated
    \<open>sum\<close>, \<open>isclose\<close> and \<open>nextafter\<close>, and the normalisation of the rating weights (\<open>sum_to_one\<close>) on them.

  \<^item> Models: the policy with its validation, provider access and model resolution.

  \<^item> Store: the records table (\<open>Store.get\<close>, \<open>put\<close>, \<open>delete\<close>, \<open>all\<close>, \<open>page\<close>), the typed documents of
    the gateway, the audit log and pruning. The locale \<open>record_store\<close> is the interface the rest uses.

  \<^item> Effects: coroutines as programs over the shared state \<open>gw\<close>. A program raises or returns and
    leaves the trace of its outside calls. An await is a call to the environment, which answers
    it and may change the shared state in any way: a theorem that quantifies over the environment
    holds for every interleaving with the node, the clock and the other coroutines. What a theorem
    needs of the others is a hypothesis \<open>rely E R\<close>, a preorder on states that every answer
    respects. The locale \<open>interference\<close> holds the rules for such preorders, and
    \<open>quiet_interference\<close> and \<open>frame_interference\<close> the ones that look at parts of the state only;
    they are interpreted for the lock, the leases, the policy revision and the withdrawals.

  \<^item> NodeApi: gateway/node.py. \<open>classify\<close> is the translation of answers into errors in
    \<open>Node.request\<close>; the node, the RPC and the helper themselves are the environment.

  \<^item> SessionCore, SessionOpen, SessionLease, SessionClose, Recovery, Treasury, Maintenance:
    gateway/sessions.py in the order of the file, each operation a definition of its name
    (\<open>_open\<close> is \<open>open_session\<close>, \<open>_close\<close> is \<open>close_session\<close>, \<open>_restart\<close> is \<open>do_restart\<close>).
    A Python \<open>try\<close> whose handler reads a row the body has been changing becomes one \<open>tryP\<close> per
    version of the row.

  \<^item> JsonText, Transport: the json module as the gateway uses it, and gateway/transport.py: the bounds
    on values, the request and response models, the event-stream decoder. \<open>loads_dumps\<close> is the round
    trip of the printer and the parser.

  \<^item> Supervisor: node_helper/app.py. The helper's programs run over its own state and calls, with the
    same combinators; a step on the file system is an outside call that may fail.

  \<^item> Ledger: counters under interleaving. A counter that every operation restores moves only by what
    the other coroutines do at the awaits; the locale \<open>counter\<close> holds the rules and is interpreted
    for the waiting callers, the slots of an application key and the open connections.

  \<^item> Admission, Completion: gateway/app.py. Admission has the administrator's session, the sign-in
    limiter, application keys, the policy endpoint, the status page and the other administrative handlers; Completion
    has the handler of chat completions with everything it holds and gives back. A handler with
    \<open>Depends(admin)\<close> is a program under \<open>as_admin\<close>; \<open>sha256\<close> is a parameter.

  \<^item> Startup: \<open>Config.from_env\<close>, the address check of \<open>Helper.__init__\<close>, the owner's lock of the store,
    the listening socket of gateway/runtime.py, scripts/container_entrypoint.py and scripts/setup.py.
    System calls are the list of calls made.

  \<^item> Patching, Deployment: replacement of texts, and deploy/patch_node.py, which gives the node the
    guards that the gateway relies on. The sample tree at the end shows that the script gets through.

  \<^item> Lifecycle: the states of a session row as an inductive step relation, \<open>life_step\<close>, and the proof
    that every operation follows it. The locale \<open>session_states\<close> holds the rules for a set of states
    closed under the relation; the root theory has the other properties that concern all operations.

  \<^item> Scenario: a concrete node and state, with which witnesses run the model.

  \<^bold>\<open>What is shown.\<close> No wallet transaction is submitted without the lock, without a journal row
  written before, or against the policy in force; nothing else submits; every submission leaves a
  row that says what may have happened; a submission is given up only on evidence; withdrawals are
  never doubled; leases are valid, never leaked and never lost; the pool respects its limits; the
  policy, the table and the adapter do what the session manager relies on; sessions follow their life
  cycle, the table keeps its types and the policy its revisions under every operation, which is what
  the theorems assume of the other coroutines. What is decoded and
  forwarded to a client has been validated and does not depend on how the network cuts it. The
  helper changes the rating atomically, records an operation before it touches the node, and always
  ends a restart. Administration needs a session and signing out ends it; keys are limited exactly as
  specified, refused once revoked, and checked again after every wait; every request gives back its
  slot, its connection and its lease. Validated weights add up to one, validated policies stay as they
  are, and the rating they give is the one the helper installs. The helper's credential goes to a bare
  origin only, and a node that is built has every guard. Some theorems show where
  the code falls short of its intent; the manifest lists them as findings.

  \<^bold>\<open>Bounds.\<close> The loop of \<open>acquire\<close> and the drain loop of a restart may wait for ever; they take the
  number of rounds as an argument, and the theorems about them hold for every number. All other
  loops are structural or bounded by the code itself.

  \<^bold>\<open>Assumptions of the model.\<close> Writes to the database succeed. Clocks are rational and move at
  awaits. Error messages for people are represented by their codes. Texts are sequences of bytes,
  so lower-casing and digits are the ASCII ones.

  \<^bold>\<open>Not modelled.\<close> The start of uvicorn and the HTTP clients, which are I/O; WAL set-up and file modes
  of the database, and the disk failures themselves (the answer to one and the probe after it are
  modelled); the shutdown of the lifespan; response headers, the texts of errors and static files;
  deploy/consumer_node.py, which is a list of regular expressions over sources that are not in the
  repository; the simulated peers, soak tests and audit scripts, which drive the system from outside.
\<close>

section \<open>Wallet transactions are serialised\<close>

context frame_interference
begin

lemma closing_locked: "rely E R \<Longrightarrow> stays R (\<lambda>_. True) (close_locked E i)"
  unfolding close_locked_def by (intro local_rules stays_every [OF verify] mark closing_row)

lemma settle_receipt: "rely E R \<Longrightarrow> stays R background_call (settle_by_receipt E op)"
  unfolding settle_by_receipt_def
  by (intro rules tx_state) (auto intro!: rules save_op split: tx_state.splits)

lemma settle_op: "rely E R \<Longrightarrow> stays R background_call (settle_withdrawal E op)"
  unfolding settle_withdrawal_def Let_def by (intro rules save_op read_journal settle_receipt)

lemma withdraw_error: "stays R C (withdraw_failed op e)"
  unfolding withdraw_failed_def by (intro rules save_op)

lemma withdrawing: "rely E R \<Longrightarrow> stays R (\<lambda>_. True) (withdraw E n)"
  unfolding withdraw_def node_withdraw_def Let_def
  by (intro local_rules save_op setting request withdraw_error stays_every [OF record_funds]) simp_all

lemma treasury_body: "rely E R \<Longrightarrow> stays R (\<lambda>_. True) (treasury_due E manual rec funds)"
  unfolding treasury_due_def case_prod_beta by (intro rules withdrawing)

lemma treasury_work: "rely E R \<Longrightarrow> stays R (\<lambda>_. True) (bindP (getP maintenance) (\<lambda>maint.
       if maint then retP Nothing_due
       else bindP (verify_identity E) (\<lambda>_.
         bindP (getP (\<lambda>s. (recovery (db_policy (db s)), db_operations (db s)))) (\<lambda>(rec, ops).
         thenP (forP (settle_withdrawal E) ops)
         (bindP (record_treasury E) (treasury_due E manual rec))))))"
  unfolding case_prod_beta
  by (intro rules stays_every [OF verify] stays_every [OF settle_op] stays_every [OF record_funds] treasury_body)

end

lemma locked_calls:
  assumes "stays keeps_lock (\<lambda>_. True) p" and "(c, u) \<in> set (calls (lockedP E p) s)" and "wallet_call c"
  shows "locked u"
proof -
  have "wp (\<lambda>c u. wallet_call c \<longrightarrow> locked u) p (\<lambda>_ _. True) (t\<lparr>locked := True\<rparr>)" for t
    by (rule lock.use [OF assms(1)]) (auto simp: keeps_lock_def)
  then have "wp (\<lambda>c u. wallet_call c \<longrightarrow> locked u) (lockedP E p) (\<lambda>_ _. True) s"
    by (simp add: lockedP_def)
  from wp_calls [OF this assms(2)] assms(3) show ?thesis by simp
qed

lemma close_calls_locked:
  assumes "rely E keeps_lock" and "(c, u) \<in> set (calls (close E i stop) s)" and "wallet_call c"
  shows "locked u"
proof -
  have G: "wp (\<lambda>c u. wallet_call c \<longrightarrow> locked u) (lockedP E (close_locked E i)) (\<lambda>_ _. True) t" for t
    unfolding wp_def using locked_calls [OF lock.closing_locked [OF assms(1)]] by auto
  have "wp (\<lambda>c u. wallet_call c \<longrightarrow> locked u) (close E i stop) (\<lambda>_ _. True) s"
    unfolding close_def close_intent_def by (auto simp: G split: option.splits)
  from wp_calls [OF this assms(2)] assms(3) show ?thesis by simp
qed

text \<open>
  C2. Wallet transactions are serialised: whenever an opening, a close or a withdrawal is
  submitted, the submitting coroutine holds the wallet lock. The only assumption on the others is
  the contract of the lock, that nobody releases it for its holder.
\<close>

theorem wallet_calls_hold_lock:
  assumes "rely E keeps_lock" and "wallet_call c"
    and "(c, u) \<in> set (calls (open_session E i) s) \<union> set (calls (close E j stop) s) \<union> set (calls (treasury E manual) s)"
  shows "locked u"
  using assms(3) locked_calls [OF lock.attempts [OF assms(1)] _ assms(2)] close_calls_locked [OF assms(1) _ assms(2)]
    locked_calls [OF lock.treasury_work [OF assms(1)] _ assms(2)]
  unfolding open_session_def treasury_def by blast

theorem wallet_calls_hold_lock_witness:
  "\<exists>c u. (c, u) \<in> set (calls (treasury (scenario_env 0) True) (scenario_state [])) \<and> wallet_call c \<and> locked u"
proof -
  have r: "rely (scenario_env 0) keeps_lock" by (intro rely_scenario, unfold_locales)
  obtain c u where "(c, u) \<in> set (calls (treasury (scenario_env 0) True) (scenario_state []))" "wallet_call c"
    using treasury_run by (auto simp: list_ex_iff)
  with wallet_calls_hold_lock [OF r, of c u] show ?thesis by blast
qed

section \<open>The whole process\<close>

text \<open>
  Every operation under interference that keeps the table well formed and saves the policy only with a
  new revision. The calls of the reading ones are background calls.
\<close>

lemma drop_expired_wf: "db_wf rs \<Longrightarrow> db_wf (drop_expired now ds rs)"
  by (induction now ds rs rule: drop_expired.induct) (auto split: doc.split)

lemma drop_expired_policy: "db_policy (drop_expired now ds rs) = db_policy rs"
  by (simp add: db_policy_def get_drop_expired)

context process_interference
begin

lemma state_step: "(\<And>s. db (f s) = db s) \<Longrightarrow> stays R C (modP f)"
  by (rule work_step) simp

lemma storage_probing: "stays R C (probe_failed_storage E)" "stays R C (clear_storage_error E)"
  unfolding probe_failed_storage_def clear_storage_error_def probe_writable_def
  by (intro local_rules setting state_step; simp)+

lemma ticking: "rely E R \<Longrightarrow> stays R background_call (tick E)"
  unfolding tick_def retire_row_def keep_warm_def refresh_row_def start_sweep_def Let_def case_prod_beta
  by (intro local_rules state_step verify balance reconciling balance_pool sessions_loop schedule starting storage_probing) simp_all

lemma recovering: "rely E R \<Longrightarrow> stays R background_call (recover E)"
  unfolding recover_def recover_row_def recover_op_def restart_confirmed_def
  by (intro local_rules work_step save_op verify balance helper reconciling sessions_loop) simp_all

lemma draining: "rely E R \<Longrightarrow> stays R background_call (drain n E immediate)"
  by (induction n) (auto intro!: rules state_step await)

lemma restart_body: "rely E R \<Longrightarrow> stays R background_call (restart_node E pol op rating)"
  unfolding restart_node_def by (intro local_rules verify balance helper reconciling setting) simp_all

lemma restart_finish: "stays R C (restart_end E op)" "stays R C (restart_failed E op e)"
  unfolding restart_end_def restart_failed_def by (intro local_rules save_op state_step; simp)+

lemma restarting: "rely E R \<Longrightarrow> stays R background_call (do_restart n E op immediate rating)"
  unfolding do_restart_def Let_def
  by (intro local_rules save_op draining restart_body restart_finish) (simp_all add: work)

lemma restart_request: "stays R C (restart E immediate rating)"
  unfolding restart_def Let_def by (intro local_rules save_op state_step) simp

lemma locking: "rely E R \<Longrightarrow> stays R (\<lambda>_. True) p \<Longrightarrow> stays R (\<lambda>_. True) (lockedP E p)"
  unfolding lockedP_def by (intro rules await state_step) (simp_all add: work)

lemma open_work: "rely E R \<Longrightarrow> stays R (\<lambda>_. True) (open_session E i)"
  unfolding open_session_def by (intro locking attempts)

lemma opening_job: "rely E R \<Longrightarrow> stays R (\<lambda>_. True) (opener E i n)"
  unfolding opener_def by (intro local_rules work_step open_work) (simp_all add: note_failure_def Let_def)

lemma close_work: "rely E R \<Longrightarrow> stays R (\<lambda>_. True) (close E i stop)"
  unfolding close_def close_intent_def
  by (intro local_rules process_step locking closing_locked)
    (simp_all add: policy_grows_def retire_model_def stop_maintaining_def split: option.split)

lemma closing_job: "rely E R \<Longrightarrow> stays R (\<lambda>_. True) (close_job E i)"
  unfolding close_job_def by (intro local_rules close_work) (simp_all add: work)

lemma withdrawal: "rely E R \<Longrightarrow> stays R (\<lambda>_. True) (treasury E manual)"
  unfolding treasury_def by (intro locking treasury_work)

lemma sweep_part: "stays R C p \<Longrightarrow> stays R C (sweep_step E name p es)"
  unfolding sweep_step_def by (intro local_rules)

lemma sweeping_all: "rely E R \<Longrightarrow> stays R (\<lambda>_. True) (sweep E)"
  unfolding sweep_def
  by (intro local_rules work_step setting sweep_part stays_every [OF scan_wallet] withdrawal) simp_all

lemma a_round: "rely E R \<Longrightarrow> stays R background_call (run_round E n)"
  unfolding run_round_def by (intro local_rules ticking state_step await) simp_all

lemma ending_job: "stays R C (finished E t res)"
  unfolding finished_def by (intro local_rules state_step) simp_all

lemma attempting: "stays R C p \<Longrightarrow> stays R C (gathered p)"
  unfolding gathered_def by (intro local_rules)

lemma behind_admin: "(\<And>a. stays R C (f a)) \<Longrightarrow> stays R C (as_admin A q f)"
  unfolding as_admin_def by (intro local_rules)

lemma reporting: "rely (app_env A) R \<Longrightarrow> stays R background_call (status_page hu A q)"
  unfolding status_page_def
  by (intro local_rules behind_admin attempting state_step verify balance stake
      helper) simp_all

lemma signing: "stays R C (login A q tok)" "stays R C (logout A q)" "stays R C (logout_all A q)"
  unfolding login_def logout_def logout_all_def put_settingP_def case_prod_beta Let_def
  by (intro local_rules behind_admin work_step; simp add: admin_record_def drop_expired_wf drop_expired_policy)+

lemma saving_policy: "stays R C (put_policy A q p)"
  unfolding stays_def by (rule allI, rule wp_mono [OF put_policy_grows]) (auto simp: process keeps_wf_def)

lemma managing_keys: "stays R C (create_key A q k)" "stays R C (edit_key A q i k)" "stays R C (revoke A q i)"
  unfolding create_key_def edit_key_def revoke_def put_keyP_def put_requestP_def case_prod_beta Let_def
  by (intro local_rules behind_admin work_step; simp add: completed_request_def)+

end

section \<open>Nothing else submits\<close>

lemma reads_calls: "stays anything background_call p \<Longrightarrow> filter (\<lambda>x. wallet_call (fst x)) (calls p s) = []"
  using any.use [of background_call p s "\<lambda>c _. background_call c" "\<lambda>_ _. True"]
  by (auto simp: filter_empty_conv dest: wp_calls)

text \<open>
  C5. Serving a request, the periodic tick, the wallet scan, start-up recovery, a node restart, the
  status page and the changes an administrator makes to policy and keys never submit a wallet transaction: they only
  read, and start the tasks that do.
\<close>

theorem other_work_never_submits:
  "filter (\<lambda>x. wallet_call (fst x))
     (calls (acquire rounds E i prewarm) s @ calls (tick E) s @ calls (sweep_wallet E) s @ calls (recover E) s @
      calls (do_restart rounds E op immediate rating) s @ calls (put_policy A q p) s @ calls (create_key A q k) s @
      calls (edit_key A q j k) s @ calls (revoke A q j) s @ calls (login A q tok) s @ calls (logout_all A q) s @
      calls (status_page hu A q) s) = []"
  by (simp add: reads_calls any.acquiring any.ticking any.scan_wallet any.recovering any.restarting any.saving_policy
      any.managing_keys any.signing any.reporting)

section \<open>What the operations guarantee to each other\<close>

definition guarantees :: "gw \<Rightarrow> gw \<Rightarrow> bool" where
  "guarantees s t = (db_wf (db t) \<and> policy_grows s t)"

lemma guaranteed:
  "stays keeps_wf C p \<Longrightarrow> stays policy_grows C' p \<Longrightarrow> db_wf (db s) \<Longrightarrow> list_all (guarantees s) (shown p s)"
  using stays_shown [of keeps_wf C p _ s] stays_shown [of policy_grows C' p _ s]
  by (auto simp: list_all_iff guarantees_def keeps_wf_def)

text \<open>
  C14. What the other theorems assume of the interference is what every operation guarantees. The
  records table is typed: every document is of the type of its kind (and, among the settings, of its
  name) and is stored under the identifier it carries. And the policy only changes to one with a
  greater revision. Every operation keeps both at each of its awaits and at its end, on every path,
  while the others do. So the code never finds a document of another type where it looks one up, and
  a revision that has not moved means a policy that has not.
\<close>

theorem operations_guarantee:
  assumes "rely (app_env A) keeps_wf" and "rely (app_env A) policy_grows" and "db_wf (db s)"
  shows "list_all (guarantees s)
    (shown (opener (app_env A) i n) s @ shown (close (app_env A) i stop) s @ shown (treasury (app_env A) manual) s @
     shown (bind_session (app_env A) i c) s @ shown (reconcile (app_env A)) s @ shown (sweep (app_env A)) s @
     shown (tick (app_env A)) s @ shown (recover (app_env A)) s @ shown (restart (app_env A) now rating) s @
     shown (do_restart rounds (app_env A) op now rating) s @ shown (acquire rounds (app_env A) i prewarm) s @
     shown (login A q tok) s @ shown (logout A q) s @ shown (logout_all A q) s @ shown (put_policy A q p) s @
     shown (create_key A q k) s @ shown (edit_key A q i k) s @ shown (revoke A q i) s @
     shown (status_page hu A q) s @ shown (finished (app_env A) n res) s @ shown (completion rounds A q raw) s)"
  unfolding list_all_append
  by (intro conjI
      guaranteed [OF wf.opening_job [OF assms(1)] policy.opening_job [OF assms(2)] assms(3)]
      guaranteed [OF wf.close_work [OF assms(1)] policy.close_work [OF assms(2)] assms(3)]
      guaranteed [OF wf.withdrawal [OF assms(1)] policy.withdrawal [OF assms(2)] assms(3)]
      guaranteed [OF wf.binding [OF assms(1)] policy.binding [OF assms(2)] assms(3)]
      guaranteed [OF wf.reconciling [OF assms(1)] policy.reconciling [OF assms(2)] assms(3)]
      guaranteed [OF wf.sweeping_all [OF assms(1)] policy.sweeping_all [OF assms(2)] assms(3)]
      guaranteed [OF wf.ticking [OF assms(1)] policy.ticking [OF assms(2)] assms(3)]
      guaranteed [OF wf.recovering [OF assms(1)] policy.recovering [OF assms(2)] assms(3)]
      guaranteed [OF wf.restart_request policy.restart_request assms(3)]
      guaranteed [OF wf.restarting [OF assms(1)] policy.restarting [OF assms(2)] assms(3)]
      guaranteed [OF wf.acquiring [OF assms(1)] policy.acquiring [OF assms(2)] assms(3)]
      guaranteed [OF wf.signing(1) policy.signing(1) assms(3)]
      guaranteed [OF wf.signing(2) policy.signing(2) assms(3)]
      guaranteed [OF wf.signing(3) policy.signing(3) assms(3)]
      guaranteed [OF wf.saving_policy policy.saving_policy assms(3)]
      guaranteed [OF wf.managing_keys(1) policy.managing_keys(1) assms(3)]
      guaranteed [OF wf.managing_keys(2) policy.managing_keys(2) assms(3)]
      guaranteed [OF wf.managing_keys(3) policy.managing_keys(3) assms(3)]
      guaranteed [OF wf.reporting [OF assms(1)] policy.reporting [OF assms(2)] assms(3)]
      guaranteed [OF wf.ending_job policy.ending_job assms(3)]
      guaranteed [OF wf.completing [OF assms(1)] policy.completing [OF assms(2)] assms(3)])

theorem operations_guarantee_witness:
  "list_all (guarantees key_state) (shown (completion 1 sample_app sample_http ''{}'') key_state)"
proof -
  have r: "rely (app_env sample_app) keeps_wf" "rely (app_env sample_app) policy_grows"
    by (simp_all add: sample_app_def) (intro rely_scenario, unfold_locales)+
  have "db_wf (db key_state)" by (simp add: key_state_db db_wf_def db_ok_def)
  from operations_guarantee [OF r this, where rounds = 1 and q = sample_http and raw = "''{}''"]
  show ?thesis by simp
qed

end
